(* ===== verification/Alpha_Prelude.thy ===== *)
theory Alpha_Prelude
  imports Complex_Main "HOL-Library.Log_Nat" "HOL-Library.Word" "HOL-Library.Signed_Division"
begin

text \<open>
  Shared vocabulary of the development: the error codes of the C interface, the
  collections of simplification rules the component theories fill, and the generic
  facts on rounding a rational to an integer that both the binary64 model
  (\<open>IEEE_Double\<close>) and the decimal printer (\<open>Decimal_Rounding\<close>) rest on.
\<close>

section \<open>Rule collections\<close>

named_theorems double_simps "evaluation of binary64 operations on finite values"
named_theorems round_intros "introduction rules for order facts through rounding"

section \<open>Result codes\<close>

datatype alpha_err_t =
    ALPHA_OK
  | ALPHA_ERR_INVALID_ARG
  | ALPHA_ERR_RANGE
  | ALPHA_ERR_IO
  | ALPHA_ERR_DB
  | ALPHA_ERR_HTTP

section \<open>Enumerations of the domain\<close>

datatype alpha_signal_t =
    ALPHA_SIGNAL_BUY
  | ALPHA_SIGNAL_SELL
  | ALPHA_SIGNAL_HOLD
  | ALPHA_SIGNAL_CLOSE

datatype alpha_side_t = ALPHA_SIDE_BUY | ALPHA_SIDE_SELL

datatype alpha_market_t =
    ALPHA_MARKET_KOSPI
  | ALPHA_MARKET_KOSDAQ
  | ALPHA_MARKET_NYSE
  | ALPHA_MARKET_NASDAQ

section \<open>Rounding a rational to the nearest integer, ties to even\<close>

definition rne :: "rat \<Rightarrow> int" where
  "rne x = (let f = \<lfloor>x\<rfloor>; d = x - of_int f
            in if d < 1/2 then f else if d > 1/2 then f + 1
               else if even f then f else f + 1)"

lemma rne_of_int [simp]: "rne (of_int n) = n"
  by (simp add: rne_def)

lemma rne_numeral [simp]:
  "rne 0 = 0" "rne 1 = 1" "rne (numeral k) = numeral k" "rne (- numeral k) = - numeral k"
  "rne (- 1) = - 1"
  using rne_of_int [of 0] rne_of_int [of 1] rne_of_int [of "numeral k"]
    rne_of_int [of "- numeral k"] rne_of_int [of "- 1"] by simp_all

lemma rne_bounds: "\<lfloor>x\<rfloor> \<le> rne x" "rne x \<le> \<lfloor>x\<rfloor> + 1"
  by (auto simp: rne_def Let_def)

lemma rne_error: "\<bar>of_int (rne x) - x\<bar> \<le> 1/2"
proof -
  have "of_int \<lfloor>x\<rfloor> \<le> x" "x < of_int \<lfloor>x\<rfloor> + 1"
    by linarith+
  then show ?thesis
    by (auto simp: rne_def Let_def)
qed

lemma rne_tie: "\<bar>of_int (rne x) - x\<bar> = 1/2 \<Longrightarrow> even (rne x)"
proof -
  assume "\<bar>of_int (rne x) - x\<bar> = 1/2"
  moreover have "of_int \<lfloor>x\<rfloor> \<le> x" "x < of_int \<lfloor>x\<rfloor> + 1"
    by linarith+
  ultimately show ?thesis
    by (auto simp: rne_def Let_def split: if_splits)
qed

lemma rne_mono: "x \<le> y \<Longrightarrow> rne x \<le> rne y"
proof -
  assume le: "x \<le> y"
  then have fl: "\<lfloor>x\<rfloor> \<le> \<lfloor>y\<rfloor>" by (rule floor_mono)
  show ?thesis
  proof (cases "\<lfloor>x\<rfloor> = \<lfloor>y\<rfloor>")
    case True
    then show ?thesis using le by (auto simp: rne_def Let_def)
  next
    case False
    with fl have "\<lfloor>x\<rfloor> + 1 \<le> \<lfloor>y\<rfloor>" by simp
    then show ?thesis
      using rne_bounds(2) [of x] rne_bounds(1) [of y] by linarith
  qed
qed

lemma rne_unique:
  assumes "\<bar>of_int n - x\<bar> < 1/2"
  shows "rne x = n"
proof -
  have "\<bar>of_int (rne x) - of_int n :: rat\<bar> < 1"
    using rne_error [of x] assms by linarith
  then have "of_int \<bar>rne x - n\<bar> < (1::rat)" by simp
  then show ?thesis by linarith
qed

lemma rne_uminus: "rne (- x) = - rne x"
proof (cases "x = of_int \<lfloor>x\<rfloor>")
  case True
  then show ?thesis by (metis of_int_minus rne_of_int)
next
  case False
  then have "\<lfloor>- x\<rfloor> = - \<lfloor>x\<rfloor> - 1"
    by (intro floor_unique) (use floor_correct [of x] in \<open>auto simp: less_le\<close>)
  then show ?thesis
    by (auto simp: rne_def Let_def)
qed

lemma rne_nearest: "\<bar>of_int (rne x) - x\<bar> \<le> \<bar>of_int n - x\<bar>"
proof (cases "n = rne x")
  case False
  then have "1 \<le> \<bar>n - rne x\<bar>" by linarith
  then have "(1::rat) \<le> of_int \<bar>n - rne x\<bar>"
    by (simp only: of_int_1_le_iff)
  then have "(1::rat) \<le> \<bar>of_int n - of_int (rne x)\<bar>" by simp
  with rne_error [of x] show ?thesis by linarith
qed simp

lemma rne_nonneg: "0 \<le> x \<Longrightarrow> 0 \<le> rne x"
  using rne_mono [of 0 x] by simp

section \<open>The interface of a rounding function\<close>

text \<open>
  What the numeric code relies on when it rounds: a rounding is monotone, commutes with
  the sign and leaves an already rounded value alone. Binary rounding to 53 bits and
  decimal rounding to a number of places both provide it.
\<close>

locale rounding =
  fixes R :: "rat \<Rightarrow> rat"
  assumes R_mono: "x \<le> y \<Longrightarrow> R x \<le> R y"
    and R_uminus: "R (- x) = - R x"
    and R_idem: "R (R x) = R x"
begin

lemma R_zero: "R 0 = 0"
  using R_uminus [of 0] by simp

lemma R_nonneg: "0 \<le> x \<Longrightarrow> 0 \<le> R x"
  using R_mono [of 0 x] by (simp add: R_zero)

lemma R_nonpos: "x \<le> 0 \<Longrightarrow> R x \<le> 0"
  using R_mono [of x 0] by (simp add: R_zero)

lemma R_le_fixed: "R b = b \<Longrightarrow> x \<le> b \<Longrightarrow> R x \<le> b"
  using R_mono [of x b] by simp

lemma R_ge_fixed: "R b = b \<Longrightarrow> b \<le> x \<Longrightarrow> b \<le> R x"
  using R_mono [of b x] by simp

lemma R_abs: "\<bar>R x\<bar> = R \<bar>x\<bar>"
  using R_nonneg [of x] R_nonpos [of x] by (cases "0 \<le> x") (auto simp: R_uminus abs_if)

lemma R_abs_le_fixed: "R b = b \<Longrightarrow> \<bar>x\<bar> \<le> b \<Longrightarrow> \<bar>R x\<bar> \<le> b"
  by (simp add: R_abs R_le_fixed)

end

end
