(* ===== verification/IEEE_Double.thy ===== *)
theory IEEE_Double
  imports Alpha_Prelude
begin

text \<open>
  IEEE 754 binary64, the type \<^verbatim>\<open>double\<close> of the C sources, with the rounding mode
  \<^verbatim>\<open>FE_TONEAREST\<close> that \<^verbatim>\<open>alpha_initialize\<close> selects and no contraction of
  multiplications and additions (the library is built with
  \<^verbatim>\<open>-ffp-contract=off\<close>). A finite non-zero value is its exact rational value;
  every arithmetic operation is the exact rational operation followed by one rounding.
\<close>

section \<open>Rounding to 53 significant bits\<close>

definition ilog2 :: "rat \<Rightarrow> int" where
  "ilog2 x = (let (p, q) = quotient_of x; l = bitlen p - bitlen q
              in if 2 powi l \<le> x then l else l - 1)"

lemma ilog2_bounds:
  assumes "0 < x"
  shows "2 powi (ilog2 x) \<le> x" "x < 2 powi (ilog2 x + 1)"
proof -
  obtain p q where pq: "quotient_of x = (p, q)" by (cases "quotient_of x")
  have q: "0 < q" using pq by (rule quotient_of_denom_pos)
  have x: "x = of_int p / of_int q" using pq by (rule quotient_of_div)
  have p: "0 < p" using assms q by (simp add: x zero_less_divide_iff)
  have cast: "(2::rat) powi bitlen n = of_int (2 ^ nat (bitlen n))"
       "0 < n \<Longrightarrow> (2::rat) powi (bitlen n - 1) = of_int (2 ^ nat (bitlen n - 1))" for n
    using bitlen_nonneg [of n] bitlen_bounds [of n]
    by (auto simp: power_int_def bitlen_eq_zero_iff not_le) 
  have bp: "2 powi (bitlen p - 1) \<le> (of_int p :: rat)" "(of_int p :: rat) < 2 powi bitlen p"
    using bitlen_bounds [OF p] p by (simp_all only: cast of_int_le_iff of_int_less_iff)
  have bq: "2 powi (bitlen q - 1) \<le> (of_int q :: rat)" "(of_int q :: rat) < 2 powi bitlen q"
    using bitlen_bounds [OF q] q by (simp_all only: cast of_int_le_iff of_int_less_iff)
  let ?l = "bitlen p - bitlen q"
  have "2 powi (?l - 1) * of_int q \<le> (2::rat) powi (?l - 1) * 2 powi bitlen q"
    using bq(2) by simp
  also have "\<dots> = 2 powi (bitlen p - 1)" by (simp flip: power_int_add)
  also have "\<dots> \<le> of_int p" by (rule bp)
  finally have lo: "2 powi (?l - 1) \<le> x" using q by (simp add: x pos_le_divide_eq)
  have "of_int p < (2::rat) powi (?l + 1) * 2 powi (bitlen q - 1)"
    using bp(2) by (simp flip: power_int_add)
  also have "\<dots> \<le> 2 powi (?l + 1) * of_int q" using bq(1) by simp
  finally have hi: "x < 2 powi (?l + 1)" using q by (simp add: x pos_divide_less_eq)
  from lo hi show "2 powi (ilog2 x) \<le> x" "x < 2 powi (ilog2 x + 1)"
    by (auto simp: ilog2_def pq Let_def)
qed

lemma powi2_less_iff [simp]: "(2::rat) powi a < 2 powi b \<longleftrightarrow> a < b"
  using power_int_strict_increasing [of a b "2::rat"] power_int_increasing [of b a "2::rat"]
  by (cases "a < b") auto

lemma powi2_le_iff [simp]: "(2::rat) powi a \<le> 2 powi b \<longleftrightarrow> a \<le> b"
  by (simp add: not_less [symmetric])

lemma powi2_pos [simp]: "0 < (2::rat) powi a" "0 \<le> (2::rat) powi a"
  by (simp_all add: zero_less_power_int)

lemma ilog2_unique:
  assumes "2 powi e \<le> x" "x < 2 powi (e + 1)"
  shows "ilog2 x = e"
proof -
  have x: "0 < x" using assms(1) powi2_pos(1) [of e] by linarith
  have "2 powi e < (2::rat) powi (ilog2 x + 1)" "2 powi ilog2 x < (2::rat) powi (e + 1)"
    using assms ilog2_bounds [OF x] by linarith+
  then show ?thesis by simp
qed

lemma ilog2_mono: "0 < x \<Longrightarrow> x \<le> y \<Longrightarrow> ilog2 x \<le> ilog2 y"
proof -
  assume "0 < x" "x \<le> y"
  then have "2 powi ilog2 x < (2::rat) powi (ilog2 y + 1)"
    using ilog2_bounds [of x] ilog2_bounds [of y] by linarith
  then show ?thesis by simp
qed

definition qexp :: "rat \<Rightarrow> int" where
  "qexp x = max (ilog2 \<bar>x\<bar> - 52) (- 1074)"

definition rnd53 :: "rat \<Rightarrow> rat" where
  "rnd53 x = (if x = 0 then 0 else of_int (rne (x / 2 powi qexp x)) * 2 powi qexp x)"

lemma qexp_uminus [simp]: "qexp (- x) = qexp x"
  by (simp add: qexp_def)

lemma rnd53_0 [simp]: "rnd53 0 = 0"
  by (simp add: rnd53_def)

lemma rnd53_uminus [simp]: "rnd53 (- x) = - rnd53 x"
  by (simp add: rnd53_def rne_uminus)

lemma rnd53_upper:
  assumes "0 < x"
  shows "rnd53 x \<le> 2 powi (qexp x + 53)"
proof -
  have "x < 2 powi (ilog2 x + 1)" using ilog2_bounds [OF assms] by simp
  also have "\<dots> \<le> 2 powi (qexp x + 53)" using assms by (simp add: qexp_def)
  finally have "x / 2 powi qexp x \<le> of_int (2 ^ 53)"
    by (simp add: divide_le_eq power_int_add)
  then have "rne (x / 2 powi qexp x) \<le> 2 ^ 53"
    using rne_mono rne_of_int by metis
  then have "of_int (rne (x / 2 powi qexp x)) \<le> (2 ^ 53 :: rat)"
    by (metis of_int_le_iff of_int_numeral of_int_power)
  then have "of_int (rne (x / 2 powi qexp x)) * 2 powi qexp x \<le> (2 ^ 53 :: rat) * 2 powi qexp x"
    by (rule mult_right_mono) simp
  then show ?thesis using assms by (simp add: rnd53_def power_int_add mult.commute)
qed

lemma rnd53_lower:
  assumes "0 < x" "- 1022 \<le> ilog2 x"
  shows "2 powi (ilog2 x) \<le> rnd53 x"
proof -
  have q: "qexp x = ilog2 x - 52" using assms by (simp add: qexp_def)
  have "2 powi ilog2 x \<le> x" using ilog2_bounds [OF assms(1)] by simp
  then have "of_int (2 ^ 52) \<le> x / 2 powi qexp x"
    by (simp add: q le_divide_eq power_int_diff)
  then have "2 ^ 52 \<le> rne (x / 2 powi qexp x)"
    using rne_mono rne_of_int by metis
  then have "(2 ^ 52 :: rat) \<le> of_int (rne (x / 2 powi qexp x))"
    by (metis of_int_le_iff of_int_numeral of_int_power)
  then have "(2 ^ 52 :: rat) * 2 powi qexp x \<le> of_int (rne (x / 2 powi qexp x)) * 2 powi qexp x"
    by (rule mult_right_mono) simp
  then show ?thesis using assms(1) by (simp add: rnd53_def q power_int_diff)
qed

lemma rnd53_mono_pos:
  assumes "0 < x" "x \<le> y"
  shows "rnd53 x \<le> rnd53 y"
proof -
  have y: "0 < y" using assms by simp
  have le: "qexp x \<le> qexp y"
    using ilog2_mono [OF assms] assms y by (auto simp: qexp_def)
  show ?thesis
  proof (cases "qexp x = qexp y")
    case True
    have "rne (x / 2 powi qexp y) \<le> rne (y / 2 powi qexp y)"
      by (rule rne_mono) (use assms(2) in \<open>simp add: divide_right_mono\<close>)
    with True show ?thesis using assms y by (simp add: rnd53_def mult_right_mono)
  next
    case False
    with le have lt: "qexp x < qexp y" by simp
    then have q: "qexp y = ilog2 y - 52" "- 1022 \<le> ilog2 y"
      using y by (auto simp: qexp_def split: if_splits simp: max_def)
    have "rnd53 x \<le> 2 powi (qexp x + 53)" by (rule rnd53_upper [OF assms(1)])
    also have "\<dots> \<le> 2 powi ilog2 y" using lt q by simp
    also have "\<dots> \<le> rnd53 y" by (rule rnd53_lower [OF y q(2)])
    finally show ?thesis .
  qed
qed

lemma rnd53_nonneg: "0 \<le> x \<Longrightarrow> 0 \<le> rnd53 x"
  by (auto simp: rnd53_def rne_nonneg)

lemma rnd53_mono: "x \<le> y \<Longrightarrow> rnd53 x \<le> rnd53 y"
proof -
  assume le: "x \<le> y"
  consider "0 < x" | "x \<le> 0" "0 \<le> y" | "y < 0" using le by linarith
  then show ?thesis
  proof cases
    case 1
    then show ?thesis using le by (rule rnd53_mono_pos)
  next
    case 2
    then show ?thesis
      using rnd53_nonneg [of y] rnd53_nonneg [of "- x"] by simp
  next
    case 3
    then show ?thesis using rnd53_mono_pos [of "- y" "- x"] le by simp
  qed
qed

subsection \<open>Representable values are fixed points\<close>

definition repr53 :: "rat \<Rightarrow> bool" where
  "repr53 v \<longleftrightarrow> (\<exists>m e. v = of_int m * 2 powi e \<and> \<bar>m\<bar> \<le> 2 ^ 53 \<and> - 1074 \<le> e)"

lemma repr53I: "v = of_int m * 2 powi e \<Longrightarrow> \<bar>m\<bar> \<le> 2 ^ 53 \<Longrightarrow> - 1074 \<le> e \<Longrightarrow> repr53 v"
  by (auto simp: repr53_def)

lemma repr53_uminus [simp]: "repr53 (- v) = repr53 v"
proof -
  have neg: "repr53 (- v)" if "repr53 v" for v
  proof -
    from that obtain m e where "v = of_int m * 2 powi e" "\<bar>m\<bar> \<le> 2 ^ 53" "- 1074 \<le> e"
      by (auto simp: repr53_def)
    then show ?thesis by (intro repr53I [of _ "- m" e]) simp_all
  qed
  show ?thesis using neg [of v] neg [of "- v"] by auto
qed

lemma repr53_int: "\<bar>m\<bar> \<le> 2 ^ 53 \<Longrightarrow> repr53 (of_int m)"
  by (rule repr53I [of _ m 0]) auto

lemma repr53_rnd53: "repr53 (rnd53 x)"
proof -
  have pos: "repr53 (rnd53 x)" if x: "0 < x" for x
  proof (rule repr53I)
    show "rnd53 x = of_int (rne (x / 2 powi qexp x)) * 2 powi qexp x"
      using x by (simp add: rnd53_def)
    have "of_int (rne (x / 2 powi qexp x)) * 2 powi qexp x \<le> (2 ^ 53 :: rat) * 2 powi qexp x"
      using rnd53_upper [OF x] x by (simp add: rnd53_def power_int_add mult.commute)
    then have "of_int (rne (x / 2 powi qexp x)) \<le> (of_int (2 ^ 53) :: rat)" by simp
    then have "rne (x / 2 powi qexp x) \<le> 2 ^ 53" by (simp only: of_int_le_iff)
    then show "\<bar>rne (x / 2 powi qexp x)\<bar> \<le> 2 ^ 53" using x by (simp add: rne_nonneg)
    show "- 1074 \<le> qexp x" by (simp add: qexp_def)
  qed
  consider "0 < x" | "x = 0" | "0 < - x" by linarith
  then show ?thesis
    using pos [of x] pos [of "- x"] repr53_int [of 0] by cases auto
qed

lemma rnd53_grid:
  assumes "x = of_int n * 2 powi qexp x"
  shows "rnd53 x = x"
proof (cases "x = 0")
  case False
  have "x / 2 powi qexp x = of_int n"
    using assms by (simp add: divide_eq_eq)
  then show ?thesis using False assms by (simp add: rnd53_def)
qed simp

lemma powi2_split: "a \<le> b \<Longrightarrow> (2::rat) powi b = of_int (2 ^ nat (b - a)) * 2 powi a"
  using power_int_add [of "2::rat" "b - a" a] by (simp add: power_int_nonneg_exp)

lemma rnd53_repr_pos:
  assumes v: "0 < v" "v = of_int m * 2 powi e" and m: "\<bar>m\<bar> \<le> 2 ^ 53" and e: "- 1074 \<le> e"
  shows "rnd53 v = v"
proof (cases "qexp v \<le> e")
  case True
  have "v = of_int m * (of_int (2 ^ nat (e - qexp v)) * 2 powi qexp v)"
    unfolding powi2_split [OF True, symmetric] by (rule v(2))
  then have "v = of_int (m * 2 ^ nat (e - qexp v)) * 2 powi qexp v"
    by (simp only: of_int_mult mult.assoc)
  then show ?thesis by (rule rnd53_grid)
next
  case False
  then have q: "qexp v = ilog2 v - 52"
    using e v(1) by (auto simp: qexp_def max_def split: if_splits)
  have lo: "2 powi (qexp v + 52) \<le> v" using ilog2_bounds [OF v(1)] q by simp
  have "of_int m * 2 powi e \<le> of_int (2 ^ 53) * (2::rat) powi e"
    by (rule mult_right_mono) (use m in \<open>simp_all only: of_int_le_iff, simp_all\<close>)
  then have "v \<le> 2 powi (e + 53)"
    unfolding v(2) [symmetric] by (simp add: power_int_add mult.commute)
  with lo have "(2::rat) powi (qexp v + 52) \<le> 2 powi (e + 53)" by (rule order_trans)
  with False have qe: "qexp v + 52 = e + 53" by (simp only: powi2_le_iff)
  with lo have "2 powi (e + 53) \<le> of_int m * (2::rat) powi e"
    unfolding v(2) [symmetric] by (simp only:)
  then have "of_int (2 ^ 53) \<le> (of_int m :: rat)" by (simp add: power_int_add mult.commute)
  then have "m = 2 ^ 53" using m by (simp only: of_int_le_iff)
  moreover have "qexp v = e + 1" using qe by simp
  ultimately have "of_int m * 2 powi e = of_int (2 ^ 52) * (2::rat) powi qexp v"
    by (simp add: power_int_add)
  then have "v = of_int (2 ^ 52) * 2 powi qexp v"
    unfolding v(2) [symmetric] .
  then show ?thesis by (rule rnd53_grid)
qed

lemma rnd53_repr: "repr53 v \<Longrightarrow> rnd53 v = v"
proof -
  assume r: "repr53 v"
  have pos: "rnd53 v = v" if "repr53 v" "0 < v" for v
    using that rnd53_repr_pos [of v] unfolding repr53_def by blast
  consider "0 < v" | "v = 0" | "0 < - v" by linarith
  then show ?thesis
    using pos [of v] pos [of "- v"] r by cases auto
qed

lemma repr53_iff: "repr53 v \<longleftrightarrow> rnd53 v = v"
  using rnd53_repr [of v] repr53_rnd53 [of v] by (cases "rnd53 v = v") auto

interpretation binary64: rounding rnd53
  by unfold_locales (simp_all add: rnd53_mono rnd53_repr repr53_rnd53)

lemma rnd53_int: "\<bar>m\<bar> \<le> 2 ^ 53 \<Longrightarrow> rnd53 (of_int m) = of_int m"
  by (rule rnd53_repr [OF repr53_int])

lemma rnd53_1 [simp]: "rnd53 1 = 1"
  using rnd53_int [of 1] by simp

subsection \<open>Error bounds\<close>

lemma rnd53_error: "\<bar>rnd53 x - x\<bar> \<le> 2 powi qexp x / 2"
proof (cases "x = 0")
  case False
  let ?q = "(2::rat) powi qexp x"
  have "rnd53 x - x = (of_int (rne (x / ?q)) - x / ?q) * ?q"
    using False by (simp add: rnd53_def left_diff_distrib)
  then have "\<bar>rnd53 x - x\<bar> = \<bar>of_int (rne (x / ?q)) - x / ?q\<bar> * ?q"
    by (simp add: abs_mult)
  also have "\<dots> \<le> 1 / 2 * 2 powi qexp x"
    by (intro mult_right_mono rne_error) simp
  finally show ?thesis by simp
qed simp

lemma rnd53_rel_error:
  assumes "2 powi (- 1022) \<le> \<bar>x\<bar>"
  shows "\<bar>rnd53 x - x\<bar> \<le> \<bar>x\<bar> / 2 ^ 53"
proof -
  have x: "0 < \<bar>x\<bar>" using assms powi2_pos(1) [of "- 1022"] by linarith
  have "(2::rat) powi (- 1022) < 2 powi (ilog2 \<bar>x\<bar> + 1)"
    using assms ilog2_bounds(2) [OF x] by linarith
  then have "- 1022 < ilog2 \<bar>x\<bar> + 1" by (simp only: powi2_less_iff)
  then have q: "qexp x = ilog2 \<bar>x\<bar> - 52" by (simp add: qexp_def)
  have "\<bar>rnd53 x - x\<bar> \<le> 2 powi qexp x / 2" by (rule rnd53_error)
  also have "\<dots> = 2 powi ilog2 \<bar>x\<bar> / 2 ^ 53" by (simp add: q power_int_diff)
  also have "\<dots> \<le> \<bar>x\<bar> / 2 ^ 53" using ilog2_bounds(1) [OF x] by (simp add: divide_right_mono)
  finally show ?thesis .
qed

section \<open>The type of double values\<close>

text \<open>\<open>Fin 0\<close> is positive zero and \<open>NZero\<close> negative zero; the payload and the
  sign of a NaN are not observable in the sources and are not kept.\<close>

datatype double = NaN | PInf | NInf | NZero | Fin rat

fun is_nan :: "double \<Rightarrow> bool" where
  "is_nan NaN = True"
| "is_nan _ = False"

fun isfinite :: "double \<Rightarrow> bool" where
  "isfinite NZero = True"
| "isfinite (Fin _) = True"
| "isfinite _ = False"

fun val :: "double \<Rightarrow> rat" where
  "val (Fin r) = r"
| "val _ = 0"

fun signbit :: "double \<Rightarrow> bool" where
  "signbit NInf = True"
| "signbit NZero = True"
| "signbit (Fin r) = (r < 0)"
| "signbit _ = False"

definition overflow_bound :: rat where
  "overflow_bound = 2 ^ 1024"

lemma overflow_bound_code [code]:
  "overflow_bound =
    179769313486231590772930519078902473361797697894230657273430081157732675805500963132708477322407536021120113879871393357658789768814416622492847430639474124377767893424865485276302219601246094119453082952085005768838150682342462881473913110540827237163350510684586298239947245938479716304835356329624224137216"
  by (simp add: overflow_bound_def)

text \<open>The rounding of an exact result; \<open>s\<close> is the sign of a zero result.\<close>

definition mk :: "bool \<Rightarrow> rat \<Rightarrow> double" where
  "mk s r = (let v = rnd53 r
             in if overflow_bound \<le> v then PInf else if v \<le> - overflow_bound then NInf
                else if v = 0 then (if s then NZero else Fin 0) else Fin v)"

definition fits :: "rat \<Rightarrow> bool" where
  "fits r \<longleftrightarrow> \<bar>rnd53 r\<bar> < overflow_bound"

text \<open>A value the hardware can hold.\<close>

fun is_double :: "double \<Rightarrow> bool" where
  "is_double (Fin r) = (rnd53 r = r \<and> \<bar>r\<bar> < overflow_bound)"
| "is_double _ = True"

text \<open>A numeric constant of the source, converted at compile time.\<close>

definition lit :: "rat \<Rightarrow> double" where
  "lit r = mk (r < 0) r"

section \<open>Operations\<close>

instantiation double :: "{zero, one, plus, uminus, minus, times, inverse, ord, abs}"
begin

definition zero_double :: double where "zero_double = Fin 0"

definition one_double :: double where "one_double = Fin 1"

fun uminus_double :: "double \<Rightarrow> double" where
  "- NaN = NaN"
| "- PInf = NInf"
| "- NInf = PInf"
| "- NZero = Fin 0"
| "- (Fin r) = (if r = 0 then NZero else Fin (- r))"

fun abs_double :: "double \<Rightarrow> double" where
  "\<bar>NaN\<bar> = NaN"
| "\<bar>PInf\<bar> = PInf"
| "\<bar>NInf\<bar> = PInf"
| "\<bar>NZero\<bar> = Fin 0"
| "\<bar>Fin r\<bar> = Fin \<bar>r\<bar>"

definition plus_double :: "double \<Rightarrow> double \<Rightarrow> double" where
  "a + b = (if is_nan a \<or> is_nan b then NaN
            else if isfinite a \<and> isfinite b
              then mk (if val a + val b = 0 then signbit a \<and> signbit b else val a + val b < 0)
                     (val a + val b)
            else if isfinite a then b else if isfinite b then a
            else if a = b then a else NaN)"

definition minus_double :: "double \<Rightarrow> double \<Rightarrow> double" where
  "a - b = a + (- b :: double)"

definition times_double :: "double \<Rightarrow> double \<Rightarrow> double" where
  "a * b = (if is_nan a \<or> is_nan b then NaN
            else if isfinite a \<and> isfinite b then mk (signbit a \<noteq> signbit b) (val a * val b)
            else if (isfinite a \<and> val a = 0) \<or> (isfinite b \<and> val b = 0) then NaN
            else if signbit a = signbit b then PInf else NInf)"

definition divide_double :: "double \<Rightarrow> double \<Rightarrow> double" where
  "a div b = (if is_nan a \<or> is_nan b then NaN
            else if isfinite a \<and> isfinite b then
              (if val b = 0
               then (if val a = 0 then NaN else if signbit a = signbit b then PInf else NInf)
               else mk (signbit a \<noteq> signbit b) (val a / val b))
            else if isfinite b then (if signbit a = signbit b then PInf else NInf)
            else if isfinite a then (if signbit a = signbit b then Fin 0 else NZero)
            else NaN)"

definition inverse_double :: "double \<Rightarrow> double" where
  "inverse_double b = (1 :: double) div b"

definition less_eq_double :: "double \<Rightarrow> double \<Rightarrow> bool" where
  "a \<le> b \<longleftrightarrow> \<not> is_nan a \<and> \<not> is_nan b \<and>
     (a = NInf \<or> b = PInf \<or> (isfinite a \<and> isfinite b \<and> val a \<le> val b))"

definition less_double :: "double \<Rightarrow> double \<Rightarrow> bool" where
  "a < b \<longleftrightarrow> \<not> is_nan a \<and> \<not> is_nan b \<and> \<not> b \<le> (a :: double)"

instance ..

end

text \<open>\<^verbatim>\<open>(double)n\<close> for an integer, \<^verbatim>\<open>floor\<close>, and the conversion
  \<^verbatim>\<open>(int64_t)x\<close>, which truncates and is undefined (\<open>None\<close>) outside the range.\<close>

definition of_i64 :: "int \<Rightarrow> double" where
  "of_i64 n = mk False (of_int n)"

definition floor_d :: "double \<Rightarrow> double" where
  "floor_d d = (if isfinite d then mk (signbit d) (of_int \<lfloor>val d\<rfloor>) else d)"

definition trunc_rat :: "rat \<Rightarrow> int" where
  "trunc_rat r = (if r < 0 then \<lceil>r\<rceil> else \<lfloor>r\<rfloor>)"

definition to_i64 :: "double \<Rightarrow> int option" where
  "to_i64 d = (if isfinite d \<and> - (2 ^ 63) \<le> trunc_rat (val d) \<and> trunc_rat (val d) < 2 ^ 63
               then Some (trunc_rat (val d)) else None)"

text \<open>The correctly rounded square root: an integer square root with at least eleven
  more bits than the result keeps, and a sticky half when it is not exact.\<close>

function isqrt :: "int \<Rightarrow> int" where
  "isqrt n = (if n \<le> 0 then 0
              else let s = 2 * isqrt (n div 4) in if (s + 1) * (s + 1) \<le> n then s + 1 else s)"
  by pat_completeness auto
termination
  by (relation "measure nat") auto

declare isqrt.simps [simp del]

definition sqrt_scaled :: "rat \<Rightarrow> rat" where
  "sqrt_scaled r = (let k = 64 - ilog2 r div 2; t = r * 4 powi k; s = isqrt \<lfloor>t\<rfloor>
                    in if of_int (s * s) = t then of_int s / 2 powi k
                       else (of_int s + 1/2) / 2 powi k)"

definition sqrt_d :: "double \<Rightarrow> double" where
  "sqrt_d d = (if is_nan d \<or> d = NInf \<or> (isfinite d \<and> val d < 0) then NaN
               else if d = PInf then PInf
               else if val d = 0 then d
               else mk False (sqrt_scaled (val d)))"

section \<open>Laws of the operations\<close>

lemma overflow_bound_pos [simp]: "0 < overflow_bound"
  by (simp add: overflow_bound_def)

lemma overflow_bound_gt: "2 powi e < overflow_bound" if "e < 1024"
proof -
  have "(2::rat) powi e < 2 powi 1024" using that by (simp only: powi2_less_iff)
  then show ?thesis by (simp add: overflow_bound_def)
qed

lemma isfinite_not_nan: "isfinite d \<Longrightarrow> \<not> is_nan d"
  by (cases d) auto

lemma isfinite_iff: "isfinite d \<longleftrightarrow> d = NZero \<or> (\<exists>r. d = Fin r)"
  by (cases d) auto

lemma isfinite_zero_one [simp]: "isfinite 0" "isfinite 1" "val 0 = 0" "val 1 = 1"
    "\<not> is_nan 0" "\<not> is_nan 1" "\<not> signbit 0" "\<not> signbit 1"
  by (simp_all add: zero_double_def one_double_def)

lemma is_double_zero_one [simp]: "is_double 0" "is_double 1"
  using overflow_bound_gt [of 0] by (simp_all add: zero_double_def one_double_def)

lemma is_nan_mk [simp]: "\<not> is_nan (mk s r)"
  by (simp add: mk_def Let_def)

lemma isfinite_mk: "isfinite (mk s r) \<longleftrightarrow> fits r"
  by (auto simp: mk_def Let_def fits_def abs_less_iff)

lemma val_mk: "fits r \<Longrightarrow> val (mk s r) = rnd53 r"
  by (auto simp: mk_def Let_def fits_def abs_less_iff)

lemma is_double_mk [simp]: "is_double (mk s r)"
  by (auto simp: mk_def Let_def binary64.R_idem abs_less_iff not_le)

lemma is_double_val: "is_double d \<Longrightarrow> rnd53 (val d) = val d"
  by (cases d) auto

lemma is_double_bound: "is_double d \<Longrightarrow> \<bar>val d\<bar> < overflow_bound"
  by (cases d) auto

lemma fitsI: "\<bar>r\<bar> \<le> b \<Longrightarrow> rnd53 b = b \<Longrightarrow> b < overflow_bound \<Longrightarrow> fits r"
  using binary64.R_abs_le_fixed [of b r] by (simp add: fits_def)

lemma fits_between: "fits a \<Longrightarrow> fits b \<Longrightarrow> a \<le> r \<Longrightarrow> r \<le> b \<Longrightarrow> fits r"
  using rnd53_mono [of a r] rnd53_mono [of r b] by (auto simp: fits_def abs_less_iff)

lemma fits_double: "is_double d \<Longrightarrow> fits (val d)"
  by (simp add: fits_def is_double_val is_double_bound)

lemma mk_val: "is_double d \<Longrightarrow> isfinite d \<Longrightarrow> val d \<noteq> 0 \<Longrightarrow> mk s (val d) = d"
  by (cases d) (auto simp: mk_def Let_def abs_less_iff)

subsection \<open>Order\<close>

lemma le_finite: "isfinite a \<Longrightarrow> isfinite b \<Longrightarrow> a \<le> b \<longleftrightarrow> val a \<le> val b"
  by (cases a; cases b) (auto simp: less_eq_double_def)

lemma less_finite: "isfinite a \<Longrightarrow> isfinite b \<Longrightarrow> a < b \<longleftrightarrow> val a < val b"
  by (auto simp: less_double_def le_finite isfinite_not_nan)

lemma le_refl_double: "\<not> is_nan a \<Longrightarrow> a \<le> (a :: double)"
  by (cases a) (auto simp: less_eq_double_def)

lemma le_trans_double: "a \<le> b \<Longrightarrow> b \<le> c \<Longrightarrow> a \<le> (c :: double)"
  by (cases a; cases b; cases c) (auto simp: less_eq_double_def)

lemma le_notnan: "a \<le> (b :: double) \<Longrightarrow> \<not> is_nan a" "a \<le> b \<Longrightarrow> \<not> is_nan b"
  by (auto simp: less_eq_double_def)

lemma less_notnan: "a < (b :: double) \<Longrightarrow> \<not> is_nan a" "a < b \<Longrightarrow> \<not> is_nan b"
  by (auto simp: less_double_def)

lemma not_le_double: "\<not> is_nan a \<Longrightarrow> \<not> is_nan b \<Longrightarrow> \<not> a \<le> b \<longleftrightarrow> b < (a :: double)"
  by (auto simp: less_double_def)

lemma not_less_double: "\<not> is_nan a \<Longrightarrow> \<not> is_nan b \<Longrightarrow> \<not> a < b \<longleftrightarrow> b \<le> (a :: double)"
  by (auto simp: less_double_def)

lemma less_imp_le_double: "a < b \<Longrightarrow> a \<le> (b :: double)"
  by (cases a; cases b) (auto simp: less_double_def less_eq_double_def)

lemma le_less_trans_double: "a \<le> b \<Longrightarrow> b < c \<Longrightarrow> a < (c :: double)"
  by (cases a; cases b; cases c) (auto simp: less_eq_double_def less_double_def)

lemma less_le_trans_double: "a < b \<Longrightarrow> b \<le> c \<Longrightarrow> a < (c :: double)"
  by (cases a; cases b; cases c) (auto simp: less_eq_double_def less_double_def)

lemma isfinite_between: "isfinite a \<Longrightarrow> isfinite b \<Longrightarrow> a \<le> x \<Longrightarrow> x \<le> b \<Longrightarrow> isfinite x"
  by (cases a; cases b; cases x) (auto simp: less_eq_double_def)

lemma mk_mono [round_intros]: "r \<le> r' \<Longrightarrow> mk s r \<le> mk s' r'"
  using rnd53_mono [of r r'] overflow_bound_pos
  by (auto simp: mk_def Let_def less_eq_double_def)

lemma mk_le [round_intros]: "is_double b \<Longrightarrow> isfinite b \<Longrightarrow> r \<le> val b \<Longrightarrow> mk s r \<le> b"
  using rnd53_mono [of r "val b"] overflow_bound_pos
  by (cases b) (auto simp: mk_def Let_def less_eq_double_def is_double_val
      simp del: overflow_bound_pos)

lemma le_mk [round_intros]: "is_double b \<Longrightarrow> isfinite b \<Longrightarrow> val b \<le> r \<Longrightarrow> b \<le> mk s r"
  using rnd53_mono [of "val b" r] overflow_bound_pos
  by (cases b) (auto simp: mk_def Let_def less_eq_double_def is_double_val
      simp del: overflow_bound_pos)

lemma mk_nonneg [round_intros]: "0 \<le> r \<Longrightarrow> 0 \<le> mk s r"
  by (rule le_mk) simp_all

lemma mk_nonpos [round_intros]: "r \<le> 0 \<Longrightarrow> mk s r \<le> 0"
  by (rule mk_le) simp_all

lemma nonneg_cases: "0 \<le> d \<longleftrightarrow> d = PInf \<or> (isfinite d \<and> 0 \<le> val d)"
  by (cases d) (auto simp: less_eq_double_def zero_double_def)

lemma pos_cases: "0 < d \<longleftrightarrow> d = PInf \<or> (isfinite d \<and> 0 < val d)"
  by (cases d) (auto simp: less_eq_double_def less_double_def zero_double_def)

subsection \<open>Arithmetic on finite operands is one rounding\<close>

lemma plus_mk: "isfinite a \<Longrightarrow> isfinite b \<Longrightarrow> \<exists>s. a + b = mk s (val a + val b)"
  by (auto simp: plus_double_def isfinite_not_nan)

lemma isfinite_uminus [simp]: "isfinite (- d) = isfinite d"
  by (cases d) auto

lemma val_uminus [simp]: "val (- d) = - val d"
  by (cases d) auto

lemma is_nan_uminus [simp]: "is_nan (- d) = is_nan d"
  by (cases d) auto

lemma is_double_uminus [simp]: "is_double (- d) = is_double d"
  by (cases d) auto

lemma isfinite_abs [simp]: "isfinite \<bar>d\<bar> = isfinite d"
  by (cases d) auto

lemma val_abs [simp]: "val \<bar>d\<bar> = \<bar>val d\<bar>"
  by (cases d) auto

lemma is_double_abs [simp]: "is_double \<bar>d\<bar> = is_double d"
  by (cases d) (auto simp: binary64.R_abs [symmetric] abs_if)

lemma minus_mk: "isfinite a \<Longrightarrow> isfinite b \<Longrightarrow> \<exists>s. a - b = mk s (val a - val b)"
  using plus_mk [of a "- b"] by (simp add: minus_double_def)

lemma times_mk: "isfinite a \<Longrightarrow> isfinite b \<Longrightarrow> \<exists>s. a * b = mk s (val a * val b)"
  by (auto simp: times_double_def isfinite_not_nan)

lemma divide_mk:
  "isfinite a \<Longrightarrow> isfinite b \<Longrightarrow> val b \<noteq> 0 \<Longrightarrow> \<exists>s. a / b = mk s (val a / val b)"
  by (auto simp: divide_double_def isfinite_not_nan)

lemma lit_mk: "\<exists>s. lit r = mk s r"
  by (auto simp: lit_def)

lemma of_i64_mk: "\<exists>s. of_i64 n = mk s (of_int n)"
  by (auto simp: of_i64_def)

lemma not_nan_arith [simp]:
  "isfinite a \<Longrightarrow> isfinite b \<Longrightarrow> \<not> is_nan (a + b)"
  "isfinite a \<Longrightarrow> isfinite b \<Longrightarrow> \<not> is_nan (a - b)"
  "isfinite a \<Longrightarrow> isfinite b \<Longrightarrow> \<not> is_nan (a * b)"
  "isfinite a \<Longrightarrow> isfinite b \<Longrightarrow> val b \<noteq> 0 \<Longrightarrow> \<not> is_nan (a / b)"
  "\<not> is_nan (lit r)" "\<not> is_nan (of_i64 n)"
  using plus_mk [of a b] minus_mk [of a b] times_mk [of a b] divide_mk [of a b]
  by (auto simp: lit_def of_i64_def)

subsection \<open>Monotonicity\<close>

lemma of_i64_mono: "m \<le> n \<Longrightarrow> of_i64 m \<le> of_i64 n"
  by (simp add: of_i64_def mk_mono)

lemma isfinite_of_i64: "\<bar>n\<bar> \<le> 2 ^ 63 \<Longrightarrow> isfinite (of_i64 n)"
proof -
  assume n: "\<bar>n\<bar> \<le> 2 ^ 63"
  have fixed: "rnd53 (2 ^ 63) = 2 ^ 63"
    by (rule rnd53_repr, rule repr53I [of _ 1 63]) simp_all
  have "\<bar>of_int n :: rat\<bar> \<le> 2 ^ 63"
    using n by (metis of_int_abs of_int_le_iff of_int_numeral of_int_power)
  then have "fits (of_int n)"
    using fixed overflow_bound_gt [of 63] by (intro fitsI [of _ "2 ^ 63"]) simp_all
  then show ?thesis by (simp add: of_i64_def isfinite_mk)
qed

lemma val_of_i64: "\<bar>n\<bar> \<le> 2 ^ 63 \<Longrightarrow> val (of_i64 n) = rnd53 (of_int n)"
  using isfinite_of_i64 [of n] by (simp add: of_i64_def isfinite_mk val_mk)

lemma of_i64_nonneg: "0 \<le> n \<Longrightarrow> 0 \<le> of_i64 n"
  by (simp add: of_i64_def mk_nonneg)

lemma plus_mono_finite:
  "isfinite a \<Longrightarrow> isfinite b \<Longrightarrow> isfinite c \<Longrightarrow> isfinite d \<Longrightarrow> a \<le> b \<Longrightarrow> c \<le> d \<Longrightarrow> a + c \<le> b + d"
  using plus_mk [of a c] plus_mk [of b d] by (auto simp: le_finite intro!: mk_mono)

lemma plus_nonneg_mono:
  assumes "0 \<le> a" "a \<le> b" "0 \<le> c" "c \<le> (d :: double)"
  shows "a + c \<le> b + d"
proof -
  have bd: "0 \<le> b" "0 \<le> d" using assms le_trans_double by blast+
  show ?thesis
  proof (cases "isfinite b \<and> isfinite d")
    case True
    then have "isfinite a" "isfinite c"
      using assms isfinite_between [of 0] by auto
    with True assms show ?thesis by (intro plus_mono_finite) auto
  next
    case False
    then have "b + d = PInf"
      using bd by (auto simp: nonneg_cases plus_double_def isfinite_not_nan)
    moreover have "\<not> is_nan (a + c)"
      using assms(1,3) by (auto simp: nonneg_cases plus_double_def isfinite_not_nan)
    ultimately show ?thesis by (simp add: less_eq_double_def)
  qed
qed

lemma plus_nonneg: "0 \<le> a \<Longrightarrow> 0 \<le> b \<Longrightarrow> 0 \<le> a + (b :: double)"
  using plus_nonneg_mono [of 0 a 0 b] le_trans_double [of 0 "0 + 0" "a + b"]
  by (simp add: plus_double_def mk_nonneg le_refl_double)

lemma times_nonneg_mono:
  assumes "isfinite b" "isfinite d" "0 \<le> a" "a \<le> b" "0 \<le> c" "c \<le> d"
  shows "a * c \<le> b * d"
proof -
  have fin: "isfinite a" "isfinite c"
    using assms isfinite_between [of 0] by auto
  moreover from fin have "val a * val c \<le> val b * val d"
    using assms by (intro mult_mono) (simp_all add: le_finite)
  ultimately show ?thesis
    using times_mk [of a c] times_mk [of b d] assms(1,2) by (auto intro: mk_mono)
qed

lemma times_nonneg: "isfinite a \<Longrightarrow> isfinite b \<Longrightarrow> 0 \<le> a \<Longrightarrow> 0 \<le> b \<Longrightarrow> 0 \<le> a * b"
  using times_mk [of a b] by (auto simp: le_finite intro!: mk_nonneg)

lemma plus_ge_left: 
  assumes "is_double a" "0 \<le> a" "0 \<le> b"
  shows "a \<le> a + b"
proof (cases "isfinite a \<and> isfinite b")
  case True
  then show ?thesis
    using assms plus_mk [of a b] by (auto simp: le_finite intro!: le_mk)
next
  case False
  then have "a + b = PInf"
    using assms by (auto simp: nonneg_cases plus_double_def isfinite_not_nan)
  then show ?thesis using le_notnan(2) [OF assms(2)] by (simp add: less_eq_double_def)
qed

lemma plus_commute_double: "a + b = b + (a :: double)"
  by (auto simp: plus_double_def add.commute conj_commute)

lemma plus_ge_right: "is_double b \<Longrightarrow> 0 \<le> a \<Longrightarrow> 0 \<le> b \<Longrightarrow> b \<le> a + b"
  using plus_ge_left [of b a] by (simp add: plus_commute_double)

lemma is_double_arith [simp]:
  "is_double a \<Longrightarrow> is_double b \<Longrightarrow> is_double (a + b)"
  "is_double a \<Longrightarrow> is_double b \<Longrightarrow> is_double (a - b)"
  "is_double (a * b)" "is_double (a / b)" "is_double (lit r)" "is_double (of_i64 n)"
  "is_double d \<Longrightarrow> is_double (floor_d d)" "is_double d \<Longrightarrow> is_double (sqrt_d d)"
  using overflow_bound_pos
  by (auto simp: plus_double_def minus_double_def times_double_def divide_double_def lit_def
      of_i64_def floor_d_def sqrt_d_def)

lemma abs_mk: "\<bar>mk s r\<bar> = mk False \<bar>r\<bar>"
  using overflow_bound_pos binary64.R_nonneg [of r] binary64.R_nonpos [of r]
  by (cases "0 \<le> r") (auto simp: mk_def Let_def simp del: overflow_bound_pos)

text \<open>Integers of at most 53 bits are exact.\<close>

lemma fits_int53: "\<bar>k\<bar> \<le> 2 ^ 53 \<Longrightarrow> fits (of_int k)"
proof -
  assume k: "\<bar>k\<bar> \<le> 2 ^ 53"
  have "\<bar>of_int k :: rat\<bar> = of_int \<bar>k\<bar>" by simp
  also have "\<dots> \<le> of_int (2 ^ 53)" using k by (simp only: of_int_le_iff)
  finally show "fits (of_int k)"
    using overflow_bound_gt [of 53] rnd53_int [of "2 ^ 53"] by (intro fitsI [of _ "2 ^ 53"]) simp_all
qed

lemma int53_exact:
  assumes "\<bar>k\<bar> \<le> 2 ^ 53"
  shows "isfinite (lit (of_int k))" "val (lit (of_int k)) = of_int k"
    "isfinite (of_i64 k)" "val (of_i64 k) = of_int k"
  using fits_int53 [OF assms] rnd53_int [OF assms]
  by (simp_all add: lit_def of_i64_def isfinite_mk val_mk)

lemma lit_numeral [simp]:
  assumes "(numeral n :: int) \<le> 2 ^ 53"
  shows "isfinite (lit (numeral n))" "val (lit (numeral n)) = numeral n"
  using int53_exact [of "numeral n"] assms by simp_all

text \<open>A result between two doubles is finite and stays between them.\<close>

lemma mk_between:
  assumes "x = mk s r" "is_double lo" "isfinite lo" "is_double hi" "isfinite hi" "val lo \<le> r" "r \<le> val hi"
  shows "isfinite x" "is_double x" "lo \<le> x" "x \<le> hi" "val lo \<le> val x" "val x \<le> val hi"
proof -
  show le: "lo \<le> x" "x \<le> hi" using assms by (simp_all add: le_mk mk_le)
  show fin: "isfinite x" using isfinite_between [OF assms(3,5) le] .
  show "is_double x" "val lo \<le> val x" "val x \<le> val hi"
    using assms le fin by (simp_all add: le_finite)
qed

text \<open>Signs through products and quotients with a positive number.\<close>

lemma pos_Fin: "isfinite c \<Longrightarrow> 0 < val c \<Longrightarrow> \<exists>r. c = Fin r \<and> 0 < r"
  by (cases c) auto

lemma le_zero_cases: "x \<le> 0 \<Longrightarrow> (isfinite x \<and> val x \<le> 0) \<or> x = NInf"
  by (cases x) (auto simp: less_eq_double_def zero_double_def)

lemma ge_zero_cases: "0 \<le> x \<Longrightarrow> (isfinite x \<and> 0 \<le> val x) \<or> x = PInf"
  by (cases x) (auto simp: less_eq_double_def zero_double_def)

lemma inf_le_zero: "NInf \<le> 0" "0 \<le> PInf"
  by (simp_all add: less_eq_double_def)

lemma times_sign:
  assumes "isfinite c" "0 < val c"
  shows "x \<le> 0 \<Longrightarrow> x * c \<le> 0" "0 \<le> x \<Longrightarrow> 0 \<le> x * c"
proof -
  obtain r where c: "c = Fin r" "0 < r" using pos_Fin [OF assms] by blast
  have inf: "NInf * c = NInf" "PInf * c = PInf" using c by (simp_all add: times_double_def)
  show "x * c \<le> 0" if "x \<le> 0"
    using le_zero_cases [OF that] times_mk [of x c] assms inf
    by (auto intro!: mk_nonpos mult_nonpos_nonneg simp: inf_le_zero)
  show "0 \<le> x * c" if "0 \<le> x"
    using ge_zero_cases [OF that] times_mk [of x c] assms inf
    by (auto intro!: mk_nonneg simp: inf_le_zero)
qed

lemma divide_sign:
  assumes "isfinite c" "0 < val c"
  shows "x \<le> 0 \<Longrightarrow> x / c \<le> 0" "0 \<le> x \<Longrightarrow> 0 \<le> x / c"
proof -
  obtain r where c: "c = Fin r" "0 < r" using pos_Fin [OF assms] by blast
  have inf: "NInf / c = NInf" "PInf / c = PInf" using c by (simp_all add: divide_double_def)
  show "x / c \<le> 0" if "x \<le> 0"
    using le_zero_cases [OF that] divide_mk [of x c] assms inf
    by (auto intro!: mk_nonpos divide_nonpos_pos simp: inf_le_zero)
  show "0 \<le> x / c" if "0 \<le> x"
    using ge_zero_cases [OF that] divide_mk [of x c] assms inf
    by (auto intro!: mk_nonneg simp: inf_le_zero)
qed

lemma minus_sign:
  assumes "isfinite a" "isfinite b"
  shows "a \<le> b \<Longrightarrow> a - b \<le> 0" "b \<le> a \<Longrightarrow> 0 \<le> a - b"
  using minus_mk [OF assms] assms by (auto simp: le_finite intro!: mk_nonpos mk_nonneg)

text \<open>Monotonicity of a product and a quotient with a positive number.\<close>

lemma times_right_mono:
  assumes "isfinite c" "0 < val c" "x \<le> y"
  shows "x * c \<le> y * c"
proof -
  obtain r where c: "c = Fin r" "0 < r" using pos_Fin [OF assms(1,2)] by blast
  have inf: "NInf * c = NInf" "PInf * c = PInf" using c by (simp_all add: times_double_def)
  show ?thesis
  proof (cases "isfinite x \<and> isfinite y")
    case True
    obtain s s' where "x * c = mk s (val x * val c)" "y * c = mk s' (val y * val c)"
      using times_mk [of x c] times_mk [of y c] True assms(1) by blast
    then show ?thesis using True assms by (auto simp: le_finite intro!: mk_mono mult_right_mono)
  next
    case False
    have nn: "\<not> is_nan (z * c)" if "\<not> is_nan z" for z
      using that c by (auto simp: times_double_def)
    have "\<not> is_nan x" "\<not> is_nan y" using assms(3) by (auto simp: less_eq_double_def)
    then have "\<not> is_nan (x * c)" "\<not> is_nan (y * c)" using nn by blast+
    moreover have "x = NInf \<or> y = PInf" using False assms(3) by (cases x; cases y) (auto simp: less_eq_double_def)
    ultimately show ?thesis using inf by (auto simp: less_eq_double_def)
  qed
qed

lemma divide_right_mono_double:
  assumes "isfinite c" "0 < val c" "x \<le> y"
  shows "x / c \<le> y / c"
proof -
  obtain r where c: "c = Fin r" "0 < r" using pos_Fin [OF assms(1,2)] by blast
  have inf: "NInf / c = NInf" "PInf / c = PInf" using c by (simp_all add: divide_double_def)
  show ?thesis
  proof (cases "isfinite x \<and> isfinite y")
    case True
    obtain s s' where "x / c = mk s (val x / val c)" "y / c = mk s' (val y / val c)"
      using divide_mk [of x c] divide_mk [of y c] True assms(1,2) by auto
    then show ?thesis using True assms by (auto simp: le_finite intro!: mk_mono divide_right_mono)
  next
    case False
    have nn: "\<not> is_nan (z / c)" if "\<not> is_nan z" for z
      using that c by (auto simp: divide_double_def)
    have "\<not> is_nan x" "\<not> is_nan y" using assms(3) by (auto simp: less_eq_double_def)
    then have "\<not> is_nan (x / c)" "\<not> is_nan (y / c)" using nn by blast+
    moreover have "x = NInf \<or> y = PInf" using False assms(3) by (cases x; cases y) (auto simp: less_eq_double_def)
    ultimately show ?thesis using inf by (auto simp: less_eq_double_def)
  qed
qed

text \<open>Evaluation of the operations on integers of at most 53 bits, by the simplifier.\<close>

lemma mk_int53: "\<bar>k\<bar> \<le> 2 ^ 53 \<Longrightarrow> k \<noteq> 0 \<Longrightarrow> mk s (of_int k) = Fin (of_int k)"
  using fits_int53 [of k] rnd53_int [of k] by (auto simp: mk_def Let_def fits_def abs_less_iff)

lemma mk_eval:
  "mk False 0 = Fin 0" "mk True 0 = NZero" "mk s 1 = Fin 1" "mk s (- 1) = Fin (- 1)"
  "(numeral n :: int) \<le> 2 ^ 53 \<Longrightarrow> mk s (numeral n) = Fin (numeral n)"
  "(numeral n :: int) \<le> 2 ^ 53 \<Longrightarrow> mk s (- numeral n) = Fin (- numeral n)"
  using mk_int53 [of 1 s] mk_int53 [of "- 1" s] mk_int53 [of "numeral n" s] mk_int53 [of "- numeral n" s]
  by (simp_all add: mk_def binary64.R_zero overflow_bound_pos not_le)

lemmas double_eval = mk_eval plus_double_def minus_double_def times_double_def divide_double_def
  less_double_def less_eq_double_def zero_double_def one_double_def lit_def of_i64_def floor_d_def
  to_i64_def trunc_rat_def

section \<open>Fractions and products of small values\<close>

text \<open>A double between 0 and 1.\<close>

definition unit_double :: "double \<Rightarrow> bool" where
  "unit_double d \<longleftrightarrow> isfinite d \<and> is_double d \<and> 0 \<le> val d \<and> val d \<le> 1"

lemma unit_quotient:
  assumes "0 \<le> x" "isfinite x" "x \<le> t" "0 < t"
  shows "unit_double (x / t)"
proof (cases "isfinite t")
  case True
  then have t: "0 < val t" "val x \<le> val t" "0 \<le> val x" using assms by (simp_all add: less_finite le_finite)
  then obtain s where q: "x / t = mk s (val x / val t)" using divide_mk [of x t] assms True by auto
  show ?thesis using mk_between [OF q, of 0 1] t by (simp add: unit_double_def)
next
  case False
  then have "t = PInf" using assms(4) by (auto simp: pos_cases)
  then show ?thesis using assms overflow_bound_pos
    by (auto simp: divide_double_def isfinite_not_nan unit_double_def simp del: overflow_bound_pos)
qed

lemma times_bounded:
  assumes "isfinite a" "isfinite b" "\<bar>val a\<bar> \<le> 1" "\<bar>val b\<bar> \<le> 1"
  shows "isfinite (a * b)" "is_double (a * b)" "\<bar>val (a * b)\<bar> \<le> 1" "val (a * b) = rnd53 (val a * val b)"
proof -
  obtain s where m: "a * b = mk s (val a * val b)" using times_mk assms by blast
  have "\<bar>val a * val b\<bar> \<le> 1" using assms(3,4) by (simp add: abs_mult mult_le_one)
  then have b: "- 1 \<le> val a * val b" "val a * val b \<le> 1" by linarith+
  show fin: "isfinite (a * b)" "is_double (a * b)" "\<bar>val (a * b)\<bar> \<le> 1"
    using mk_between [OF m, of "- 1" 1] b by (simp_all add: abs_le_iff)
  then show "val (a * b) = rnd53 (val a * val b)" by (simp add: m isfinite_mk val_mk)
qed

lemma lit_one [simp]: "lit 1 = 1"
  by (simp add: lit_def one_double_def mk_eval)

lemma le_abs_double: "\<bar>d\<bar> \<le> b \<Longrightarrow> d \<le> (b :: double)"
  by (cases d; cases b) (auto simp: less_eq_double_def split: if_splits)

end
