(* ===== verification/Cost_Model.thy ===== *)
theory Cost_Model
  imports IEEE_Double
begin

text \<open>
  The trade cost model (\<^verbatim>\<open>core/src/backtest/cost_model.c\<close>): commission and slippage on
  every trade, tax on sells only, all as binary64 products of the notional value.
\<close>

record alpha_cost_model_t =
  commission_rate :: double
  tax_rate :: double
  slippage_rate :: double

record alpha_trade_cost_t =
  tc_commission :: double
  tc_tax :: double
  tc_slippage_cost :: double
  tc_total :: double

definition alpha_cost_model_make :: "double \<Rightarrow> double \<Rightarrow> int \<Rightarrow> alpha_cost_model_t" where
  "alpha_cost_model_make commission_rate_pct tax_rate_pct slippage_bps =
     \<lparr>commission_rate = commission_rate_pct / lit 100,
      tax_rate = tax_rate_pct / lit 100,
      slippage_rate = of_i64 slippage_bps / lit 10000\<rparr>"

definition ALPHA_BACKTEST_COMMISSION_RATE_PCT :: double where
  "ALPHA_BACKTEST_COMMISSION_RATE_PCT = lit (15 / 1000)"

definition ALPHA_BACKTEST_TAX_RATE_PCT :: double where
  "ALPHA_BACKTEST_TAX_RATE_PCT = lit (18 / 100)"

definition ALPHA_BACKTEST_SLIPPAGE_BPS :: int where
  "ALPHA_BACKTEST_SLIPPAGE_BPS = 3"

definition alpha_cost_model_default :: alpha_cost_model_t where
  "alpha_cost_model_default =
     alpha_cost_model_make ALPHA_BACKTEST_COMMISSION_RATE_PCT ALPHA_BACKTEST_TAX_RATE_PCT
       ALPHA_BACKTEST_SLIPPAGE_BPS"

definition alpha_cost_calculate ::
  "alpha_cost_model_t \<Rightarrow> alpha_side_t \<Rightarrow> double \<Rightarrow> int \<Rightarrow> alpha_trade_cost_t" where
  "alpha_cost_calculate model side price quantity =
     (let notional = price * of_i64 quantity;
          commission = notional * commission_rate model;
          tax = (if side = ALPHA_SIDE_SELL then notional * tax_rate model else 0);
          slippage_cost = notional * slippage_rate model
      in \<lparr>tc_commission = commission, tc_tax = tax, tc_slippage_cost = slippage_cost,
          tc_total = commission + tax + slippage_cost\<rparr>)"

section \<open>Well-formed models\<close>

definition nonneg_rate :: "double \<Rightarrow> bool" where
  "nonneg_rate r \<longleftrightarrow> isfinite r \<and> 0 \<le> val r"

definition cost_model_wf :: "alpha_cost_model_t \<Rightarrow> bool" where
  "cost_model_wf m \<longleftrightarrow>
     nonneg_rate (commission_rate m) \<and> nonneg_rate (tax_rate m) \<and> nonneg_rate (slippage_rate m)"

lemma nonneg_rate_le: "nonneg_rate r \<Longrightarrow> 0 \<le> r"
  by (simp add: nonneg_rate_def le_finite)

lemma rate_product:
  assumes "nonneg_rate r" "isfinite x" "0 \<le> x"
  shows "0 \<le> x * r" "is_double (x * r)"
  using assms by (auto simp: nonneg_rate_def nonneg_rate_le times_nonneg le_finite)

lemma notional_mono:
  assumes "0 \<le> price" "isfinite price" "0 \<le> q" "q \<le> q'" "isfinite (price * of_i64 q')"
    "q' \<le> 2 ^ 63"
  shows "0 \<le> price * of_i64 q" "price * of_i64 q \<le> price * of_i64 q'"
    "isfinite (price * of_i64 q)" 
proof -
  have le: "of_i64 q \<le> of_i64 q'" "0 \<le> of_i64 q"
    using assms by (simp_all add: of_i64_mono of_i64_nonneg)
  have fin: "isfinite (of_i64 q)" "isfinite (of_i64 q')"
    using assms by (auto intro: isfinite_of_i64)
  show nn: "0 \<le> price * of_i64 q"
    using assms fin le by (intro times_nonneg) auto
  show mono: "price * of_i64 q \<le> price * of_i64 q'"
    using assms le fin le_refl_double [of price] isfinite_not_nan
    by (intro times_nonneg_mono) auto
  show "isfinite (price * of_i64 q)"
    using isfinite_between [OF _ assms(5) nn mono] by simp
qed

section \<open>Properties\<close>

text \<open>
  For a model with finite non-negative rates and a non-negative price, the cost of a
  trade is non-negative, at least each of its three parts, and monotone in the number of
  shares, as computed in binary64: buying or selling more never costs less. A buy pays no
  tax.
\<close>

lemma alpha_cost_calculate_mono:
  fixes m price q q' side
  defines "cost \<equiv> alpha_cost_calculate m side price q"
    and "cost' \<equiv> alpha_cost_calculate m side price q'"
  assumes "cost_model_wf m" "isfinite price" "0 \<le> price" "0 \<le> q" "q \<le> q'" "q' \<le> 2 ^ 63"
    and "isfinite (price * of_i64 q')"
  shows "0 \<le> tc_total cost \<and> tc_total cost \<le> tc_total cost' \<and>
         tc_commission cost \<le> tc_total cost \<and> tc_tax cost \<le> tc_total cost \<and>
         tc_slippage_cost cost \<le> tc_total cost \<and>
         tc_tax (alpha_cost_calculate m ALPHA_SIDE_BUY price q) = 0"
proof -
  let ?n = "price * of_i64 q" and ?n' = "price * of_i64 q'"
  note n = notional_mono [OF assms(5,4,6,7,9,8)]
  have wf: "nonneg_rate (commission_rate m)" "nonneg_rate (tax_rate m)"
    "nonneg_rate (slippage_rate m)" using assms(3) by (simp_all add: cost_model_wf_def)
  define tax where "tax x = (if side = ALPHA_SIDE_SELL then x * tax_rate m else 0)" for x
  have part: "0 \<le> ?n * r" "?n * r \<le> ?n' * r" "is_double (?n * r)" if "nonneg_rate r" for r
    using that n assms(9) le_refl_double [of r] isfinite_not_nan
    by (auto simp: nonneg_rate_def nonneg_rate_le rate_product intro!: times_nonneg_mono)
  have tax: "0 \<le> tax ?n" "tax ?n \<le> tax ?n'" "is_double (tax ?n)"
    using part [OF wf(2)] by (auto simp: tax_def le_refl_double)
  note c = part [OF wf(1)] and s = part [OF wf(3)]
  have ct: "0 \<le> ?n * commission_rate m + tax ?n" "is_double (?n * commission_rate m + tax ?n)"
    using c tax by (auto intro: plus_nonneg)
  have step: "?n * commission_rate m + tax ?n
      \<le> ?n * commission_rate m + tax ?n + ?n * slippage_rate m"
    using ct s by (intro plus_ge_left)
  note defs = cost_def cost'_def alpha_cost_calculate_def Let_def tax_def [symmetric]
  show ?thesis
    using c tax s ct le_trans_double [OF plus_ge_left step] le_trans_double [OF plus_ge_right step]
    by (simp add: defs plus_nonneg plus_nonneg_mono plus_ge_right)
qed

end
