(* ===== verification/Decimal_Rounding.thy ===== *)
theory Decimal_Rounding
  imports IEEE_Double
begin

text \<open>
  Decimal rounding (\<^verbatim>\<open>core/src/domain/round.c\<close>): a value is printed with
  \<^verbatim>\<open>snprintf("%.*f")\<close> into a 64 byte buffer and read back with \<^verbatim>\<open>strtod\<close>.
  Both library functions are modelled on strings, so that the cut at the end of the
  buffer is part of the model.
\<close>

section \<open>Decimal digits\<close>

definition digit_char :: "int \<Rightarrow> char" where
  "digit_char d = char_of (48 + nat d)"

definition digit_val :: "char \<Rightarrow> int" where
  "digit_val c = int (of_char c) - 48"

definition is_digit :: "char \<Rightarrow> bool" where
  "is_digit c \<longleftrightarrow> 48 \<le> (of_char c :: nat) \<and> (of_char c :: nat) \<le> 57"

function dec_digits :: "int \<Rightarrow> string" where
  "dec_digits n = (if n < 10 then [digit_char n]
                   else dec_digits (n div 10) @ [digit_char (n mod 10)])"
  by pat_completeness auto
termination
  by (relation "measure nat") auto

declare dec_digits.simps [simp del]

definition digits_val :: "string \<Rightarrow> int" where
  "digits_val s = foldl (\<lambda>a c. 10 * a + digit_val c) 0 s"

lemma digit_val_char: "0 \<le> d \<Longrightarrow> d < 10 \<Longrightarrow> digit_val (digit_char d) = d"
  by (simp add: digit_val_def digit_char_def)

lemma is_digit_char: "0 \<le> d \<Longrightarrow> d < 10 \<Longrightarrow> is_digit (digit_char d)"
  by (simp add: is_digit_def digit_char_def)

lemma digits_val_append: "digits_val (s @ t) = digits_val s * 10 ^ length t + digits_val t"
proof -
  have acc: "foldl (\<lambda>a c. 10 * a + digit_val c) a t =
      a * 10 ^ length t + foldl (\<lambda>a c. 10 * a + digit_val c) 0 t" for a t
  proof (induction t arbitrary: a)
    case (Cons c t)
    show ?case
      using Cons.IH [of "10 * a + digit_val c"] Cons.IH [of "digit_val c"]
      by (simp add: algebra_simps)
  qed simp
  show ?thesis
    unfolding digits_val_def foldl_append by (rule acc)
qed

lemma digits_val_single [simp]: "digits_val [c] = digit_val c" "digits_val [] = 0"
  by (simp_all add: digits_val_def)

lemma digits_val_dec_digits: "0 \<le> n \<Longrightarrow> digits_val (dec_digits n) = n"
proof (induction n rule: dec_digits.induct)
  case (1 n)
  then show ?case
    by (subst dec_digits.simps) (auto simp: digits_val_append digit_val_char)
qed

lemma is_digit_dec_digits: "0 \<le> n \<Longrightarrow> c \<in> set (dec_digits n) \<Longrightarrow> is_digit c"
proof (induction n rule: dec_digits.induct)
  case (1 n)
  then show ?case
    by (cases "n < 10") (auto simp: is_digit_char dec_digits.simps [of n])
qed

lemma length_dec_digits: "0 \<le> n \<Longrightarrow> n < 10 ^ k \<Longrightarrow> length (dec_digits n) \<le> max 1 k"
proof (induction n arbitrary: k rule: dec_digits.induct)
  case (1 n)
  show ?case
  proof (cases "n < 10")
    case False
    with "1.prems" obtain k' where k: "k = Suc k'" by (cases k) auto
    with "1.prems" have "n div 10 < 10 ^ k'" by simp
    with "1.IH" [OF False, of k'] "1.prems" have "length (dec_digits (n div 10)) \<le> max 1 k'" by simp
    moreover from False "1.prems" k have "k' \<noteq> 0" by (cases k') auto
    ultimately show ?thesis using False k by (subst dec_digits.simps) simp
  qed (subst dec_digits.simps, simp)
qed

lemma dec_digits_nonempty: "dec_digits n \<noteq> []"
  by (subst dec_digits.simps) simp

definition pad :: "nat \<Rightarrow> string \<Rightarrow> string" where
  "pad k s = replicate (k - length s) (CHR ''0'') @ s"

lemma digit_val_zero [simp]: "digit_val (CHR ''0'') = 0" "is_digit (CHR ''0'')"
  by (simp_all add: digit_val_def is_digit_def)

lemma digits_val_zeros: "digits_val (replicate k (CHR ''0'')) = 0"
  by (induction k) (auto simp: replicate_append_same [symmetric] digits_val_append)

lemma digits_val_pad [simp]: "digits_val (pad k s) = digits_val s"
  by (simp add: pad_def digits_val_append digits_val_zeros)

lemma length_pad: "length s \<le> k \<Longrightarrow> length (pad k s) = k"
  by (simp add: pad_def)

lemma set_pad: "c \<in> set (pad k s) \<Longrightarrow> c = CHR ''0'' \<or> c \<in> set s"
  by (auto simp: pad_def)

section \<open>Printing and reading\<close>

definition fmt_fixed :: "nat \<Rightarrow> int \<Rightarrow> string" where
  "fmt_fixed nd n =
     (if nd = 0 then dec_digits n
      else dec_digits (n div 10 ^ nd) @ CHR ''.'' # pad nd (dec_digits (n mod 10 ^ nd)))"

text \<open>\<^verbatim>\<open>"%.*f"\<close>: the exact value rounded to \<open>nd\<close> places, ties to even.\<close>

definition printf_f :: "nat \<Rightarrow> double \<Rightarrow> string" where
  "printf_f nd d =
     (case d of NaN \<Rightarrow> ''nan'' | PInf \<Rightarrow> ''inf'' | NInf \<Rightarrow> ''-inf''
      | _ \<Rightarrow> (if signbit d then ''-'' else []) @ fmt_fixed nd (rne (\<bar>val d\<bar> * 10 ^ nd)))"

text \<open>\<^verbatim>\<open>strtod\<close> on what \<^verbatim>\<open>"%.*f"\<close> prints: a sign, then a special name, or
  digits with an optional fraction; the longest such prefix is converted with one
  rounding.\<close>

definition read_fixed :: "string \<Rightarrow> rat" where
  "read_fixed t =
     (let ip = takeWhile is_digit t; r = dropWhile is_digit t;
          fp = (case r of [] \<Rightarrow> [] | c # r' \<Rightarrow> if c = CHR ''.'' then takeWhile is_digit r' else [])
      in of_int (digits_val (ip @ fp)) / 10 ^ length fp)"

definition strtod_unsigned :: "bool \<Rightarrow> string \<Rightarrow> double" where
  "strtod_unsigned neg t =
     (if t = ''nan'' then NaN
      else if t = ''inf'' then (if neg then NInf else PInf)
      else mk neg (if neg then - read_fixed t else read_fixed t))"

definition strtod :: "string \<Rightarrow> double" where
  "strtod s = (case s of [] \<Rightarrow> strtod_unsigned False s
               | c # t \<Rightarrow> if c = CHR ''-'' then strtod_unsigned True t
                         else strtod_unsigned False s)"

text \<open>\<^verbatim>\<open>snprintf\<close> keeps at most one character less than the size of the buffer.\<close>

definition snprintf :: "nat \<Rightarrow> string \<Rightarrow> string" where
  "snprintf n s = take (n - 1) s"

definition alpha_round_dp :: "double \<Rightarrow> int \<Rightarrow> double" where
  "alpha_round_dp value ndigits =
     (let ndigits = (if ndigits < 0 then 0 else ndigits);
          buffer = snprintf 64 (printf_f (nat ndigits) value)
      in strtod buffer)"

section \<open>Decimal rounding of rationals\<close>

definition dec :: "nat \<Rightarrow> rat \<Rightarrow> rat" where
  "dec nd x = of_int (rne (x * 10 ^ nd)) / 10 ^ nd"

interpretation decimal: rounding "dec nd" for nd
proof
  show "dec nd x \<le> dec nd y" if "x \<le> y" for x y
    using that by (simp add: dec_def divide_right_mono rne_mono mult_right_mono)
  show "dec nd (- x) = - dec nd x" for x
    by (simp add: dec_def rne_uminus)
  show "dec nd (dec nd x) = dec nd x" for x
    by (simp add: dec_def)
qed

lemma takeWhile_digits: "\<forall>c \<in> set s. is_digit c \<Longrightarrow> takeWhile is_digit (s @ t) = s @ takeWhile is_digit t"
  by (induction s) auto

lemma dropWhile_digits: "\<forall>c \<in> set s. is_digit c \<Longrightarrow> dropWhile is_digit (s @ t) = dropWhile is_digit t"
  by (induction s) auto

lemma not_digit [simp]: "\<not> is_digit (CHR ''.'')" "\<not> is_digit (CHR ''-'')"
    "\<not> is_digit (CHR ''n'')" "\<not> is_digit (CHR ''i'')"
  by (simp_all add: is_digit_def)

lemma read_fmt_fixed:
  assumes n: "0 \<le> n"
  shows "read_fixed (fmt_fixed nd n) = of_int n / 10 ^ nd"
proof (cases "nd = 0")
  case True
  have d: "\<forall>c \<in> set (dec_digits n). is_digit c" using is_digit_dec_digits n by blast
  then have "takeWhile is_digit (dec_digits n) = dec_digits n" "dropWhile is_digit (dec_digits n) = []"
    by (simp_all add: takeWhile_eq_all_conv dropWhile_eq_Nil_conv)
  then show ?thesis
    using True n by (simp add: read_fixed_def fmt_fixed_def digits_val_dec_digits
        del: takeWhile_eq_all_conv dropWhile_eq_Nil_conv)
next
  case False
  let ?i = "dec_digits (n div 10 ^ nd)" and ?f = "pad nd (dec_digits (n mod 10 ^ nd))"
  have n': "0 \<le> n div 10 ^ nd" using n by (simp add: pos_imp_zdiv_nonneg_iff)
  have i: "\<forall>c \<in> set ?i. is_digit c"
    using is_digit_dec_digits [OF n'] by blast
  have f: "\<forall>c \<in> set ?f. is_digit c"
    using is_digit_dec_digits [of "n mod 10 ^ nd"] by (auto dest: set_pad)
  have "length (dec_digits (n mod 10 ^ nd)) \<le> max 1 nd"
    by (rule length_dec_digits) simp_all
  with False have len: "length ?f = nd" by (intro length_pad) simp
  have "read_fixed (fmt_fixed nd n) = of_int (digits_val (?i @ ?f)) / 10 ^ length ?f"
    using False takeWhile_digits [OF i, of "CHR ''.'' # ?f"] dropWhile_digits [OF i, of "CHR ''.'' # ?f"]
      takeWhile_digits [OF f, of "[]"]
    by (simp add: read_fixed_def fmt_fixed_def Let_def del: takeWhile_eq_all_conv)
  also have "digits_val (?i @ ?f) = n"
    using n n' by (simp add: digits_val_append len digits_val_dec_digits div_mult_mod_eq)
  finally show ?thesis by (simp add: len)
qed

lemma fmt_fixed_start: "0 \<le> n \<Longrightarrow> \<exists>c s. fmt_fixed nd n = c # s \<and> is_digit c"
proof -
  assume "0 \<le> n"
  then have "0 \<le> n div 10 ^ nd" by (simp add: pos_imp_zdiv_nonneg_iff)
  then show ?thesis
    using is_digit_dec_digits [of n] is_digit_dec_digits [of "n div 10 ^ nd"] \<open>0 \<le> n\<close>
      dec_digits_nonempty [of n] dec_digits_nonempty [of "n div 10 ^ nd"]
    by (cases "dec_digits n"; cases "dec_digits (n div 10 ^ nd)") (auto simp: fmt_fixed_def)
qed

lemma length_fmt_fixed:
  assumes "0 \<le> n" "n < 10 ^ k" "nd < k"
  shows "length (fmt_fixed nd n) \<le> Suc k"
proof -
  have "n div 10 ^ nd * 10 ^ nd \<le> n"
    unfolding minus_mod_eq_div_mult [symmetric] by simp
  also have "n < 10 ^ (k - nd) * 10 ^ nd"
    using assms by (simp flip: power_add)
  finally have "n div 10 ^ nd < 10 ^ (k - nd)"
    by (simp only: mult_less_cancel_right_pos zero_less_power zero_less_numeral)
  then have "length (dec_digits (n div 10 ^ nd)) \<le> max 1 (k - nd)"
    using assms by (intro length_dec_digits) (simp_all add: pos_imp_zdiv_nonneg_iff)
  moreover have "length (dec_digits (n mod 10 ^ nd)) \<le> max 1 nd"
    by (rule length_dec_digits) simp_all
  moreover have "length (dec_digits n) \<le> max 1 k"
    using assms by (intro length_dec_digits) simp_all
  ultimately show ?thesis
    using assms(3) by (cases "nd = 0") (auto simp: fmt_fixed_def length_pad)
qed

section \<open>What the C function computes\<close>

definition room :: "double \<Rightarrow> nat \<Rightarrow> bool" where
  "room d nd \<longleftrightarrow> isfinite d \<and> nd \<le> 60 \<and> \<bar>val d\<bar> * 10 ^ nd \<le> 10 ^ 60"

lemma printf_f_finite:
  "isfinite d \<Longrightarrow>
     printf_f nd d = (if signbit d then ''-'' else []) @ fmt_fixed nd (rne (\<bar>val d\<bar> * 10 ^ nd))"
  by (cases d) (auto simp: printf_f_def)

lemma strtod_finite:
  assumes "0 \<le> n"
  shows "strtod ((if neg then ''-'' else []) @ fmt_fixed nd n) =
         mk neg (if neg then - (of_int n / 10 ^ nd) else of_int n / 10 ^ nd)"
proof -
  obtain c s where f: "fmt_fixed nd n = c # s" "is_digit c"
    using fmt_fixed_start [OF assms] by blast
  then have "c \<noteq> CHR ''-''" "c \<noteq> CHR ''n''" "c \<noteq> CHR ''i''" by auto
  then show ?thesis
    using f read_fmt_fixed [OF assms, of nd] by (auto simp: strtod_def strtod_unsigned_def)
qed

lemma signbit_val: "isfinite d \<Longrightarrow> \<bar>val d\<bar> = (if signbit d then - val d else val d)"
  by (cases d) auto

lemma alpha_round_dp_room:
  assumes "room d nd"
  shows "alpha_round_dp d (int nd) = mk (signbit d) (dec nd (val d))"
proof -
  let ?n = "rne (\<bar>val d\<bar> * 10 ^ nd)"
  have fin: "isfinite d" and nd: "nd \<le> 60" and small: "\<bar>val d\<bar> * 10 ^ nd \<le> 10 ^ 60"
    using assms by (simp_all add: room_def)
  have n0: "0 \<le> ?n" by (rule rne_nonneg) simp
  have "?n \<le> rne (of_int (10 ^ 60))" using small by (intro rne_mono) simp
  then have n1: "?n < 10 ^ 61" unfolding rne_of_int by simp
  have "length (fmt_fixed nd ?n) \<le> 62" using length_fmt_fixed [OF n0 n1, of nd] nd by simp
  then have "length (printf_f nd d) \<le> 63" using fin by (simp add: printf_f_finite)
  then have "alpha_round_dp d (int nd) = strtod (printf_f nd d)"
    by (simp add: alpha_round_dp_def snprintf_def)
  also have "\<dots> = mk (signbit d) (if signbit d then - (of_int ?n / 10 ^ nd) else of_int ?n / 10 ^ nd)"
    using fin by (simp add: printf_f_finite strtod_finite [OF n0])
  also have "(if signbit d then - (of_int ?n / 10 ^ nd) else of_int ?n / 10 ^ nd) = dec nd (val d)"
    using fin by (simp add: signbit_val dec_def rne_uminus)
  finally show ?thesis .
qed

lemma mk_signbit_again: "mk (signbit (mk s x)) x = mk s x"
  by (auto simp: mk_def Let_def)

lemma dec_int: "dec nd (of_int k / 10 ^ nd) = of_int k / 10 ^ nd"
  by (simp add: dec_def)

text \<open>The double nearest to a decimal with few digits rounds back to that decimal.\<close>

lemma rnd53_scaled:
  assumes k: "\<bar>k\<bar> \<le> 2 ^ 52 - 1" and nd: "nd \<le> 60"
  shows "\<bar>of_int k - rnd53 (of_int k / 10 ^ nd) * 10 ^ nd\<bar> < 1 / 2"
proof (cases "k = 0")
  case False
  let ?x = "of_int k / 10 ^ nd :: rat"
  have "1 \<le> \<bar>k\<bar>" using False by linarith
  then have k1: "1 \<le> \<bar>of_int k :: rat\<bar>" by (metis of_int_abs of_int_1_le_iff)
  have "(10::rat) ^ nd \<le> 10 ^ 60" using nd by (intro power_increasing) simp_all
  also have "\<dots> \<le> 2 ^ 240" by simp
  finally have "1 / 2 ^ 240 \<le> 1 / (10::rat) ^ nd" by (simp add: frac_le)
  also have "\<dots> \<le> \<bar>?x\<bar>" using k1 by (simp add: divide_right_mono)
  finally have "2 powi (- 240) \<le> \<bar>?x\<bar>" by (simp add: power_int_minus_divide)
  moreover have "(2::rat) powi (- 1022) \<le> 2 powi (- 240)" by (simp only: powi2_le_iff)
  ultimately have "2 powi (- 1022) \<le> \<bar>?x\<bar>" by (rule order_trans [rotated])
  then have "\<bar>rnd53 ?x - ?x\<bar> \<le> \<bar>?x\<bar> / 2 ^ 53" by (rule rnd53_rel_error)
  then have "\<bar>rnd53 ?x - ?x\<bar> * 10 ^ nd \<le> \<bar>?x\<bar> / 2 ^ 53 * 10 ^ nd" by (rule mult_right_mono) simp
  also have "\<dots> = \<bar>of_int k\<bar> / 2 ^ 53" by simp
  also have "\<bar>of_int k :: rat\<bar> < 2 ^ 52"
    using k by (metis (no_types, lifting) of_int_abs of_int_less_iff of_int_numeral of_int_power
        zle_diff1_eq)
  then have "\<bar>of_int k\<bar> / 2 ^ 53 < (1 / 2 :: rat)" by simp
  finally show ?thesis
    by (simp add: abs_minus_commute abs_mult_pos left_diff_distrib)
qed simp

lemma dec_rnd53:
  assumes "\<bar>k\<bar> \<le> 2 ^ 52 - 1" "nd \<le> 60"
  shows "dec nd (rnd53 (of_int k / 10 ^ nd)) = of_int k / 10 ^ nd"
  using rne_unique [OF rnd53_scaled [OF assms]] by (simp add: dec_def)

lemma digits_val_bounds:
  "\<forall>c \<in> set s. is_digit c \<Longrightarrow> 0 \<le> digits_val s \<and> digits_val s < 10 ^ length s"
proof (induction s rule: rev_induct)
  case (snoc c s)
  then have "0 \<le> digit_val c" "digit_val c < 10"
    by (auto simp: digit_val_def is_digit_def)
  with snoc show ?case by (simp add: digits_val_append)
qed simp

lemma read_fixed_bound: "0 \<le> read_fixed t \<and> read_fixed t \<le> 10 ^ length t"
proof -
  let ?ip = "takeWhile is_digit t" and ?r = "dropWhile is_digit t"
  define fp where "fp = (case ?r of [] \<Rightarrow> [] | c # r' \<Rightarrow>
    if c = CHR ''.'' then takeWhile is_digit r' else [])"
  have rd: "read_fixed t = of_int (digits_val (?ip @ fp)) / 10 ^ length fp"
    by (simp add: read_fixed_def fp_def Let_def)
  have dig: "\<forall>c \<in> set (?ip @ fp). is_digit c"
    by (auto simp: fp_def split: list.splits if_splits dest: set_takeWhileD)
  then have b: "0 \<le> digits_val (?ip @ fp)" "digits_val (?ip @ fp) < 10 ^ (length ?ip + length fp)"
    using digits_val_bounds [of "?ip @ fp"] by simp_all
  then have "(of_int (digits_val (?ip @ fp)) :: rat) \<le> of_int (10 ^ (length ?ip + length fp))"
    by (simp only: of_int_le_iff)
  then have "read_fixed t \<le> 10 ^ length ?ip"
    by (simp add: rd divide_le_eq power_add)
  also have "\<dots> \<le> 10 ^ length t"
    using length_takeWhile_le by (intro power_increasing) simp_all
  finally show ?thesis using b by (simp add: rd)
qed

section \<open>Bounds that decimal rounding keeps\<close>

lemma decimal_small:
  assumes "0 \<le> k" "k \<le> 2 ^ 52 - 1"
  shows "fits (of_int k / 10 ^ nd)" "rnd53 (of_int k / 10 ^ nd) \<le> 2 ^ 52"
proof -
  have k: "(of_int k :: rat) \<le> of_int (2 ^ 52)" using assms by (simp only: of_int_le_iff)
  have "of_int k / 10 ^ nd \<le> (of_int k / 1 :: rat)"
    using assms(1) by (intro divide_left_mono) simp_all
  then have le: "of_int k / 10 ^ nd \<le> (2 ^ 52 :: rat)" using k by simp
  then have x: "\<bar>of_int k / 10 ^ nd\<bar> \<le> (2 ^ 52 :: rat)" using assms(1) by simp
  have r: "rnd53 (2 ^ 52) = 2 ^ 52" using rnd53_int [of "2 ^ 52"] by simp
  show "fits (of_int k / 10 ^ nd)"
    using overflow_bound_gt [of 52] r x by (intro fitsI [of _ "2 ^ 52"]) simp_all
  show "rnd53 (of_int k / 10 ^ nd) \<le> 2 ^ 52"
    by (rule binary64.R_le_fixed [OF r le])
qed

lemma alpha_round_dp_abs_le:
  assumes "isfinite d" "nd \<le> 40" "0 \<le> k" "k \<le> 2 ^ 52 - 1" "\<bar>d\<bar> \<le> lit (of_int k / 10 ^ nd)"
  shows "\<bar>alpha_round_dp d (int nd)\<bar> \<le> lit (of_int k / 10 ^ nd)"
    "isfinite (alpha_round_dp d (int nd))"
proof -
  let ?x = "of_int k / 10 ^ nd :: rat"
  have lit: "isfinite (lit ?x)" "val (lit ?x) = rnd53 ?x"
    using decimal_small(1) assms by (simp_all add: lit_def isfinite_mk val_mk)
  then have v: "\<bar>val d\<bar> \<le> rnd53 ?x" using assms(1,5) by (simp add: le_finite)
  also have "\<dots> \<le> 2 ^ 52" using decimal_small(2) assms by blast
  finally have "\<bar>val d\<bar> * 10 ^ nd \<le> 2 ^ 52 * 10 ^ 40"
    using assms(2) by (intro mult_mono power_increasing) simp_all
  then have "room d nd" using assms by (simp add: room_def)
  moreover have "\<bar>dec nd (val d)\<bar> \<le> ?x"
    using decimal.R_mono [OF v, of nd] assms by (simp add: decimal.R_abs dec_rnd53)
  ultimately show le: "\<bar>alpha_round_dp d (int nd)\<bar> \<le> lit ?x"
    by (simp add: alpha_round_dp_room abs_mk lit_def mk_mono)
  have "0 \<le> \<bar>alpha_round_dp d (int nd)\<bar>"
    using \<open>room d nd\<close> by (simp add: alpha_round_dp_room abs_mk mk_nonneg)
  then show "isfinite (alpha_round_dp d (int nd))"
    using isfinite_between [OF _ lit(1) _ le, of 0] by simp
qed

lemma alpha_round_dp_nonneg:
  assumes "isfinite d" "nd \<le> 60" "\<bar>val d\<bar> * 10 ^ nd \<le> 10 ^ 60" "0 \<le> d"
  shows "0 \<le> alpha_round_dp d (int nd)"
  using assms decimal.R_nonneg [of "val d" nd]
  by (simp add: room_def alpha_round_dp_room mk_nonneg le_finite)

lemma alpha_round_dp_nonpos:
  assumes "isfinite d" "nd \<le> 60" "\<bar>val d\<bar> * 10 ^ nd \<le> 10 ^ 60" "d \<le> 0"
  shows "alpha_round_dp d (int nd) \<le> 0"
  using assms decimal.R_nonpos [of "val d" nd]
  by (simp add: room_def alpha_round_dp_room mk_nonpos le_finite)

section \<open>Properties\<close>

text \<open>
  C10. Decimal rounding is correct wherever the printed text fits its buffer: the result is
  the double nearest to \<open>k / 10^nd\<close>, where \<open>k\<close> is an integer nearest to
  \<open>value * 10^nd\<close> and is the even one of two when there is a tie.
\<close>

theorem alpha_round_dp_correct:
  assumes "isfinite d" "nd \<le> 60" "\<bar>val d\<bar> * 10 ^ nd \<le> 10 ^ 60"
  shows "\<exists>k. alpha_round_dp d (int nd) = mk (signbit d) (of_int k / 10 ^ nd) \<and>
             \<bar>of_int k - val d * 10 ^ nd\<bar> \<le> 1/2 \<and>
             (\<bar>of_int k - val d * 10 ^ nd\<bar> = 1/2 \<longrightarrow> even k)"
proof (intro exI conjI impI)
  show "alpha_round_dp d (int nd) = mk (signbit d) (of_int (rne (val d * 10 ^ nd)) / 10 ^ nd)"
    using alpha_round_dp_room [of d nd] assms by (simp add: room_def dec_def)
qed (rule rne_error, rule rne_tie)

theorem alpha_round_dp_correct_witness:
  "\<exists>k. alpha_round_dp (Fin (1/8)) 2 = mk False (of_int k / 10 ^ 2) \<and>
       \<bar>of_int k - 1/8 * 10 ^ 2 :: rat\<bar> \<le> 1/2"
  using alpha_round_dp_correct [of "Fin (1/8)" 2] by auto

text \<open>
  Rounding twice to the same number of places changes nothing: with fewer than fifteen
  significant digits the double that is read back prints as the same decimal again, signed
  zeros included.
\<close>

lemma alpha_round_dp_idem:
  assumes "isfinite d" "nd \<le> 60" "\<bar>val d\<bar> * 10 ^ nd \<le> 2 ^ 51"
  shows "alpha_round_dp (alpha_round_dp d (int nd)) (int nd) = alpha_round_dp d (int nd)"
proof -
  define k where "k = rne (val d * 10 ^ nd)"
  let ?x = "of_int k / 10 ^ nd :: rat"
  have room: "room d nd" using assms order_trans [OF assms(3), of "10 ^ 60"] by (simp add: room_def)
  then have one: "alpha_round_dp d (int nd) = mk (signbit d) ?x"
    by (simp add: alpha_round_dp_room dec_def k_def)
  have "\<bar>val d * 10 ^ nd\<bar> \<le> of_int (2 ^ 51)" using assms(3) by (simp add: abs_mult)
  then have k: "\<bar>k\<bar> \<le> 2 ^ 51"
    using rne_mono [of "val d * 10 ^ nd" "of_int (2 ^ 51)"] rne_mono [of "of_int (- (2 ^ 51))" "val d * 10 ^ nd"]
    unfolding rne_of_int k_def by (simp add: abs_le_iff)
  then have k': "\<bar>of_int k :: rat\<bar> \<le> 2 ^ 51"
    by (metis of_int_abs of_int_le_iff of_int_numeral of_int_power)
  have x: "\<bar>?x\<bar> \<le> 2 ^ 51"
    using k' by (simp add: divide_le_eq order_trans [OF k'] self_le_power)
  have "fits ?x"
    using x overflow_bound_gt [of 51] rnd53_int [of "2 ^ 51"] by (intro fitsI [of _ "2 ^ 51"]) simp_all
  then have val: "isfinite (mk (signbit d) ?x)" "val (mk (signbit d) ?x) = rnd53 ?x"
    by (simp_all add: isfinite_mk val_mk)
  have dec: "dec nd (rnd53 ?x) = ?x" using k assms(2) by (intro dec_rnd53) simp_all
  have "\<bar>of_int k - rnd53 ?x * 10 ^ nd\<bar> < 1 / 2" using k assms(2) by (intro rnd53_scaled) simp_all
  then have "\<bar>rnd53 ?x * 10 ^ nd\<bar> \<le> 2 ^ 51 + 1" using k' by linarith
  then have "\<bar>rnd53 ?x\<bar> * 10 ^ nd \<le> 10 ^ 60" by (simp add: abs_mult)
  then have "room (mk (signbit d) ?x) nd" using assms(2) val by (simp add: room_def)
  then show ?thesis by (simp add: one alpha_round_dp_room val dec mk_signbit_again)
qed

text \<open>
  Decimal rounding keeps the order of its arguments.
\<close>

lemma alpha_round_dp_mono:
  assumes "isfinite a" "isfinite b" "a \<le> b" "nd \<le> 60"
    and "\<bar>val a\<bar> * 10 ^ nd \<le> 10 ^ 60" "\<bar>val b\<bar> * 10 ^ nd \<le> 10 ^ 60"
  shows "alpha_round_dp a (int nd) \<le> alpha_round_dp b (int nd)"
  using assms alpha_round_dp_room [of a nd] alpha_round_dp_room [of b nd]
  by (simp add: room_def le_finite mk_mono decimal.R_mono)

text \<open>
  C40. The 64 byte buffer bounds the result: whatever the finite argument, the text is cut to
  63 characters and the value read back is at most \<open>10^63\<close>. So an argument of
  \<open>10^64\<close> or more is not rounded but divided by a power of ten.
\<close>

theorem alpha_round_dp_truncates:
  assumes "isfinite d"
  shows "\<bar>alpha_round_dp d nd\<bar> \<le> lit (10 ^ 63)"
proof -
  let ?nd = "nat (if nd < 0 then 0 else nd)"
  let ?f = "fmt_fixed ?nd (rne (\<bar>val d\<bar> * 10 ^ ?nd))"
  obtain c s where f: "?f = c # s" "is_digit c"
    using fmt_fixed_start rne_nonneg by (metis abs_ge_zero mult_nonneg_nonneg zero_le_numeral zero_le_power)
  have c: "c \<noteq> CHR ''-''" "c \<noteq> CHR ''n''" "c \<noteq> CHR ''i''" using f(2) by auto
  obtain neg t where t: "alpha_round_dp d nd = mk neg (if neg then - read_fixed t else read_fixed t)"
    "length t \<le> 63"
  proof (cases "signbit d")
    case True
    with c f assms show ?thesis
      by (intro that [of True "take 62 ?f"])
         (auto simp: alpha_round_dp_def snprintf_def printf_f_finite strtod_def strtod_unsigned_def)
  next
    case False
    with c f assms show ?thesis
      by (intro that [of False "take 63 ?f"])
         (auto simp: alpha_round_dp_def snprintf_def printf_f_finite strtod_def strtod_unsigned_def)
  qed
  have "(10::rat) ^ length t \<le> 10 ^ 63" using t(2) by (intro power_increasing) simp_all
  then have r: "0 \<le> read_fixed t" "read_fixed t \<le> 10 ^ 63"
    using read_fixed_bound [of t] by auto
  have "\<bar>mk neg (if neg then - read_fixed t else read_fixed t)\<bar> \<le> lit (10 ^ 63)"
    using r by (simp add: abs_mk lit_def mk_mono)
  then show ?thesis by (simp add: t(1))
qed

theorem alpha_round_dp_truncates_witness:
  "\<bar>alpha_round_dp (Fin (2 ^ 230)) 4\<bar> \<le> lit (10 ^ 63)"
  using alpha_round_dp_truncates [of "Fin (2 ^ 230)" 4] by simp

end
