(* ===== verification/Civil_Date.thy ===== *)
theory Civil_Date
  imports Decimal_Rounding
begin

text \<open>
  Calendar dates (\<^verbatim>\<open>core/src/domain/date.c\<close>): the conversion between a proleptic
  Gregorian date and its day number, with the unsigned 32 bit arithmetic of the source, and
  the parser and printer of ISO dates. The reference calendar below it states what a day
  number means without any of that arithmetic.
\<close>

section \<open>The code\<close>

text \<open>Signed division of C truncates; \<open>sdiv\<close> of the library does too.\<close>

definition days_from_civil :: "int \<Rightarrow> 32 word \<Rightarrow> 32 word \<Rightarrow> int" where
  "days_from_civil y m d =
     (let y = y - (if m \<le> 2 then 1 else 0);
          era = (if y \<ge> 0 then y else y - 399) sdiv 400;
          yoe = word_of_int (y - era * 400) :: 32 word;
          doy = (153 * (m + (if m > 2 then - 3 else 9)) + 2) div 5 + d - 1;
          doe = yoe * 365 + yoe div 4 - yoe div 100 + doy
      in era * 146097 + uint doe - 719468)"

definition civil_from_days :: "int \<Rightarrow> int \<times> 32 word \<times> 32 word" where
  "civil_from_days z =
     (let z = z + 719468;
          era = (if z \<ge> 0 then z else z - 146096) sdiv 146097;
          doe = word_of_int (z - era * 146097) :: 32 word;
          yoe = (doe - doe div 1460 + doe div 36524 - doe div 146096) div 365;
          yy = uint yoe + era * 400;
          doy = doe - (365 * yoe + yoe div 4 - yoe div 100);
          mp = (5 * doy + 2) div 153;
          d = doy - (153 * mp + 2) div 5 + 1;
          m = mp + (if mp < 10 then 3 else - 9)
      in (yy + (if m \<le> 2 then 1 else 0), m, d))"

text \<open>Reading past the last character meets the terminating zero byte, which is not a
  digit.\<close>

fun parse_digits :: "string \<Rightarrow> nat \<Rightarrow> int \<Rightarrow> int option" where
  "parse_digits s 0 v = Some v"
| "parse_digits [] (Suc n) v = None"
| "parse_digits (c # s) (Suc n) v =
     (if of_char c < (48 :: nat) \<or> of_char c > (57 :: nat) then None
      else parse_digits s n (v * 10 + (int (of_char c) - 48)))"

text \<open>A null pointer argument is \<open>None\<close>, respectively \<open>False\<close> for an output; the
  second component of a result is what is stored through the output pointer.\<close>

definition alpha_date_parse :: "string option \<Rightarrow> bool \<Rightarrow> alpha_err_t \<times> int option" where
  "alpha_date_parse iso_s out =
     (case iso_s of None \<Rightarrow> (ALPHA_ERR_INVALID_ARG, None)
      | Some s \<Rightarrow>
        if \<not> out then (ALPHA_ERR_INVALID_ARG, None)
        else if length s \<noteq> 10 \<or> s ! 4 \<noteq> CHR ''-'' \<or> s ! 7 \<noteq> CHR ''-'' then (ALPHA_ERR_INVALID_ARG, None)
        else case (parse_digits s 4 0, parse_digits (drop 5 s) 2 0, parse_digits (drop 8 s) 2 0) of
          (Some year, Some month, Some day) \<Rightarrow>
            if month < 1 \<or> month > 12 \<or> day < 1 \<or> day > 31 then (ALPHA_ERR_INVALID_ARG, None)
            else (ALPHA_OK, Some (days_from_civil year (word_of_int month) (word_of_int day)))
        | _ \<Rightarrow> (ALPHA_ERR_INVALID_ARG, None))"

text \<open>\<^verbatim>\<open>"%04lld-%02u-%02u"\<close>: the width counts the sign.\<close>

definition fmt_year :: "int \<Rightarrow> string" where
  "fmt_year y = (if y < 0 then CHR ''-'' # pad 3 (dec_digits (- y)) else pad 4 (dec_digits y))"

definition fmt_date :: "int \<Rightarrow> 32 word \<Rightarrow> 32 word \<Rightarrow> string" where
  "fmt_date y m d =
     fmt_year y @ CHR ''-'' # pad 2 (dec_digits (uint m)) @ CHR ''-'' # pad 2 (dec_digits (uint d))"

definition alpha_date_format :: "int \<Rightarrow> bool \<Rightarrow> nat \<Rightarrow> alpha_err_t \<times> string option" where
  "alpha_date_format epoch_day out n =
     (if \<not> out \<or> n < 11 then (ALPHA_ERR_INVALID_ARG, None)
      else case civil_from_days epoch_day of (year, month, day) \<Rightarrow>
        (ALPHA_OK, Some (snprintf n (fmt_date year month day))))"

definition alpha_date_diff_days :: "int \<Rightarrow> int \<Rightarrow> int" where
  "alpha_date_diff_days a b = b - a"

section \<open>The reference calendar\<close>

definition leap :: "int \<Rightarrow> bool" where
  "leap y \<longleftrightarrow> 4 dvd y \<and> (\<not> 100 dvd y \<or> 400 dvd y)"

definition month_len :: "int \<Rightarrow> int \<Rightarrow> int" where
  "month_len y m = (if m = 2 then (if leap y then 29 else 28)
                    else if m \<in> {4, 6, 9, 11} then 30 else 31)"

type_synonym date = "int \<times> int \<times> int"

definition valid_date :: "date \<Rightarrow> bool" where
  "valid_date = (\<lambda>(y, m, d). 1 \<le> m \<and> m \<le> 12 \<and> 1 \<le> d \<and> d \<le> month_len y m)"

definition next_day :: "date \<Rightarrow> date" where
  "next_day = (\<lambda>(y, m, d). if d < month_len y m then (y, m, d + 1)
                           else if m < 12 then (y, m + 1, 1) else (y + 1, 1, 1))"

definition prev_day :: "date \<Rightarrow> date" where
  "prev_day = (\<lambda>(y, m, d). if 1 < d then (y, m, d - 1)
                           else if 1 < m then (y, m - 1, month_len y (m - 1)) else (y - 1, 12, 31))"

lemma month_len_bounds: "28 \<le> month_len y m" "month_len y m \<le> 31"
  by (auto simp: month_len_def)

lemma valid_next_day: "valid_date t \<Longrightarrow> valid_date (next_day t)"
  using month_len_bounds by (cases t) (auto simp: valid_date_def next_day_def month_len_def)

lemma valid_prev_day: "valid_date t \<Longrightarrow> valid_date (prev_day t)"
  by (cases t) (auto simp: valid_date_def prev_day_def month_len_def)

lemma next_prev_day: "valid_date t \<Longrightarrow> next_day (prev_day t) = t"
  by (cases t) (auto simp: valid_date_def prev_day_def next_day_def month_len_def)

section \<open>The day number over the integers\<close>

text \<open>Days before the first of the month in a year that starts in March.\<close>

definition month_off :: "int \<Rightarrow> int" where
  "month_off m = (153 * (if m > 2 then m - 3 else m + 9) + 2) div 5"

definition leap_days :: "int \<Rightarrow> int" where
  "leap_days y = y div 4 - y div 100 + y div 400"

definition day_number :: "date \<Rightarrow> int" where
  "day_number = (\<lambda>(y, m, d). let y' = (if m \<le> 2 then y - 1 else y) in
     365 * y' + leap_days y' + month_off m + d - 1 - 719468)"

lemma month_cases:
  assumes "1 \<le> m" "m \<le> (12::int)"
  obtains "m = 1" | "m = 2" | "m = 3" | "m = 4" | "m = 5" | "m = 6" | "m = 7" | "m = 8"
    | "m = 9" | "m = 10" | "m = 11" | "m = 12"
proof -
  have "m = 1 \<or> m = 2 \<or> m = 3 \<or> m = 4 \<or> m = 5 \<or> m = 6 \<or> m = 7 \<or> m = 8 \<or> m = 9
    \<or> m = 10 \<or> m = 11 \<or> m = 12"
    using assms by presburger
  then show ?thesis using that by blast
qed

lemma div_pred: "0 < k \<Longrightarrow> y div k = (y - 1) div k + (if k dvd y then 1 else (0::int))"
proof -
  assume k: "0 < k"
  show ?thesis
  proof (cases "k dvd y")
    case True
    then obtain c where y: "y = k * c" by (elim dvdE)
    have "(k * c - 1) div k = c - 1"
      using k by (intro int_div_pos_eq [of _ _ _ "k - 1"]) (simp_all add: algebra_simps)
    then show ?thesis using True k y by simp
  next
    case False
    then have r: "0 < y mod k" "y mod k < k"
      using k pos_mod_sign [OF k, of y] pos_mod_bound [OF k, of y]
      by (auto simp: dvd_eq_mod_eq_0 less_le)
    have "(y - 1) div k = y div k"
    proof (rule int_div_pos_eq [of _ _ _ "y mod k - 1"])
      show "y - 1 = k * (y div k) + (y mod k - 1)" by simp
      show "0 \<le> y mod k - 1" "y mod k - 1 < k" using r by linarith+
    qed
    then show ?thesis using False by simp
  qed
qed

lemma leap_days_pred: "leap_days y = leap_days (y - 1) + (if leap y then 1 else 0)"
proof -
  have dvds: "100 dvd y \<longrightarrow> 4 dvd y" "400 dvd y \<longrightarrow> 100 dvd y"
    using dvd_trans [of 4 100 y] dvd_trans [of 100 400 y] by simp_all
  have "(if 4 dvd y then 1 else 0) - (if 100 dvd y then 1 else 0) + (if 400 dvd y then 1 else 0)
      = (if leap y then 1 else (0::int))"
    using dvds unfolding leap_def by (cases "4 dvd y"; cases "100 dvd y"; cases "400 dvd y") simp_all
  moreover have "y div 4 = (y - 1) div 4 + (if 4 dvd y then 1 else 0)"
    "y div 100 = (y - 1) div 100 + (if 100 dvd y then 1 else 0)"
    "y div 400 = (y - 1) div 400 + (if 400 dvd y then 1 else 0)"
    by (rule div_pred, simp)+
  ultimately show ?thesis unfolding leap_days_def by (simp only: algebra_simps)
qed

lemma day_number_next: "valid_date t \<Longrightarrow> day_number (next_day t) = day_number t + 1"
proof -
  obtain y m d where t: "t = (y, m, d)" by (cases t)
  assume "valid_date t"
  then have m: "1 \<le> m" "m \<le> 12" and d: "d \<le> month_len y m"
    by (simp_all add: t valid_date_def)
  note defs = t next_day_def day_number_def month_off_def month_len_def
  from m show ?thesis
  proof (cases rule: month_cases)
    case 2
    then show ?thesis
      using d leap_days_pred [of y] by (cases "leap y") (auto simp: defs)
  qed (use d in \<open>auto simp: defs\<close>)
qed

lemma day_number_epoch: "day_number (1970, 1, 1) = 0"
  by (simp add: day_number_def month_off_def leap_days_def)

section \<open>The 32 bit code computes the day number\<close>

lemma floor_sdiv:
  "0 < k \<Longrightarrow> (if y \<ge> 0 then y else y - (k - 1)) sdiv k = y div (k::int)"
proof -
  assume k: "0 < k"
  show ?thesis
  proof (cases "y \<ge> 0")
    case True
    then show ?thesis using k by (cases "y = 0") (simp_all add: signed_divide_int_def)
  next
    case False
    have "(k - 1 - y) div k = - (y div k)"
    proof (rule int_div_pos_eq [of _ _ _ "k - 1 - y mod k"])
      have "y = k * (y div k) + y mod k" by simp
      then show "k - 1 - y = k * - (y div k) + (k - 1 - y mod k)"
        by (simp only: mult_minus_right)
      show "0 \<le> k - 1 - y mod k" "k - 1 - y mod k < k"
        using pos_mod_sign [OF k, of y] pos_mod_bound [OF k, of y] by linarith+
    qed
    moreover have "\<bar>y - (k - 1)\<bar> = k - 1 - y" "sgn (y - (k - 1)) = -1" using False k by simp_all
    ultimately show ?thesis using False k by (simp add: signed_divide_int_def)
  qed
qed

lemma uint32_of_int: "0 \<le> k \<Longrightarrow> k < 2 ^ 32 \<Longrightarrow> uint (word_of_int k :: 32 word) = k"
  by (simp add: uint_word_of_int take_bit_eq_mod)

lemma word32_inj:
  "0 \<le> a \<Longrightarrow> a < 2 ^ 32 \<Longrightarrow> 0 \<le> b \<Longrightarrow> b < 2 ^ 32 \<Longrightarrow>
   (word_of_int a :: 32 word) = word_of_int b \<Longrightarrow> a = b"
  using uint32_of_int [of a] uint32_of_int [of b] by metis

lemma word32_div:
  "0 \<le> a \<Longrightarrow> a < 2 ^ 32 \<Longrightarrow> 0 \<le> b \<Longrightarrow> b < 2 ^ 32 \<Longrightarrow>
   (word_of_int a :: 32 word) div word_of_int b = word_of_int (a div b)"
proof -
  assume "0 \<le> a" "a < 2 ^ 32" "0 \<le> b" "b < 2 ^ 32"
  then have "uint ((word_of_int a :: 32 word) div word_of_int b) = a div b"
    by (simp add: uint_div_distrib uint32_of_int)
  then show ?thesis by (metis word_of_int_uint)
qed

lemma word32_div_numeral:
  "0 \<le> a \<Longrightarrow> a < 2 ^ 32 \<Longrightarrow> (numeral k :: int) < 2 ^ 32 \<Longrightarrow>
   (word_of_int a :: 32 word) div numeral k = word_of_int (a div numeral k)"
  using word32_div [of a "numeral k"] by simp

text \<open>The year of an era and its days, as the code counts them.\<close>

definition year_days :: "int \<Rightarrow> int" where
  "year_days q = 365 * q + q div 4 - q div 100"

lemma leap_days_era: "leap_days y = 97 * (y div 400) + (y mod 400) div 4 - (y mod 400) div 100"
proof -
  define e q where "e = y div 400" and "q = y mod 400"
  have y: "y = q + (e * 100) * 4" "y = q + (e * 4) * 100" "y = q + e * 400"
    by (simp_all add: e_def q_def)
  have "y div 4 = q div 4 + e * 100" by (subst y(1)) simp
  moreover have "y div 100 = q div 100 + e * 4" by (subst y(2)) simp
  ultimately show ?thesis by (simp add: leap_days_def e_def [symmetric] q_def [symmetric])
qed

lemma year_days_bounds: "0 \<le> q \<Longrightarrow> q < 400 \<Longrightarrow> 0 \<le> year_days q \<and> year_days q \<le> 145731"
proof (cases "q = 399")
  case False
  moreover assume "0 \<le> q" "q < 400"
  ultimately show ?thesis unfolding year_days_def by linarith
qed (simp add: year_days_def)

lemma month_off_bounds: "1 \<le> m \<Longrightarrow> m \<le> 12 \<Longrightarrow> 0 \<le> month_off m \<and> month_off m \<le> 337"
  unfolding month_off_def by (auto split: if_splits)

lemma day_number_era:
  "day_number (y, m, d) =
     (let y' = (if m \<le> 2 then y - 1 else y)
      in (y' div 400) * 146097 + (year_days (y' mod 400) + month_off m + d - 1) - 719468)"
proof -
  define y' where "y' = (if m \<le> 2 then y - 1 else y)"
  have "y' = 400 * (y' div 400) + y' mod 400" by simp
  then have "365 * y' = 146000 * (y' div 400) + 365 * (y' mod 400)" by linarith
  then show ?thesis
    by (simp add: day_number_def Let_def y'_def [symmetric] leap_days_era year_days_def
        del: mult_div_mod_eq)
qed

lemma word_month:
  assumes "1 \<le> m" "m \<le> 12"
  shows "(153 * ((word_of_int m :: 32 word)
            + (if (word_of_int m :: 32 word) > 2 then - 3 else 9)) + 2) div 5
         = word_of_int (month_off m)"
  using assms by (cases rule: month_cases) (simp_all add: month_off_def)

lemma word_le_2: "0 \<le> m \<Longrightarrow> m < 2 ^ 32 \<Longrightarrow> (word_of_int m :: 32 word) \<le> 2 \<longleftrightarrow> m \<le> 2"
  by (simp add: word_le_def uint32_of_int)

lemma days_from_civil_day_number:
  assumes m: "1 \<le> m" "m \<le> 12" and d: "1 \<le> d" "d \<le> 31"
  shows "days_from_civil y (word_of_int m) (word_of_int d) = day_number (y, m, d)"
proof -
  define y' where "y' = (if m \<le> 2 then y - 1 else y)"
  define q where "q = y' mod 400"
  have q: "0 \<le> q" "q < 400" by (simp_all add: q_def)
  have yq: "y' - y' div 400 * 400 = q" by (simp add: q_def minus_div_mult_eq_mod)
  have "(word_of_int q * 365 + word_of_int q div 4 - word_of_int q div 100
        + (word_of_int (month_off m) + word_of_int d - 1) :: 32 word)
      = word_of_int (year_days q + month_off m + d - 1)"
    using q word32_div [of q 4] word32_div [of q 100] by (simp add: year_days_def algebra_simps)
  moreover have "uint (word_of_int (year_days q + month_off m + d - 1) :: 32 word)
      = year_days q + month_off m + d - 1"
    using d year_days_bounds [OF q] month_off_bounds [OF m] by (intro uint32_of_int) auto
  moreover have "y - (if (word_of_int m :: 32 word) \<le> 2 then 1 else 0) = y'"
    using m by (simp add: word_le_2 y'_def)
  moreover have "(if y' \<ge> 0 then y' else y' - 399) sdiv 400 = y' div 400"
    using floor_sdiv [of 400 y'] by (cases "y' \<ge> 0") simp_all
  ultimately show ?thesis
    by (simp only: days_from_civil_def day_number_era Let_def word_month [OF m] yq
        y'_def [symmetric] q_def [symmetric])
qed

text \<open>The year of the era is recovered from the day of the era, and the month and day from
  the day of the year.\<close>

definition year_of :: "int \<Rightarrow> int" where
  "year_of doe = (doe - doe div 1460 + doe div 36524 - doe div 146096) div 365"

definition year_len :: "int \<Rightarrow> int" where
  "year_len q = (if leap (q + 1) then 366 else 365)"

lemma year_of_centuries:
  assumes c: "0 \<le> c" "c < 4" and b: "0 \<le> b" "b < 25" and a: "0 \<le> a" "a < 4"
    and n: "0 \<le> n" "n \<le> 365" and l: "n = 365 \<Longrightarrow> a = 3 \<and> (b < 24 \<or> c = 3)"
  shows "year_of (36524 * c + 1461 * b + 365 * a + n) = 100 * c + 4 * b + (a::int)"
proof -
  let ?doe = "36524 * c + 1461 * b + 365 * a + n"
  define s where "s = 24 * c + b + 365 * a + n"
  define k where "k = (if s \<ge> 1460 then 1 else (0::int))"
  define t where "t = (if ?doe = 146096 then 1 else (0::int))"
  have "?doe div 1460 = 25 * c + b + k"
    using c b a n by (intro int_div_pos_eq [of _ _ _ "s - 1460 * k"])
      (auto simp: s_def k_def)
  moreover have "?doe div 36524 = c + t"
    using c b a n l by (intro int_div_pos_eq [of _ _ _ "1461 * b + 365 * a + n - 36524 * t"])
      (cases "n = 365"; auto simp: t_def)+
  moreover have "?doe div 146096 = t"
    using c b a n l by (intro int_div_pos_eq [of _ _ _ "?doe - 146096 * t"])
      (cases "n = 365"; auto simp: t_def)+
  ultimately have "year_of ?doe = (36500 * c + 1460 * b + 365 * a + n - k) div 365"
    by (simp add: year_of_def algebra_simps)
  also have "\<dots> = 100 * c + 4 * b + a"
    using c b a n l by (intro int_div_pos_eq [of _ _ _ "n - k"])
      (cases "n = 365"; auto simp: k_def s_def)+
  finally show ?thesis .
qed

lemma year_of_year_days:
  assumes q: "0 \<le> q" "q < 400" and n: "0 \<le> n" "n < year_len q"
  shows "year_of (year_days q + n) = q"
proof -
  define r c where "r = q mod 100" and "c = q div 100"
  define b a where "b = r div 4" and "a = r mod 4"
  have "q = 100 * c + r" "0 \<le> r" "r < 100" by (simp_all add: r_def c_def)
  moreover have "r = 4 * b + a" "0 \<le> a" "a < 4" by (simp_all add: a_def b_def)
  ultimately have split: "q = 100 * c + 4 * b + a" "0 \<le> c" "c < 4" "0 \<le> b" "b < 25" "0 \<le> a" "a < 4"
    using q by linarith+
  have "q div 4 = 25 * c + b"
    using split by (intro int_div_pos_eq [of _ _ _ a]) simp_all
  then have "year_days q = 365 * q + (25 * c + b) - c"
    by (simp only: year_days_def c_def)
  then have "year_days q = 36524 * c + 1461 * b + 365 * a"
    using split(1) by linarith
  moreover have "a = 3 \<and> (b < 24 \<or> c = 3)" if "n = 365"
  proof -
    have "leap (q + 1)" using n that by (simp add: year_len_def split: if_splits)
    then have l: "4 dvd q + 1" "\<not> 100 dvd q + 1 \<or> 400 dvd q + 1" by (simp_all add: leap_def)
    have "q + 1 = 4 * (25 * c + b) + (a + 1)" using split(1) by simp
    then have "4 dvd a + 1" using l(1) by (metis dvd_add_right_iff dvd_triv_left)
    then have a: "a = 3" using split(6,7) by presburger
    moreover have "c = 3" if "b = 24"
    proof -
      have "q + 1 = 100 * (c + 1)" using split(1) a that by simp
      then have "100 * 4 dvd 100 * (c + 1)" using l(2) by (auto simp: add.commute)
      then have "4 dvd c + 1" by (simp only: dvd_mult_cancel_left) simp
      then show ?thesis using split(2,3) by presburger
    qed
    ultimately show ?thesis using split(5) by linarith
  qed
  ultimately show ?thesis
    using year_of_centuries [of c b a n] split n by (simp add: year_len_def split: if_splits)
qed

lemma int_div_eqI: "0 < k \<Longrightarrow> k * j \<le> x \<Longrightarrow> x < k * j + k \<Longrightarrow> x div k = (j::int)"
  by (rule int_div_pos_eq [of _ _ _ "x - k * j"]) simp_all

lemma month_of_year_day:
  assumes m: "1 \<le> m" "m \<le> 12" and d: "1 \<le> d" "d \<le> month_len y m"
  shows "(5 * (month_off m + d - 1) + 2) div 153 = (if m > 2 then m - 3 else m + 9)"
proof (rule int_div_eqI)
  have d': "m = 2 \<longrightarrow> d \<le> 29" "m \<in> {4, 6, 9, 11} \<longrightarrow> d \<le> 30" "d \<le> 31"
    using d month_len_bounds(2) [of y m] by (auto simp: month_len_def split: if_splits)
  show "153 * (if m > 2 then m - 3 else m + 9) \<le> 5 * (month_off m + d - 1) + 2"
    using m by (cases rule: month_cases) (use d in \<open>simp_all add: month_off_def\<close>)
  show "5 * (month_off m + d - 1) + 2 < 153 * (if m > 2 then m - 3 else m + 9) + 153"
    using m by (cases rule: month_cases) (use d' in \<open>simp_all add: month_off_def\<close>)
qed simp

lemma year_day_bounds:
  assumes m: "1 \<le> m" "m \<le> 12" and d: "1 \<le> d" "d \<le> month_len y m"
  defines "y' \<equiv> (if m \<le> 2 then y - 1 else y)"
  shows "0 \<le> month_off m + d - 1" "month_off m + d - 1 < year_len (y' mod 400)"
proof -
  have leap: "leap ((y - 1) mod 400 + 1) = leap y"
  proof -
    have "k dvd (y - 1) mod 400 + 1 \<longleftrightarrow> k dvd y" if "k dvd 400" for k
    proof -
      have "y = ((y - 1) mod 400 + 1) + 400 * ((y - 1) div 400)" by simp
      then show ?thesis using that by (metis dvd_add_left_iff dvd_mult2)
    qed
    then show ?thesis by (simp add: leap_def)
  qed
  show "month_off m + d - 1 < year_len (y' mod 400)"
    using m by (cases rule: month_cases)
      (use d leap in \<open>auto simp: month_off_def month_len_def year_len_def y'_def split: if_splits\<close>)
  show "0 \<le> month_off m + d - 1" using d month_off_bounds [OF m] by linarith
qed

lemma year_of_numerator:
  assumes "0 \<le> doe" "doe < 146097"
  shows "0 \<le> doe - doe div 1460 + doe div 36524 - doe div 146096"
    "doe - doe div 1460 + doe div 36524 - doe div 146096 < (2 ^ 32 :: int)"
proof -
  define i j k where "i = doe div 1460" and "j = doe div 36524" and "k = doe div 146096"
  have "0 \<le> i" "i \<le> doe" "0 \<le> k" "k \<le> j" "j \<le> doe"
    using assms zdiv_mono2 [of doe 1 1460] zdiv_mono2 [of doe 1 36524]
      zdiv_mono2 [of doe 36524 146096]
    by (simp_all add: i_def j_def k_def pos_imp_zdiv_nonneg_iff)
  then show "0 \<le> doe - doe div 1460 + doe div 36524 - doe div 146096"
    "doe - doe div 1460 + doe div 36524 - doe div 146096 < (2 ^ 32 :: int)"
    unfolding i_def [symmetric] j_def [symmetric] k_def [symmetric] using assms by simp_all
qed

text \<open>The words of the code, read as integers.\<close>

lemma civil_from_days_word:
  assumes q: "0 \<le> q" "q < 400" and n: "0 \<le> n" "n < year_len q"
    and z: "z + 719468 = e * 146097 + (year_days q + n)"
  defines "mp \<equiv> (5 * n + 2) div 153"
  defines "m \<equiv> (if mp < 10 then mp + 3 else mp - 9)"
  shows "civil_from_days z = (q + e * 400 + (if m \<le> 2 then 1 else 0), word_of_int m,
           word_of_int (n - (153 * mp + 2) div 5 + 1))"
proof -
  define doe where "doe = year_days q + n"
  have n': "n \<le> 365" using n by (simp add: year_len_def split: if_splits)
  have doe: "0 \<le> doe" "doe < 146097"
    using year_days_bounds [OF q] n n' by (auto simp: doe_def)
  have yoe: "year_of doe = q" using year_of_year_days [OF q n] by (simp add: doe_def)
  have mp: "0 \<le> mp" "mp \<le> 11" "1 \<le> m" "m \<le> 12"
    using n n' by (auto simp: mp_def m_def)
  define w :: "int \<Rightarrow> 32 word" where "w = word_of_int"
  have "(w doe - w doe div 1460 + w doe div 36524 - w doe div 146096)
      = w (doe - doe div 1460 + doe div 36524 - doe div 146096)"
  proof -
    have "doe < 2 ^ 32" using doe(2) by simp
    note div = word32_div_numeral [OF doe(1) this]
    have "w doe div 1460 = w (doe div 1460)" "w doe div 36524 = w (doe div 36524)"
      "w doe div 146096 = w (doe div 146096)"
      unfolding w_def by (rule div, simp)+
    then show ?thesis by (simp only: w_def wi_hom_sub wi_hom_add)
  qed
  moreover have "w (doe - doe div 1460 + doe div 36524 - doe div 146096) div 365 = w q"
    using word32_div [OF year_of_numerator [OF doe], of 365] yoe by (simp add: w_def year_of_def)
  ultimately have yoe_w: "(w doe - w doe div 1460 + w doe div 36524 - w doe div 146096) div 365 = w q"
    by (simp only:)
  have doy_w: "w doe - (365 * w q + w q div 4 - w q div 100) = w n"
  proof -
    have "w q div 4 = w (q div 4)" "w q div 100 = w (q div 100)"
      unfolding w_def using q by (intro word32_div_numeral; simp)+
    then show ?thesis by (simp add: w_def year_days_def doe_def)
  qed
  have mp_w: "(5 * w n + 2) div 153 = w mp"
    using n n' word32_div [of "5 * n + 2" 153] by (simp add: w_def mp_def)
  have d_w: "w n - (153 * w mp + 2) div 5 + 1 = w (n - (153 * mp + 2) div 5 + 1)"
    using mp word32_div [of "153 * mp + 2" 5] by (simp add: w_def)
  have m_w: "w mp + (if w mp < 10 then 3 else - 9) = w m"
    using mp by (simp add: w_def m_def word_less_def uint32_of_int)
  have m2: "w m \<le> 2 \<longleftrightarrow> m \<le> 2" using mp word_le_2 [of m] by (simp add: w_def)
  have "(if z + 719468 \<ge> 0 then z + 719468 else z + 719468 - 146096) sdiv 146097 = (z + 719468) div 146097"
    using floor_sdiv [of 146097 "z + 719468"] by (cases "z + 719468 \<ge> 0") simp_all
  moreover have "(z + 719468) div 146097 = e"
    using z doe by (intro int_div_eqI) (simp_all add: doe_def)
  moreover have "z + 719468 - e * 146097 = doe" using z by (simp add: doe_def)
  moreover have "uint (w q) = q" using q by (simp add: w_def uint32_of_int)
  ultimately show ?thesis
    by (simp only: civil_from_days_def Let_def w_def [symmetric] yoe_w doy_w mp_w d_w m_w m2)
qed

lemma civil_from_day_number:
  assumes v: "valid_date (y, m, d)"
  shows "civil_from_days (day_number (y, m, d)) = (y, word_of_int m, word_of_int d)"
proof -
  have m: "1 \<le> m" "m \<le> 12" and d: "1 \<le> d" "d \<le> month_len y m"
    using v by (simp_all add: valid_date_def)
  define y' where "y' = (if m \<le> 2 then y - 1 else y)"
  define n mp where "n = month_off m + d - 1" and "mp = (5 * n + 2) div 153"
  have n: "0 \<le> n" "n < year_len (y' mod 400)"
    using year_day_bounds [OF m d] by (simp_all add: n_def y'_def)
  have mp: "mp = (if m > 2 then m - 3 else m + 9)"
    using month_of_year_day [OF m d] by (simp add: mp_def n_def)
  then have "(if mp < 10 then mp + 3 else mp - 9) = m" using m by auto
  moreover have "n - (153 * mp + 2) div 5 + 1 = d"
    unfolding mp n_def month_off_def by simp
  moreover have "y' mod 400 + y' div 400 * 400 + (if m \<le> 2 then 1 else 0) = y"
    by (simp only: mod_div_mult_eq) (simp add: y'_def)
  moreover have "day_number (y, m, d) + 719468 = y' div 400 * 146097 + (year_days (y' mod 400) + n)"
    by (simp only: day_number_era Let_def y'_def [symmetric] n_def)
  then have "civil_from_days (day_number (y, m, d)) =
      (y' mod 400 + y' div 400 * 400 + (if (if mp < 10 then mp + 3 else mp - 9) \<le> 2 then 1 else 0),
       word_of_int (if mp < 10 then mp + 3 else mp - 9), word_of_int (n - (153 * mp + 2) div 5 + 1))"
    unfolding mp_def by (intro civil_from_days_word n) simp_all
  ultimately show ?thesis by (simp only:)
qed

lemma day_number_surj: "\<exists>t. valid_date t \<and> day_number t = z"
proof (induction z rule: int_induct [of _ 0])
  case base
  have "valid_date (1970, 1, 1)" by (simp add: valid_date_def month_len_def)
  then show ?case using day_number_epoch by blast
next
  case (step1 i)
  then show ?case using day_number_next valid_next_day by metis
next
  case (step2 i)
  then obtain t where t: "valid_date t" "day_number t = i" by blast
  have "day_number (next_day (prev_day t)) = day_number (prev_day t) + 1"
    using day_number_next valid_prev_day t(1) by blast
  then show ?case using t next_prev_day valid_prev_day by (intro exI [of _ "prev_day t"]) simp
qed

lemma valid_date_month_day:
  assumes "valid_date (y, m, d)"
  shows "1 \<le> m" "m \<le> 12" "1 \<le> d" "d \<le> 31"
  using assms month_len_bounds(2) [of y m] by (simp_all add: valid_date_def)

lemma civil_from_days_valid:
  obtains y m d where "valid_date (y, m, d)" "day_number (y, m, d) = z"
    "civil_from_days z = (y, word_of_int m, word_of_int d)"
  using day_number_surj [of z] civil_from_day_number by (metis prod_cases3)

section \<open>Parsing and printing\<close>

lemma parse_digits_val:
  "\<forall>c\<in>set s. is_digit c \<Longrightarrow> parse_digits (s @ r) (length s) v = Some (v * 10 ^ length s + digits_val s)"
proof (induction s arbitrary: v)
  case (Cons c s)
  have "digits_val (c # s) = digit_val c * 10 ^ length s + digits_val s"
    using digits_val_append [of "[c]" s] by simp
  moreover have "48 \<le> (of_char c :: nat)" "(of_char c :: nat) \<le> 57"
    using Cons.prems by (simp_all add: is_digit_def)
  ultimately show ?case using Cons by (simp add: digit_val_def algebra_simps)
qed simp

lemma parse_digits_pad:
  assumes "0 \<le> n" "n < 10 ^ k" "0 < k"
  shows "parse_digits (pad k (dec_digits n) @ r) k 0 = Some n" "length (pad k (dec_digits n)) = k"
proof -
  have "length (dec_digits n) \<le> k" using length_dec_digits [of n k] assms by simp
  then show l: "length (pad k (dec_digits n)) = k" by (rule length_pad)
  have "\<forall>c\<in>set (pad k (dec_digits n)). is_digit c"
    using is_digit_dec_digits assms(1) set_pad by fastforce
  from parse_digits_val [OF this, of r 0] show "parse_digits (pad k (dec_digits n) @ r) k 0 = Some n"
    using assms by (simp add: l digits_val_dec_digits)
qed

lemma fmt_date_parts:
  assumes y: "0 \<le> y" "y < 10000" and m: "1 \<le> m" "m \<le> 12" and d: "1 \<le> d" "d \<le> 31"
  defines "s \<equiv> fmt_date y (word_of_int m) (word_of_int d)"
  shows "length s = 10" "s ! 4 = CHR ''-''" "s ! 7 = CHR ''-''" "parse_digits (s @ r) 4 0 = Some y"
    "parse_digits (drop 5 s @ r) 2 0 = Some m" "parse_digits (drop 8 s @ r) 2 0 = Some d"
proof -
  define a b c where "a = pad 4 (dec_digits y)" and "b = pad 2 (dec_digits m)" and "c = pad 2 (dec_digits d)"
  have "uint (word_of_int m :: 32 word) = m" "uint (word_of_int d :: 32 word) = d"
    using m d by (simp_all add: uint32_of_int)
  then have s: "s = a @ CHR ''-'' # b @ CHR ''-'' # c"
    using y by (simp add: s_def fmt_date_def fmt_year_def a_def b_def c_def)
  have l: "length a = 4" "length b = 2" "length c = 2"
    using y m d parse_digits_pad(2) unfolding a_def b_def c_def by simp_all
  then show "length s = 10" "s ! 4 = CHR ''-''" "s ! 7 = CHR ''-''" by (simp_all add: s nth_append)
  have "drop 5 s = b @ CHR ''-'' # c" "drop 8 s = c" using l by (simp_all add: s)
  then show "parse_digits (s @ r) 4 0 = Some y" "parse_digits (drop 5 s @ r) 2 0 = Some m"
    "parse_digits (drop 8 s @ r) 2 0 = Some d"
    using y m d parse_digits_pad(1) by (simp_all add: s a_def b_def c_def)
qed

text \<open>Every month from 1 to 12 and day from 1 to 31 is accepted, whatever the length of the
  month.\<close>

lemma alpha_date_parse_fmt:
  assumes y: "0 \<le> y" "y < 10000" and m: "1 \<le> m" "m \<le> 12" and d: "1 \<le> d" "d \<le> 31"
  defines "s \<equiv> fmt_date y (word_of_int m) (word_of_int d)"
  shows "alpha_date_parse (Some s) True = (ALPHA_OK, Some (day_number (y, m, d)))" "length s = 10"
  using m d fmt_date_parts(1-3) [OF y m d] fmt_date_parts(4-6) [OF y m d, of "[]"]
  by (simp_all add: s_def alpha_date_parse_def days_from_civil_day_number)

section \<open>Properties\<close>

text \<open>
  C9. The day number of the 32 bit code is the calendar's: 1970-01-01 is day 0 and, for
  every valid date of the proleptic Gregorian calendar of any year, the next day of the
  calendar has the next number.
\<close>

theorem days_from_civil_calendar:
  assumes "valid_date (y, m, d)" "next_day (y, m, d) = (y', m', d')"
  shows "days_from_civil 1970 1 1 = 0
       \<and> days_from_civil y' (word_of_int m') (word_of_int d')
         = days_from_civil y (word_of_int m) (word_of_int d) + 1"
proof
  show "days_from_civil 1970 1 1 = 0"
    using days_from_civil_day_number [of 1 1 1970] day_number_epoch by simp
  show "days_from_civil y' (word_of_int m') (word_of_int d')
      = days_from_civil y (word_of_int m) (word_of_int d) + 1"
    using day_number_next [OF assms(1)] valid_next_day [OF assms(1)]
      valid_date_month_day [OF assms(1)] valid_date_month_day [of y' m' d']
    by (simp add: assms(2) days_from_civil_day_number)
qed

theorem days_from_civil_calendar_witness:
  "days_from_civil 1970 1 1 = 0 \<and> days_from_civil 2024 3 1 = days_from_civil 2024 2 29 + 1"
  using days_from_civil_calendar [of 2024 2 29 2024 3 1]
  by (simp add: valid_date_def next_day_def month_len_def leap_def)

text \<open>
  C25. The two conversions are inverse to each other: every day number is converted to a
  valid date, and a valid date is the one of a day number exactly when its own day number
  is that number.
\<close>

theorem civil_from_days_inverse:
  "(\<exists>y m d. valid_date (y, m, d) \<and> civil_from_days z = (y, word_of_int m, word_of_int d))
   \<and> (\<forall>y m d. valid_date (y, m, d) \<longrightarrow>
        (civil_from_days z = (y, word_of_int m, word_of_int d)
         \<longleftrightarrow> days_from_civil y (word_of_int m) (word_of_int d) = z))"
proof (intro conjI allI impI)
  obtain a b c where abc: "valid_date (a, b, c)" "day_number (a, b, c) = z"
    "civil_from_days z = (a, word_of_int b, word_of_int c)"
    by (rule civil_from_days_valid)
  then show "\<exists>y m d. valid_date (y, m, d) \<and> civil_from_days z = (y, word_of_int m, word_of_int d)"
    by blast
  fix y m d assume v: "valid_date (y, m, d)"
  note bounds = valid_date_month_day [OF v] valid_date_month_day [OF abc(1)]
  have injm: "m = b" if "(word_of_int m :: 32 word) = word_of_int b"
    using bounds by (intro word32_inj [OF _ _ _ _ that]) simp_all
  have injd: "d = c" if "(word_of_int d :: 32 word) = word_of_int c"
    using bounds by (intro word32_inj [OF _ _ _ _ that]) simp_all
  have "civil_from_days z = (y, word_of_int m, word_of_int d) \<longleftrightarrow> (y, m, d) = (a, b, c)"
    unfolding abc(3) prod.inject using injm injd by metis
  also have "\<dots> \<longleftrightarrow> day_number (y, m, d) = z"
    using abc civil_from_day_number [OF v] injm injd by (metis prod.inject)
  finally show "civil_from_days z = (y, word_of_int m, word_of_int d)
      \<longleftrightarrow> days_from_civil y (word_of_int m) (word_of_int d) = z"
    using bounds by (simp add: days_from_civil_day_number)
qed

theorem civil_from_days_inverse_witness:
  "civil_from_days 19782 = (2024, 2, 29) \<longleftrightarrow> days_from_civil 2024 2 29 = 19782"
  using conjunct2 [OF civil_from_days_inverse [of 19782], rule_format, of 2024 2 29]
  by (simp add: valid_date_def month_len_def leap_def)

text \<open>
  C26. Printing and parsing are inverse for the years that four digits can write: the date
  of a day number is printed as ten characters into the minimal buffer, and reading them
  gives the day number back.
\<close>

theorem alpha_date_roundtrip:
  assumes "valid_date (y, m, d)" "0 \<le> y" "y < 10000"
    "epoch_day = days_from_civil y (word_of_int m) (word_of_int d)"
  shows "\<exists>s. alpha_date_format epoch_day True 11 = (ALPHA_OK, Some s) \<and> length s = 10
           \<and> alpha_date_parse (Some s) True = (ALPHA_OK, Some epoch_day)"
proof -
  note b = valid_date_month_day [OF assms(1)]
  have e: "epoch_day = day_number (y, m, d)" using days_from_civil_day_number b assms(4) by simp
  then show ?thesis
    using alpha_date_parse_fmt [OF assms(2,3) b] civil_from_day_number [OF assms(1)]
    by (simp add: alpha_date_format_def snprintf_def)
qed

theorem alpha_date_roundtrip_witness:
  "\<exists>s. alpha_date_format 19782 True 11 = (ALPHA_OK, Some s) \<and> length s = 10
     \<and> alpha_date_parse (Some s) True = (ALPHA_OK, Some 19782)"
  by (rule alpha_date_roundtrip [of 2024 2 29], (code_simp)+)

text \<open>From the year 10000 on the eleven bytes the printer asks for are too few, and it returns a cut text as a success.\<close>

lemma alpha_date_format_truncates: "alpha_date_format 2932897 True 11 = (ALPHA_OK, Some ''10000-01-0'')"
  by code_simp

text \<open>
  The parser checks the day against 31 only: a day past the end of its month is
  accepted, and is read as the day that many days after the last one of the month.
\<close>

lemma alpha_date_parse_day_overflow:
  assumes "0 \<le> y" "y < 10000" "1 \<le> m" "m \<le> 12" "month_len y m < d" "d \<le> 31"
  shows "alpha_date_parse (Some (fmt_date y (word_of_int m) (word_of_int d))) True =
     (ALPHA_OK, Some (days_from_civil y (word_of_int m) (word_of_int (month_len y m)) + (d - month_len y m)))"
proof -
  have "1 \<le> d" using assms(5) month_len_bounds(1) [of y m] by linarith
  moreover have "days_from_civil y (word_of_int m) (word_of_int (month_len y m)) = day_number (y, m, month_len y m)"
    using assms month_len_bounds [of y m] by (intro days_from_civil_day_number) linarith+
  moreover have "day_number (y, m, month_len y m) + (d - month_len y m) = day_number (y, m, d)"
    by (simp add: day_number_def Let_def)
  ultimately show ?thesis using alpha_date_parse_fmt(1) [OF assms(1-4), of d] assms(6) by simp
qed

end
