(* ===== verification/Market_Hours.thy ===== *)
theory Market_Hours
  imports Civil_Date
begin

text \<open>
  The exchange calendar (\<^verbatim>\<open>core/src/calendar/market_hours.c\<close>): the start of the
  next trading session, with weekends only and with a holiday list of limited coverage. Both
  searches are instances of one interface, a day by day search that may be cut off.
\<close>

section \<open>The code\<close>

definition ALPHA_KST_OFFSET_SECONDS :: int where
  "ALPHA_KST_OFFSET_SECONDS = 32400"

definition SECONDS_PER_DAY :: int where
  "SECONDS_PER_DAY = 86400"

definition ALPHA_SESSION_CALENDAR_INSUFFICIENT :: int where
  "ALPHA_SESSION_CALENDAR_INSUFFICIENT = - 1"

definition floor_div :: "int \<Rightarrow> int \<Rightarrow> int" where
  "floor_div a b =
     (let q = a sdiv b
      in if a smod b \<noteq> 0 \<and> ((a < 0) \<noteq> (b < 0)) then q - 1 else q)"

definition is_weekend :: "int \<Rightarrow> bool" where
  "is_weekend epoch_day = (let weekday = ((epoch_day + 3) smod 7 + 7) smod 7 in weekday \<ge> 5)"

definition kst_day_of :: "int \<Rightarrow> int" where
  "kst_day_of from_epoch = floor_div (from_epoch + ALPHA_KST_OFFSET_SECONDS) SECONDS_PER_DAY"

definition session_start_epoch :: "int \<Rightarrow> int" where
  "session_start_epoch kst_day = kst_day * SECONDS_PER_DAY + 9 * 3600 - ALPHA_KST_OFFSET_SECONDS"

lemma smod_nonneg: "0 \<le> a \<Longrightarrow> 0 < b \<Longrightarrow> a smod b = a mod (b::int)"
  by (cases "a = 0") (simp_all add: signed_modulo_int_def signed_divide_int_def minus_mult_div_eq_mod)

lemma smod_eq: "0 < b \<Longrightarrow> a smod b = (if a \<ge> 0 then a mod b else - ((- a) mod (b::int)))"
proof -
  assume b: "0 < b"
  have "a smod b = - ((- a) mod b)" if "a < 0"
    using that b by (simp add: signed_modulo_int_def signed_divide_int_def minus_mult_div_eq_mod [symmetric])
  then show ?thesis using smod_nonneg b by simp
qed

lemma is_weekend_weekday: "is_weekend d \<longleftrightarrow> (d + 3) mod 7 \<ge> 5"
proof -
  define x w where "x = d + 3" and "w = x smod 7"
  have "w \<ge> - 6" "w mod 7 = x mod 7"
    by (auto simp: w_def smod_eq mod_minus_eq)
  then have "(w + 7) smod 7 = x mod 7" by (simp add: smod_nonneg)
  then show ?thesis by (simp add: is_weekend_def w_def x_def)
qed

lemma floor_div_correct: "0 < b \<Longrightarrow> floor_div a b = a div b"
proof -
  assume b: "0 < b"
  show ?thesis
  proof (cases "a \<ge> 0")
    case True
    then show ?thesis using b by (cases "a = 0") (simp_all add: floor_div_def signed_divide_int_def)
  next
    case False
    then have "a sdiv b = - ((- a) div b)" "a smod b = - ((- a) mod b)"
      using b by (simp_all add: signed_divide_int_def smod_eq)
    then show ?thesis using False b by (simp add: floor_div_def Let_def zdiv_zminus1_eq_if [of b "- a", simplified])
  qed
qed

text \<open>The loop of the weekend search ends on the next Monday at the latest.\<close>

function skip_weekend :: "int \<Rightarrow> int" where
  "skip_weekend day = (if is_weekend day then skip_weekend (day + 1) else day)"
  by pat_completeness auto
termination
proof (relation "measure (\<lambda>d. if is_weekend d then nat (7 - (d + 3) mod 7) else 0)")
  fix day assume "is_weekend day"
  then show "(day + 1, day) \<in> measure (\<lambda>d. if is_weekend d then nat (7 - (d + 3) mod 7) else 0)"
    by (simp add: is_weekend_weekday) presburger
qed simp

definition alpha_next_trading_session_start :: "int \<Rightarrow> int" where
  "alpha_next_trading_session_start from_epoch =
     session_start_epoch (skip_weekend (kst_day_of from_epoch + 1))"

fun is_holiday :: "int \<Rightarrow> int list \<Rightarrow> bool" where
  "is_holiday epoch_day [] = False"
| "is_holiday epoch_day (h # hs) =
     (if h = epoch_day then True
      else if h > epoch_day then False
      else is_holiday epoch_day hs)"

text \<open>The early return of the loop is \<open>None\<close>; the coverage bounds the number of
  rounds.\<close>

function skip_closed :: "int list \<Rightarrow> int \<Rightarrow> int \<Rightarrow> int option" where
  "skip_closed holiday_days calendar_max_day day =
     (if is_weekend day \<or> is_holiday day holiday_days then
        if day > calendar_max_day then None
        else skip_closed holiday_days calendar_max_day (day + 1)
      else Some day)"
  by pat_completeness auto
termination
  by (relation "measure (\<lambda>(hs, mx, d). nat (mx + 1 - d))") auto

definition alpha_next_trading_session_start_holiday_aware :: "int \<Rightarrow> int list \<Rightarrow> int \<Rightarrow> int" where
  "alpha_next_trading_session_start_holiday_aware from_epoch holiday_days calendar_max_day =
     (case skip_closed holiday_days calendar_max_day (kst_day_of from_epoch + 1) of
        None \<Rightarrow> ALPHA_SESSION_CALENDAR_INSUFFICIENT
      | Some day \<Rightarrow>
          if day > calendar_max_day then ALPHA_SESSION_CALENDAR_INSUFFICIENT
          else session_start_epoch day)"

declare skip_weekend.simps [simp del] skip_closed.simps [simp del]

section \<open>The interface of a session search\<close>

text \<open>A search looks at one day after the other: it stops at the first day that is open, and
  gives up at a closed day beyond its limit.\<close>

locale session_search =
  fixes closed :: "int \<Rightarrow> bool" and beyond :: "int \<Rightarrow> bool" and search :: "int \<Rightarrow> int option"
  assumes search_step: "search d = (if closed d then if beyond d then None else search (d + 1) else Some d)"
    and search_ends: "\<exists>k. \<not> closed (d + int k) \<or> beyond (d + int k)"
begin

text \<open>Induction over the days that are left until the search ends.\<close>

lemma search_induct:
  assumes stop: "\<And>d. \<not> closed d \<or> beyond d \<Longrightarrow> P d"
    and step: "\<And>d. closed d \<Longrightarrow> \<not> beyond d \<Longrightarrow> P (d + 1) \<Longrightarrow> P d"
  shows "P d"
proof -
  obtain k where "\<not> closed (d + int k) \<or> beyond (d + int k)" using search_ends by blast
  then show ?thesis
  proof (induction k arbitrary: d)
    case 0
    then show ?case by (intro stop) simp
  next
    case (Suc k)
    then show ?case using Suc.IH [of "d + 1"] stop [of d] step [of d] by (auto simp: ac_simps)
  qed
qed

lemma search_Some_all:
  "search d = Some e \<longrightarrow> d \<le> e \<and> \<not> closed e \<and> (\<forall>x. d \<le> x \<and> x < e \<longrightarrow> closed x)"
proof (induction d rule: search_induct)
  case (1 d)
  then show ?case using search_step [of d] by auto
next
  case (2 d)
  have "d \<le> x \<longleftrightarrow> x = d \<or> d + 1 \<le> x" for x by linarith
  then show ?case using 2 search_step [of d] by auto
qed

lemma search_None_all:
  "search d = None \<longrightarrow> (\<exists>e\<ge>d. beyond e \<and> (\<forall>x. d \<le> x \<and> x \<le> e \<longrightarrow> closed x))"
proof (induction d rule: search_induct)
  case (1 d)
  then show ?case using search_step [of d] by (auto intro!: exI [of _ d])
next
  case (2 d)
  have "d \<le> x \<longleftrightarrow> x = d \<or> d + 1 \<le> x" for x by linarith
  then show ?case using 2 search_step [of d] by (auto intro: order_trans [of d "d + 1"])
qed

lemma search_Some:
  assumes "search d = Some e"
  shows "d \<le> e" "\<not> closed e" "\<And>x. d \<le> x \<Longrightarrow> x < e \<Longrightarrow> closed x"
  using search_Some_all [of d e] assms by auto

lemma search_None:
  assumes "search d = None"
  obtains e where "d \<le> e" "beyond e" "\<And>x. d \<le> x \<Longrightarrow> x \<le> e \<Longrightarrow> closed x"
  using search_None_all [of d] assms by blast

end

section \<open>The two searches\<close>

lemma weekend_ends: "\<exists>k. \<not> is_weekend (d + int k)"
proof -
  have "\<not> is_weekend (d + int 0) \<or> \<not> is_weekend (d + int 1) \<or> \<not> is_weekend (d + int 2)"
    by (simp add: is_weekend_weekday) presburger
  then show ?thesis by blast
qed

interpretation weekend_search: session_search is_weekend "\<lambda>_. False" "\<lambda>d. Some (skip_weekend d)"
proof
  show "Some (skip_weekend d)
      = (if is_weekend d then if False then None else Some (skip_weekend (d + 1)) else Some d)" for d
    by (simp add: skip_weekend.simps [of d])
  show "\<exists>k. \<not> is_weekend (d + int k) \<or> False" for d
    using weekend_ends [of d] by simp
qed

interpretation holiday_search:
  session_search "\<lambda>d. is_weekend d \<or> is_holiday d hs" "\<lambda>d. d > mx" "skip_closed hs mx" for hs mx
proof
  show "skip_closed hs mx d
      = (if is_weekend d \<or> is_holiday d hs then if d > mx then None else skip_closed hs mx (d + 1)
         else Some d)" for d
    by (simp add: skip_closed.simps [of hs mx d])
  have "mx < d + int (nat (mx + 1 - d))" for d by linarith
  then show "\<exists>k. \<not> (is_weekend (d + int k) \<or> is_holiday (d + int k) hs) \<or> d + int k > mx" for d
    by blast
qed

definition open_day :: "int list \<Rightarrow> int \<Rightarrow> bool" where
  "open_day hs d \<longleftrightarrow> (d + 3) mod 7 < 5 \<and> d \<notin> set hs"

lemma is_holiday_sorted: "sorted hs \<Longrightarrow> is_holiday d hs \<longleftrightarrow> d \<in> set hs"
  by (induction hs) auto

lemma kst_day_of_bounds:
  "kst_day_of t * 86400 \<le> t + 32400" "t + 32400 < (kst_day_of t + 1) * 86400"
proof -
  have "kst_day_of t = (t + 32400) div 86400"
    by (simp add: kst_day_of_def SECONDS_PER_DAY_def ALPHA_KST_OFFSET_SECONDS_def floor_div_correct)
  then show "kst_day_of t * 86400 \<le> t + 32400" "t + 32400 < (kst_day_of t + 1) * 86400"
    by (simp_all add: algebra_simps)
qed

lemma session_start_epoch_midnight: "session_start_epoch d = d * 86400"
  by (simp add: session_start_epoch_def SECONDS_PER_DAY_def ALPHA_KST_OFFSET_SECONDS_def)

lemma skip_weekend_within: "skip_weekend d \<le> d + 2"
proof (rule ccontr)
  assume "\<not> skip_weekend d \<le> d + 2"
  then have "is_weekend d" "is_weekend (d + 1)" "is_weekend (d + 2)"
    using weekend_search.search_Some(3) [of d "skip_weekend d"] by simp_all
  then show False by (simp add: is_weekend_weekday) presburger
qed

lemma closed_iff: "sorted hs \<Longrightarrow> is_weekend d \<or> is_holiday d hs \<longleftrightarrow> \<not> open_day hs d"
  by (auto simp: open_day_def is_weekend_weekday is_holiday_sorted)

lemma midnight_not_sentinel: "day * 86400 \<noteq> ALPHA_SESSION_CALENDAR_INSUFFICIENT"
proof
  assume "day * 86400 = ALPHA_SESSION_CALENDAR_INSUFFICIENT"
  moreover have "even (day * 86400)" by simp
  ultimately show False by (simp add: ALPHA_SESSION_CALENDAR_INSUFFICIENT_def)
qed

lemma holiday_aware_found:
  assumes "sorted hs" "alpha_next_trading_session_start_holiday_aware t hs mx \<noteq> ALPHA_SESSION_CALENDAR_INSUFFICIENT"
  shows "\<exists>day. alpha_next_trading_session_start_holiday_aware t hs mx = day * 86400
    \<and> kst_day_of t < day \<and> day \<le> mx \<and> open_day hs day \<and> (\<forall>d. kst_day_of t < d \<and> d < day \<longrightarrow> \<not> open_day hs d)"
proof -
  obtain day where s: "skip_closed hs mx (kst_day_of t + 1) = Some day" "day \<le> mx"
    "alpha_next_trading_session_start_holiday_aware t hs mx = day * 86400"
    using assms(2)
    by (auto simp: alpha_next_trading_session_start_holiday_aware_def session_start_epoch_midnight not_less
        split: option.splits if_splits)
  note f = holiday_search.search_Some [OF s(1), unfolded closed_iff [OF assms(1)]]
  have "kst_day_of t < day" using f(1) by simp
  moreover have "\<forall>d. kst_day_of t < d \<and> d < day \<longrightarrow> \<not> open_day hs d" using f(3) by simp
  ultimately show ?thesis using s f(2) by blast
qed

lemma holiday_aware_missing:
  assumes "sorted hs" "alpha_next_trading_session_start_holiday_aware t hs mx = ALPHA_SESSION_CALENDAR_INSUFFICIENT"
  shows "\<forall>d. kst_day_of t < d \<and> d \<le> mx \<longrightarrow> \<not> open_day hs d"
proof (cases "skip_closed hs mx (kst_day_of t + 1)")
  case None
  then obtain e where "kst_day_of t + 1 \<le> e" "e > mx" and "\<And>x. kst_day_of t + 1 \<le> x \<Longrightarrow> x \<le> e \<Longrightarrow> \<not> open_day hs x"
    using holiday_search.search_None [OF None] unfolding closed_iff [OF assms(1)] by blast
  then show ?thesis by simp
next
  case (Some day)
  note f = holiday_search.search_Some(3) [OF Some, unfolded closed_iff [OF assms(1)]]
  have "day > mx"
    using assms(2) Some midnight_not_sentinel [of day]
    by (auto simp: alpha_next_trading_session_start_holiday_aware_def session_start_epoch_midnight split: if_splits)
  then show ?thesis using f by simp
qed

section \<open>Properties\<close>

text \<open>
  C34. The weekend search always returns the start (09:00 KST, which is midnight UTC) of a
  working day: a later day of the Korean calendar than the one of the query, at most three
  days later, with only Saturdays and Sundays in between. The start is more than nine hours
  after the query.
\<close>

theorem alpha_next_trading_session_start_spec:
  "\<exists>day. alpha_next_trading_session_start t = day * 86400
     \<and> kst_day_of t < day \<and> day \<le> kst_day_of t + 3
     \<and> (day + 3) mod 7 < 5 \<and> (\<forall>d. kst_day_of t < d \<and> d < day \<longrightarrow> (d + 3) mod 7 \<ge> 5)
     \<and> day * 86400 > t + 32400"
proof (intro exI conjI allI impI)
  let ?day = "skip_weekend (kst_day_of t + 1)"
  note s = weekend_search.search_Some [of "kst_day_of t + 1" ?day, OF refl]
  show "alpha_next_trading_session_start t = ?day * 86400"
    by (simp add: alpha_next_trading_session_start_def session_start_epoch_midnight)
  show le: "kst_day_of t < ?day" using s(1) by linarith
  show "?day \<le> kst_day_of t + 3" using skip_weekend_within [of "kst_day_of t + 1"] by linarith
  show "(?day + 3) mod 7 < 5" using s(2) by (simp add: is_weekend_weekday)
  show "(d + 3) mod 7 \<ge> 5" if "kst_day_of t < d \<and> d < ?day" for d
    using s(3) [of d] that by (simp add: is_weekend_weekday)
  have "(kst_day_of t + 1) * 86400 \<le> ?day * 86400" using le by simp
  then show "?day * 86400 > t + 32400" using kst_day_of_bounds(2) [of t] by simp
qed

theorem alpha_next_trading_session_start_spec_witness:
  "kst_day_of 1718323200 < 19891 \<and> 19891 \<le> kst_day_of 1718323200 + 3 \<and> is_weekend 19890"
proof -
  have s: "alpha_next_trading_session_start 1718323200 = 19891 * 86400" by code_simp
  have k: "kst_day_of 1718323200 = 19888" by code_simp
  show ?thesis
    using alpha_next_trading_session_start_spec [of 1718323200] unfolding s k
    by (auto simp: is_weekend_weekday)
qed

text \<open>
  C8. The holiday search is exact within the coverage of the calendar: it returns the start
  of the first day after the day of the query that is neither a weekend nor a holiday, when
  there is one up to the last covered day, and otherwise the sentinel, which is no session
  start. It never answers with an uncovered day, and never with a start earlier than the
  weekend search.
\<close>

theorem holiday_aware_session_exact:
  fixes t mx :: int
  assumes "sorted hs"
  defines "r \<equiv> alpha_next_trading_session_start_holiday_aware t hs mx"
  shows "(r = ALPHA_SESSION_CALENDAR_INSUFFICIENT \<and> (\<forall>d. kst_day_of t < d \<and> d \<le> mx \<longrightarrow> \<not> open_day hs d))
       \<or> (\<exists>day. r = day * 86400 \<and> r \<noteq> ALPHA_SESSION_CALENDAR_INSUFFICIENT
            \<and> kst_day_of t < day \<and> day \<le> mx \<and> open_day hs day
            \<and> (\<forall>d. kst_day_of t < d \<and> d < day \<longrightarrow> \<not> open_day hs d)
            \<and> r \<ge> alpha_next_trading_session_start t)"
proof (cases "r = ALPHA_SESSION_CALENDAR_INSUFFICIENT")
  case True
  then show ?thesis using holiday_aware_missing [OF assms(1)] unfolding r_def by blast
next
  case False
  then obtain day where day: "r = day * 86400" "kst_day_of t < day" "day \<le> mx" "open_day hs day"
    "\<forall>d. kst_day_of t < d \<and> d < day \<longrightarrow> \<not> open_day hs d"
    using holiday_aware_found [OF assms(1)] unfolding r_def by blast
  have "skip_weekend (kst_day_of t + 1) \<le> day"
    using weekend_search.search_Some(3) [of "kst_day_of t + 1" "skip_weekend (kst_day_of t + 1)" day] day(2,4)
    by (force simp: open_day_def is_weekend_weekday)
  then have "r \<ge> alpha_next_trading_session_start t"
    by (simp add: day(1) alpha_next_trading_session_start_def session_start_epoch_midnight)
  then show ?thesis using False day by blast
qed

theorem holiday_aware_session_exact_witness:
  "alpha_next_trading_session_start_holiday_aware 1718323200 [19891, 19892] 19900 = 19893 * 86400
   \<and> alpha_next_trading_session_start_holiday_aware 1718323200 [19891, 19892] 19900
     \<ge> alpha_next_trading_session_start 1718323200"
proof -
  have "alpha_next_trading_session_start_holiday_aware 1718323200 [19891, 19892] 19900 = 19893 * 86400"
    by code_simp
  then show ?thesis
    using holiday_aware_session_exact [of "[19891, 19892]" 1718323200 19900]
    by (auto simp: ALPHA_SESSION_CALENDAR_INSUFFICIENT_def)
qed

end
