(* ===== verification/Market_Data.thy ===== *)
theory Market_Data
  imports Decimal_Rounding
begin

text \<open>
  Market data normalisation (\<^verbatim>\<open>core/src/market_data/market_data.c\<close>): instrument
  identifiers, and the percentage change of a price with its plausibility bound.
\<close>

section \<open>Instrument identifiers\<close>

fun market_suffix :: "alpha_market_t \<Rightarrow> string" where
  "market_suffix ALPHA_MARKET_KOSPI = ''KS''"
| "market_suffix ALPHA_MARKET_KOSDAQ = ''KQ''"
| "market_suffix ALPHA_MARKET_NYSE = ''US''"
| "market_suffix ALPHA_MARKET_NASDAQ = ''US''"

definition suffix_market :: "string \<Rightarrow> alpha_market_t" where
  "suffix_market suffix =
     (if suffix = ''KS'' then ALPHA_MARKET_KOSPI
      else if suffix = ''KQ'' then ALPHA_MARKET_KOSDAQ
      else if suffix = ''US'' then ALPHA_MARKET_NYSE
      else ALPHA_MARKET_KOSPI)"

text \<open>The text stored in the output buffer is the second component; with \<open>n = 0\<close>
  \<^verbatim>\<open>snprintf\<close> stores nothing. It returns the length of the whole text.\<close>

definition alpha_to_instrument_id ::
    "string option \<Rightarrow> alpha_market_t \<Rightarrow> bool \<Rightarrow> nat \<Rightarrow> alpha_err_t \<times> string option" where
  "alpha_to_instrument_id ticker market out n =
     (case ticker of None \<Rightarrow> (ALPHA_ERR_INVALID_ARG, None)
      | Some t \<Rightarrow>
        if \<not> out then (ALPHA_ERR_INVALID_ARG, None)
        else let full = t @ ''.'' @ market_suffix market;
                 stored = (if n = 0 then None else Some (snprintf n full))
             in if length full \<ge> n then (ALPHA_ERR_RANGE, stored) else (ALPHA_OK, stored))"

text \<open>\<^verbatim>\<open>strrchr\<close>: the position of the last occurrence.\<close>

fun strrchr :: "string \<Rightarrow> char \<Rightarrow> nat option" where
  "strrchr [] c = None"
| "strrchr (x # xs) c =
     (case strrchr xs c of Some i \<Rightarrow> Some (Suc i) | None \<Rightarrow> if x = c then Some 0 else None)"

definition alpha_from_instrument_id ::
    "string option \<Rightarrow> bool \<Rightarrow> nat \<Rightarrow> bool \<Rightarrow> alpha_err_t \<times> (string \<times> alpha_market_t) option" where
  "alpha_from_instrument_id instrument_id raw_out raw_n market_out =
     (case instrument_id of None \<Rightarrow> (ALPHA_ERR_INVALID_ARG, None)
      | Some s \<Rightarrow>
        if \<not> raw_out \<or> \<not> market_out then (ALPHA_ERR_INVALID_ARG, None)
        else let (raw_len, suffix) =
                   (case strrchr s (CHR ''.'') of None \<Rightarrow> (length s, ''KS'')
                    | Some dot \<Rightarrow> (dot, drop (dot + 1) s))
             in if raw_len \<ge> raw_n then (ALPHA_ERR_RANGE, None)
                else (ALPHA_OK, Some (take raw_len s, suffix_market suffix)))"

section \<open>Percentage changes\<close>

definition ALPHA_MAX_ABS_CHANGE_PCT :: double where
  "ALPHA_MAX_ABS_CHANGE_PCT = lit (999999 / 1000)"

text \<open>The two outputs: the flag when it is set, and the value when it is set.\<close>

definition alpha_sanitize_change_pct ::
    "double \<Rightarrow> bool \<Rightarrow> bool \<Rightarrow> alpha_err_t \<times> bool option \<times> double option" where
  "alpha_sanitize_change_pct value has_value out =
     (if \<not> has_value \<or> \<not> out then (ALPHA_ERR_INVALID_ARG, None, None)
      else if \<not> isfinite value \<or> \<bar>value\<bar> > ALPHA_MAX_ABS_CHANGE_PCT then (ALPHA_OK, Some False, None)
      else (ALPHA_OK, Some True, Some (alpha_round_dp value 3)))"

definition alpha_compute_change_pct ::
    "double \<Rightarrow> bool \<Rightarrow> double \<Rightarrow> bool \<Rightarrow> bool \<Rightarrow> alpha_err_t \<times> bool option \<times> double option" where
  "alpha_compute_change_pct current has_previous previous has_value out =
     (if \<not> has_value \<or> \<not> out then (ALPHA_ERR_INVALID_ARG, None, None)
      else if \<not> has_previous \<or> previous \<le> 0 \<or> \<not> isfinite current \<or> \<not> isfinite previous
        then (ALPHA_OK, Some False, None)
      else alpha_sanitize_change_pct (((current - previous) / previous) * lit 100) has_value out)"

section \<open>Lemmas\<close>

lemma strrchr_append: "c \<notin> set t \<Longrightarrow> strrchr (s @ c # t) c = Some (length s)"
proof -
  assume c: "c \<notin> set t"
  then have "strrchr t c = None" by (induction t) auto
  then show ?thesis by (induction s) auto
qed

lemma market_suffix_no_dot: "CHR ''.'' \<notin> set (market_suffix m)"
  by (cases m) auto

lemma length_market_suffix: "length (market_suffix m) = 2"
  by (cases m) auto

lemma sanitize_value:
  assumes "alpha_sanitize_change_pct value True True = (e, flag, Some v)"
  shows "\<bar>v\<bar> \<le> ALPHA_MAX_ABS_CHANGE_PCT" "isfinite v" "flag = Some True" "e = ALPHA_OK"
proof -
  have v: "isfinite value" "\<not> \<bar>value\<bar> > ALPHA_MAX_ABS_CHANGE_PCT" "v = alpha_round_dp value 3"
    "flag = Some True" "e = ALPHA_OK"
    using assms by (auto simp: alpha_sanitize_change_pct_def split: if_splits)
  have m: "ALPHA_MAX_ABS_CHANGE_PCT = lit (of_int 999999 / 10 ^ 3)"
    by (simp add: ALPHA_MAX_ABS_CHANGE_PCT_def)
  have "isfinite ALPHA_MAX_ABS_CHANGE_PCT"
    using decimal_small(1) [of 999999 3] by (simp add: m lit_def isfinite_mk)
  then have "\<bar>value\<bar> \<le> lit (of_int 999999 / 10 ^ 3)"
    unfolding m [symmetric] using v(1,2) by (simp add: not_less_double isfinite_not_nan)
  note le = alpha_round_dp_abs_le [OF v(1) _ _ _ this]
  show "\<bar>v\<bar> \<le> ALPHA_MAX_ABS_CHANGE_PCT" "isfinite v" "flag = Some True" "e = ALPHA_OK"
    using le v by (simp_all add: m)
qed

section \<open>Properties\<close>

text \<open>
  C36. An instrument identifier keeps its ticker and its market: whenever the identifier
  fits its buffer, splitting it gives the ticker back, also when the ticker contains dots,
  and the market up to the two American exchanges, which share a suffix. A buffer that is
  too small is reported as a range error, exactly when the text with its terminator
  exceeds it.
\<close>

theorem instrument_id_roundtrip:
  assumes "length ticker < raw_n"
  shows "(n \<le> length ticker + 3 \<longrightarrow> fst (alpha_to_instrument_id (Some ticker) market True n) = ALPHA_ERR_RANGE)
       \<and> (length ticker + 3 < n \<longrightarrow>
           (\<exists>s. alpha_to_instrument_id (Some ticker) market True n = (ALPHA_OK, Some s)
              \<and> alpha_from_instrument_id (Some s) True raw_n True =
                  (ALPHA_OK, Some (ticker, if market = ALPHA_MARKET_NASDAQ then ALPHA_MARKET_NYSE else market))))"
proof -
  have "suffix_market (market_suffix market)
      = (if market = ALPHA_MARKET_NASDAQ then ALPHA_MARKET_NYSE else market)"
    by (cases market) (simp_all add: suffix_market_def)
  then show ?thesis
    using assms strrchr_append [OF market_suffix_no_dot, of ticker market]
    by (auto simp: alpha_to_instrument_id_def alpha_from_instrument_id_def Let_def snprintf_def
        length_market_suffix)
qed

theorem instrument_id_roundtrip_witness:
  "\<exists>s. alpha_to_instrument_id (Some ''BRK.B'') ALPHA_MARKET_NASDAQ True 16 = (ALPHA_OK, Some s)
     \<and> alpha_from_instrument_id (Some s) True 16 True = (ALPHA_OK, Some (''BRK.B'', ALPHA_MARKET_NYSE))"
  using instrument_id_roundtrip [of "''BRK.B''" 16 16 ALPHA_MARKET_NASDAQ] by simp

text \<open>
  A percentage change is never NaN, infinite or implausible: whatever the two prices,
  a value is produced only for a positive finite previous price, and then it is finite and
  at most 999.999 in size, also after it has been rounded to three places.
\<close>

lemma change_pct_bounded:
  assumes "alpha_compute_change_pct current has_previous previous True True = (e, flag, Some v)"
  shows "e = ALPHA_OK \<and> flag = Some True \<and> isfinite v \<and> \<bar>v\<bar> \<le> ALPHA_MAX_ABS_CHANGE_PCT
       \<and> has_previous \<and> isfinite current \<and> isfinite previous \<and> 0 < previous"
proof -
  from assms have c: "has_previous" "\<not> previous \<le> 0" "isfinite current" "isfinite previous" and
    s: "alpha_sanitize_change_pct ((current - previous) / previous * lit 100) True True = (e, flag, Some v)"
    by (auto simp: alpha_compute_change_pct_def split: if_splits)
  then show ?thesis
    using sanitize_value [OF s] by (simp add: not_le_double isfinite_not_nan)
qed

end
