(* ===== verification/Fifo.thy ===== *)
theory Fifo
  imports Alpha_Prelude
begin

text \<open>
  The interface of a first-in first-out queue, and its clients' lemmas. The queues of the
  sources are arrays with two positions; the components that have one interpret the interface
  on it.
\<close>

locale fifo =
  fixes inv :: "'q \<Rightarrow> bool" and items :: "'q \<Rightarrow> 'a list"
    and space :: "'q \<Rightarrow> nat" and push :: "'a \<Rightarrow> 'q \<Rightarrow> 'q" and pop :: "'q \<Rightarrow> ('a \<times> 'q) option"
  assumes push_inv: "inv q \<Longrightarrow> 0 < space q \<Longrightarrow> inv (push x q)"
    and push_items: "inv q \<Longrightarrow> 0 < space q \<Longrightarrow> items (push x q) = items q @ [x]"
    and push_space: "inv q \<Longrightarrow> 0 < space q \<Longrightarrow> space q \<le> Suc (space (push x q))"
    and pop_None: "inv q \<Longrightarrow> pop q = None \<longleftrightarrow> items q = []"
    and pop_Some: "inv q \<Longrightarrow> pop q = Some (x, q') \<Longrightarrow>
      inv q' \<and> items q = x # items q' \<and> space q \<le> space q'"
begin

lemma pop_head:
  assumes "inv q"
  shows "pop q = (case items q of [] \<Rightarrow> None | x # xs \<Rightarrow> Some (x, snd (the (pop q))))"
  using assms pop_None [of q] pop_Some [of q]
  by (cases "pop q") (auto split: list.splits)

text \<open>A sequence of operations: \<open>Some x\<close> pushes, \<open>None\<close> pops when there is
  something to pop. The values popped are the ones pushed, in their order.\<close>

fun ops :: "'a option list \<Rightarrow> 'q \<Rightarrow> 'a list \<times> 'q" where
  "ops [] q = ([], q)"
| "ops (Some x # os) q = ops os (push x q)"
| "ops (None # os) q =
     (case pop q of None \<Rightarrow> ops os q | Some (x, q') \<Rightarrow> (case ops os q' of (xs, q'') \<Rightarrow> (x # xs, q'')))"

definition pushes :: "'a option list \<Rightarrow> 'a list" where
  "pushes os = List.map_filter (\<lambda>x. x) os"

lemma pushes_simps [simp]:
  "pushes [] = []" "pushes (Some x # os) = x # pushes os" "pushes (None # os) = pushes os"
  by (simp_all add: pushes_def)

theorem ops_order:
  assumes "inv q" "length (pushes os) \<le> space q" "ops os q = (xs, q')"
  shows "inv q' \<and> xs @ items q' = items q @ pushes os"
  using assms
proof (induction os arbitrary: q xs)
  case (Cons oper os)
  show ?case
  proof (cases oper)
    case (Some x)
    have "inv (push x q)" "items (push x q) = items q @ [x]" "length (pushes os) \<le> space (push x q)"
      using Cons.prems Some push_inv [of q x] push_items [of q x] push_space [of q x] by auto
    then show ?thesis using Cons.IH [of "push x q" xs] Cons.prems(3) Some by simp
  next
    case None
    show ?thesis
    proof (cases "pop q")
      case None
      then show ?thesis using Cons \<open>oper = None\<close> by simp
    next
      case (Some r)
      then obtain x q1 where q1: "pop q = Some (x, q1)" by (cases r) auto
      then obtain ys where "ops os q1 = (ys, q')" "xs = x # ys"
        using Cons.prems(3) None by (auto split: prod.splits)
      then show ?thesis
        using Cons.IH [of q1 ys] pop_Some [OF Cons.prems(1) q1] Cons.prems(2) None by auto
    qed
  qed
qed simp

end

end
