(* ===== verification/Backtest_Metrics.thy ===== *)
theory Backtest_Metrics
  imports Decimal_Rounding Fifo
begin

text \<open>
  Backtest records and metrics (\<^verbatim>\<open>core/include/alpha/backtest.h\<close>,
  \<^verbatim>\<open>core/src/backtest/metrics.c\<close>): returns, Sharpe ratio, maximum drawdown, win rate
  and average holding time of a run, in the order of operations of the source.
  \<^verbatim>\<open>pow\<close> of the C library has no prescribed accuracy and is a parameter; the
  results of the two \<^verbatim>\<open>malloc\<close> calls are parameters too.
\<close>

section \<open>The records\<close>

record alpha_trade_record_t =
  tr_date :: int
  tr_side :: alpha_side_t
  tr_ticker :: string
  tr_price :: double
  tr_quantity :: int
  tr_commission :: double
  tr_tax :: double
  tr_slippage_cost :: double
  tr_total_cost :: double
  tr_pnl :: double

record alpha_daily_snapshot_t =
  sn_date :: int
  sn_close_price :: double
  sn_cash :: double
  sn_position_qty :: int
  sn_position_value :: double
  sn_portfolio_value :: double
  sn_daily_return_pct :: double

record alpha_backtest_metrics_t =
  total_return_pct :: double
  annual_return_pct :: double
  sharpe_ratio :: double
  max_drawdown_pct :: double
  win_rate :: double
  total_trades :: int
  avg_holding_days :: double
  baseline_return_pct :: double
  excess_return_pct :: double

section \<open>The code\<close>

definition TRADING_DAYS_PER_YEAR :: double where
  "TRADING_DAYS_PER_YEAR = lit 252"

definition compute_sharpe :: "double list \<Rightarrow> double" where
  "compute_sharpe returns =
     (let n = int (length returns)
      in if n < 2 then 0
         else let sum = foldl (\<lambda>s r. s + r) 0 returns;
                  mean = sum / of_i64 n;
                  sq = foldl (\<lambda>s r. let d = r - mean in s + d * d) 0 returns;
                  variance = sq / of_i64 (n - 1);
                  std = sqrt_d variance
              in if std \<le> 0 then 0 else (mean / std) * sqrt_d TRADING_DAYS_PER_YEAR)"

text \<open>One round of the drawdown loop; the state is the running peak and the drawdown.\<close>

definition mdd_step :: "double \<times> double \<Rightarrow> alpha_daily_snapshot_t \<Rightarrow> double \<times> double" where
  "mdd_step = (\<lambda>(peak, mdd) sn.
     let value = sn_portfolio_value sn;
         peak = (if value > peak then value else peak);
         dd = ((value - peak) / peak) * lit 100
     in (peak, if dd < mdd then dd else mdd))"

definition compute_mdd :: "alpha_daily_snapshot_t list \<Rightarrow> double" where
  "compute_mdd snapshots = snd (foldl mdd_step (sn_portfolio_value (hd snapshots), 0) snapshots)"

text \<open>The queue of buy dates: the scratch array with its two positions.\<close>

record buy_queue_t =
  bq_array :: "int list"
  bq_head :: nat
  bq_tail :: nat

definition bq_push :: "int \<Rightarrow> buy_queue_t \<Rightarrow> buy_queue_t" where
  "bq_push d q = q\<lparr>bq_array := (bq_array q)[bq_tail q := d], bq_tail := bq_tail q + 1\<rparr>"

definition bq_pop :: "buy_queue_t \<Rightarrow> (int \<times> buy_queue_t) option" where
  "bq_pop q = (if bq_head q < bq_tail q
               then Some (bq_array q ! bq_head q, q\<lparr>bq_head := bq_head q + 1\<rparr>) else None)"

fun holding_loop :: "alpha_trade_record_t list \<Rightarrow> buy_queue_t \<Rightarrow> int \<Rightarrow> int \<Rightarrow> int \<times> int" where
  "holding_loop [] q total_holding matched = (total_holding, matched)"
| "holding_loop (t # ts) q total_holding matched =
     (if tr_side t = ALPHA_SIDE_BUY then holding_loop ts (bq_push (tr_date t) q) total_holding matched
      else case bq_pop q of
        None \<Rightarrow> holding_loop ts q total_holding matched
      | Some (d, q') \<Rightarrow>
          let holding = tr_date t - d
          in holding_loop ts q' (total_holding + (if holding > 0 then holding else 0)) (matched + 1))"

definition compute_avg_holding_days :: "alpha_trade_record_t list \<Rightarrow> int list \<Rightarrow> double" where
  "compute_avg_holding_days trades buy_queue =
     (case holding_loop trades \<lparr>bq_array = buy_queue, bq_head = 0, bq_tail = 0\<rparr> 0 0 of
        (total_holding, matched) \<Rightarrow>
          if matched \<noteq> 0 then of_i64 total_holding / of_i64 matched else 0)"

definition count_sells :: "alpha_trade_record_t list \<Rightarrow> int \<times> int" where
  "count_sells trades =
     foldl (\<lambda>(sells, wins) t.
        if tr_side t = ALPHA_SIDE_SELL
        then (sells + 1, if tr_pnl t > 0 then wins + 1 else wins)
        else (sells, wins)) (0, 0) trades"

definition metrics_zero :: alpha_backtest_metrics_t where
  "metrics_zero = \<lparr>total_return_pct = 0, annual_return_pct = 0, sharpe_ratio = 0,
     max_drawdown_pct = 0, win_rate = 0, total_trades = 0, avg_holding_days = 0,
     baseline_return_pct = 0, excess_return_pct = 0\<rparr>"

text \<open>\<open>heap_returns\<close> and \<open>heap_queue\<close> say whether the \<^verbatim>\<open>malloc\<close> of more
  than 512 entries succeeds; \<open>scratch\<close> is the uninitialised array of the queue.\<close>

definition alpha_compute_metrics ::
    "(double \<Rightarrow> double \<Rightarrow> double) \<Rightarrow> bool \<Rightarrow> bool \<Rightarrow> int list \<Rightarrow> alpha_daily_snapshot_t list \<Rightarrow>
     alpha_trade_record_t list \<Rightarrow> int \<Rightarrow> alpha_backtest_metrics_t" where
  "alpha_compute_metrics pow_d heap_returns heap_queue scratch snapshots trades initial_capital =
     (let ns = length snapshots; nt = length trades
      in if ns = 0 then metrics_zero
         else
           let initial = of_i64 initial_capital;
               final_value = sn_portfolio_value (snapshots ! (ns - 1));
               total_return = (final_value - initial) / initial;
               trp = total_return * lit 100;
               arp = (if ns > 1 \<and> total_return > - 1
                      then (pow_d (1 + total_return) (TRADING_DAYS_PER_YEAR / of_i64 (int ns)) - 1) * lit 100
                      else 0);
               sharpe = (if ns \<le> 512 \<or> heap_returns
                         then compute_sharpe (map (\<lambda>s. sn_daily_return_pct s / lit 100) snapshots)
                         else 0);
               mdd = compute_mdd snapshots;
               wr = (case count_sells trades of (sells, wins) \<Rightarrow>
                       if sells > 0 then (of_i64 wins / of_i64 sells) * lit 100 else 0);
               ahd = (if nt > 0 \<and> (nt \<le> 512 \<or> heap_queue)
                      then compute_avg_holding_days trades scratch else 0);
               first_price = sn_close_price (snapshots ! 0);
               last_price = sn_close_price (snapshots ! (ns - 1));
               brp = (if first_price > 0 then ((last_price / first_price) - 1) * lit 100 else 0);
               erp = trp - brp
           in \<lparr>total_return_pct = alpha_round_dp trp 4,
               annual_return_pct = alpha_round_dp arp 4,
               sharpe_ratio = alpha_round_dp sharpe 4,
               max_drawdown_pct = alpha_round_dp mdd 4,
               win_rate = alpha_round_dp wr 4,
               total_trades = int nt,
               avg_holding_days = alpha_round_dp ahd 1,
               baseline_return_pct = alpha_round_dp brp 4,
               excess_return_pct = alpha_round_dp erp 4\<rparr>)"

section \<open>The queue of buy dates\<close>

definition bq_inv :: "buy_queue_t \<Rightarrow> bool" where
  "bq_inv q \<longleftrightarrow> bq_head q \<le> bq_tail q \<and> bq_tail q \<le> length (bq_array q)"

definition bq_items :: "buy_queue_t \<Rightarrow> int list" where
  "bq_items q = drop (bq_head q) (take (bq_tail q) (bq_array q))"

definition bq_space :: "buy_queue_t \<Rightarrow> nat" where
  "bq_space q = length (bq_array q) - bq_tail q"

interpretation buy_queue: fifo bq_inv bq_items bq_space bq_push bq_pop
proof
  fix q :: buy_queue_t and x :: int
  assume q: "bq_inv q" "0 < bq_space q"
  then show "bq_inv (bq_push x q)" "bq_space q \<le> Suc (bq_space (bq_push x q))"
    by (auto simp: bq_inv_def bq_push_def bq_space_def)
  show "bq_items (bq_push x q) = bq_items q @ [x]"
    using q by (simp add: bq_inv_def bq_push_def bq_space_def bq_items_def take_Suc_conv_app_nth)
next
  fix q :: buy_queue_t
  assume q: "bq_inv q"
  then show "bq_pop q = None \<longleftrightarrow> bq_items q = []"
    by (auto simp: bq_pop_def bq_inv_def bq_items_def)
  fix x q'
  assume p: "bq_pop q = Some (x, q')"
  then have "bq_head q < length (take (bq_tail q) (bq_array q))"
    using q by (auto simp: bq_pop_def bq_inv_def split: if_splits)
  from Cons_nth_drop_Suc [OF this] show "bq_inv q' \<and> bq_items q = x # bq_items q' \<and> bq_space q \<le> bq_space q'"
    using q p by (auto simp: bq_pop_def bq_inv_def bq_items_def bq_space_def split: if_splits)
qed

section \<open>Drawdown\<close>

definition sound_value :: "double \<Rightarrow> bool" where
  "sound_value v \<longleftrightarrow> is_double v \<and> isfinite v \<and> 0 \<le> val v"

lemma drawdown_bounds:
  assumes "sound_value value" "sound_value peak" "0 < val peak" "value \<le> peak"
  defines "dd \<equiv> ((value - peak) / peak) * lit 100"
  shows "isfinite dd" "is_double dd" "- 100 \<le> val dd" "val dd \<le> 0"
proof -
  have v: "isfinite value" "0 \<le> val value" and p: "isfinite peak" "is_double peak"
    using assms by (simp_all add: sound_value_def)
  have le: "val value \<le> val peak" using assms(4) v p by (simp add: le_finite)
  obtain s1 where d: "value - peak = mk s1 (val value - val peak)" using minus_mk v p by blast
  note d = mk_between [OF d, of "- peak" 0, simplified, OF p(2,1)]
  have "isfinite (value - peak)" "- val peak \<le> val (value - peak)" "val (value - peak) \<le> 0"
    using d le v by simp_all
  moreover from this obtain s2 where q: "(value - peak) / peak = mk s2 (val (value - peak) / val peak)"
    using divide_mk [of "value - peak" peak] p assms(3) by auto
  ultimately have q: "isfinite ((value - peak) / peak)" "- 1 \<le> val ((value - peak) / peak)"
      "val ((value - peak) / peak) \<le> 0"
    using mk_between [OF q, of "- 1" 0] assms(3) by (simp_all add: divide_le_eq le_divide_eq)
  then obtain s3 where t: "dd = mk s3 (val ((value - peak) / peak) * 100)"
    using times_mk [of "(value - peak) / peak" "lit 100"] by (auto simp: dd_def)
  show "isfinite dd" "is_double dd" "- 100 \<le> val dd" "val dd \<le> 0"
    using mk_between [OF t, of "- lit 100" 0] q by simp_all
qed

text \<open>The loop invariant: the peak is positive and the largest value so far, and the
  drawdown stays between -100 and 0.\<close>

definition mdd_inv :: "double \<times> double \<Rightarrow> bool" where
  "mdd_inv = (\<lambda>(peak, mdd). sound_value peak \<and> 0 < val peak \<and>
     isfinite mdd \<and> is_double mdd \<and> - 100 \<le> val mdd \<and> val mdd \<le> 0)"

lemma mdd_step_inv:
  assumes "mdd_inv st" "sound_value (sn_portfolio_value sn)"
  shows "mdd_inv (mdd_step st sn)" "fst st \<le> fst (mdd_step st sn)"
    "sn_portfolio_value sn \<le> fst (mdd_step st sn)" "snd (mdd_step st sn) \<le> snd st"
proof -
  obtain peak mdd where st: "st = (peak, mdd)" by (cases st)
  let ?v = "sn_portfolio_value sn"
  let ?p = "if ?v > peak then ?v else peak"
  have peak: "sound_value peak" "0 < val peak" and v: "sound_value ?v"
    and mdd: "isfinite mdd" "is_double mdd" "- 100 \<le> val mdd" "val mdd \<le> 0"
    using assms by (simp_all add: st mdd_inv_def)
  have fin: "isfinite peak" "isfinite ?v" using peak v by (simp_all add: sound_value_def)
  have p: "sound_value ?p" "0 < val ?p" "?v \<le> ?p" "peak \<le> ?p"
    using peak v fin by (auto simp: sound_value_def less_finite le_finite)
  note dd = drawdown_bounds [OF v p(1-3)]
  show "mdd_inv (mdd_step st sn)" "fst st \<le> fst (mdd_step st sn)" "?v \<le> fst (mdd_step st sn)"
    "snd (mdd_step st sn) \<le> snd st"
    using p dd mdd fin
    by (auto simp: st mdd_inv_def mdd_step_def Let_def le_finite less_finite)
qed

lemma mdd_fold_inv:
  "mdd_inv st \<Longrightarrow> \<forall>sn\<in>set sns. sound_value (sn_portfolio_value sn) \<Longrightarrow> mdd_inv (foldl mdd_step st sns)"
  by (induction sns arbitrary: st) (simp_all add: mdd_step_inv)

lemma compute_mdd_bounds:
  assumes "snapshots \<noteq> []" "\<forall>sn\<in>set snapshots. sound_value (sn_portfolio_value sn)"
    "0 < val (sn_portfolio_value (hd snapshots))"
  shows "isfinite (compute_mdd snapshots)" "- 100 \<le> val (compute_mdd snapshots)"
    "val (compute_mdd snapshots) \<le> 0"
proof -
  have "mdd_inv (sn_portfolio_value (hd snapshots), 0)"
    using assms by (simp add: mdd_inv_def)
  from mdd_fold_inv [OF this assms(2)]
  show "isfinite (compute_mdd snapshots)" "- 100 \<le> val (compute_mdd snapshots)"
    "val (compute_mdd snapshots) \<le> 0"
    by (simp_all add: compute_mdd_def mdd_inv_def split_def)
qed

section \<open>Holding times\<close>

text \<open>Reference: the buys that are still open are matched in their order.\<close>

fun matched_pairs :: "int list \<Rightarrow> alpha_trade_record_t list \<Rightarrow> (int \<times> int) list" where
  "matched_pairs open_buys [] = []"
| "matched_pairs open_buys (t # ts) =
     (if tr_side t = ALPHA_SIDE_BUY then matched_pairs (open_buys @ [tr_date t]) ts
      else case open_buys of [] \<Rightarrow> matched_pairs [] ts
           | b # bs \<Rightarrow> (b, tr_date t) # matched_pairs bs ts)"

definition holding :: "int \<times> int \<Rightarrow> int" where
  "holding p = max 0 (snd p - fst p)"

definition dates_of :: "alpha_side_t \<Rightarrow> alpha_trade_record_t list \<Rightarrow> int list" where
  "dates_of side ts = map tr_date (filter (\<lambda>t. tr_side t = side) ts)"

lemma holding_loop_matched:
  assumes "bq_inv q" "length ts \<le> bq_space q"
  shows "holding_loop ts q h m =
     (h + sum_list (map holding (matched_pairs (bq_items q) ts)),
      m + int (length (matched_pairs (bq_items q) ts)))"
  using assms
proof (induction ts arbitrary: q h m)
  case (Cons t ts)
  show ?case
  proof (cases "tr_side t = ALPHA_SIDE_BUY")
    case True
    then show ?thesis
      using Cons.IH [of "bq_push (tr_date t) q"] Cons.prems buy_queue.push_inv [of q]
        buy_queue.push_items [of q] buy_queue.push_space [of q "tr_date t"] by auto
  next
    case False
    show ?thesis
    proof (cases "bq_pop q")
      case None
      then show ?thesis
        using False Cons.IH [of q] Cons.prems buy_queue.pop_None [of q] by simp
    next
      case (Some r)
      obtain b q' where r: "r = (b, q')" by (cases r)
      show ?thesis
        using False Some r Cons.IH [of q'] Cons.prems buy_queue.pop_Some [of q b q']
        by (auto simp: Let_def holding_def max_def)
    qed
  qed
qed simp

text \<open>In a sequence of trades in which no sell comes without an open buy (of which there are
  \<open>k\<close> at the start), the sells are matched with the buys in order.\<close>

fun covered :: "nat \<Rightarrow> alpha_trade_record_t list \<Rightarrow> bool" where
  "covered k [] = True"
| "covered k (t # ts) =
     (if tr_side t = ALPHA_SIDE_BUY then covered (Suc k) ts else 0 < k \<and> covered (k - 1) ts)"

lemma covered_length:
  "covered k ts \<Longrightarrow> length (dates_of ALPHA_SIDE_SELL ts) \<le> k + length (dates_of ALPHA_SIDE_BUY ts)"
proof (induction k ts rule: covered.induct)
  case (2 k t ts)
  then show ?case by (cases "tr_side t") (auto simp: dates_of_def)
qed (simp add: dates_of_def)

lemma matched_pairs_zip:
  "covered (length bs) ts \<Longrightarrow>
   matched_pairs bs ts = zip (bs @ dates_of ALPHA_SIDE_BUY ts) (dates_of ALPHA_SIDE_SELL ts)"
proof (induction bs ts rule: matched_pairs.induct)
  case (2 open_buys t ts)
  show ?case
  proof (cases "tr_side t")
    case ALPHA_SIDE_BUY
    then show ?thesis
      using 2(1) 2(4) by (simp add: dates_of_def)
  next
    case ALPHA_SIDE_SELL
    then show ?thesis
      using 2(3) 2(4) by (cases open_buys) (auto simp: dates_of_def)
  qed
qed (simp add: dates_of_def)

section \<open>Win rate\<close>

lemma count_sells_eq:
  "count_sells ts =
     (int (length (filter (\<lambda>t. tr_side t = ALPHA_SIDE_SELL) ts)),
      int (length (filter (\<lambda>t. tr_side t = ALPHA_SIDE_SELL \<and> tr_pnl t > 0) ts)))"
  unfolding count_sells_def by (induction ts rule: rev_induct) auto

lemma win_ratio_bounds:
  assumes "0 \<le> wins" "wins \<le> sells" "0 < sells" "sells \<le> 2 ^ 53"
  defines "wr \<equiv> (of_i64 wins / of_i64 sells) * lit 100"
  shows "isfinite wr" "0 \<le> val wr" "val wr \<le> 100"
proof -
  have w: "isfinite (of_i64 wins)" "val (of_i64 wins) = of_int wins"
    and s: "isfinite (of_i64 sells)" "val (of_i64 sells) = of_int sells"
    using int53_exact(3,4) [of wins] int53_exact(3,4) [of sells] assms by simp_all
  then obtain s1 where r: "of_i64 wins / of_i64 sells = mk s1 (of_int wins / of_int sells)"
    using divide_mk [of "of_i64 wins" "of_i64 sells"] assms by auto
  have r: "isfinite (of_i64 wins / of_i64 sells)" "0 \<le> val (of_i64 wins / of_i64 sells)"
    "val (of_i64 wins / of_i64 sells) \<le> 1"
    using mk_between [OF r, of 0 1] assms by (simp_all add: divide_le_eq)
  then obtain s2 where t: "wr = mk s2 (val (of_i64 wins / of_i64 sells) * 100)"
    using times_mk [of "of_i64 wins / of_i64 sells" "lit 100"] by (auto simp: wr_def)
  show "isfinite wr" "0 \<le> val wr" "val wr \<le> 100"
    using mk_between [OF t, of 0 "lit 100"] r by simp_all
qed

text \<open>A percentage keeps its range when it is rounded to four places.\<close>

lemma round4_pct:
  assumes "isfinite x" "\<bar>val x\<bar> \<le> 100"
  shows "\<bar>alpha_round_dp x 4\<bar> \<le> lit 100" "0 \<le> val x \<Longrightarrow> 0 \<le> alpha_round_dp x 4"
    "val x \<le> 0 \<Longrightarrow> alpha_round_dp x 4 \<le> 0" "isfinite (alpha_round_dp x 4)"
proof -
  have "\<bar>x\<bar> \<le> lit (of_int 1000000 / 10 ^ 4)" using assms by (simp add: le_finite)
  from alpha_round_dp_abs_le [OF assms(1) _ _ _ this]
  show "\<bar>alpha_round_dp x 4\<bar> \<le> lit 100" "isfinite (alpha_round_dp x 4)" by simp_all
  have "\<bar>val x\<bar> * 10 ^ 4 \<le> 100 * 10 ^ 4" using assms(2) by (intro mult_right_mono) simp_all
  then have "\<bar>val x\<bar> * 10 ^ 4 \<le> 10 ^ 60" by simp
  then show "0 \<le> val x \<Longrightarrow> 0 \<le> alpha_round_dp x 4" "val x \<le> 0 \<Longrightarrow> alpha_round_dp x 4 \<le> 0"
    using alpha_round_dp_nonneg [of x 4] alpha_round_dp_nonpos [of x 4] assms(1)
    by (simp_all add: le_finite)
qed

text \<open>Concrete records for the witnesses.\<close>

definition example_snapshot :: "int \<Rightarrow> rat \<Rightarrow> alpha_daily_snapshot_t" where
  "example_snapshot d v = \<lparr>sn_date = d, sn_close_price = lit v, sn_cash = lit v, sn_position_qty = 0,
     sn_position_value = 0, sn_portfolio_value = lit v, sn_daily_return_pct = 0\<rparr>"

definition example_trade :: "int \<Rightarrow> alpha_side_t \<Rightarrow> alpha_trade_record_t" where
  "example_trade d s = \<lparr>tr_date = d, tr_side = s, tr_ticker = ''005930'', tr_price = lit 100,
     tr_quantity = 1, tr_commission = 0, tr_tax = 0, tr_slippage_cost = 0, tr_total_cost = 0,
     tr_pnl = lit 5\<rparr>"

section \<open>Properties\<close>

text \<open>
  C24. The reported drawdown and win rate are percentages. When every portfolio value of the
  run is finite and non-negative and the first one is positive, the maximum drawdown lies
  between -100 and 0, and the win rate between 0 and 100, after all roundings and whatever
  the trades, the other metrics and \<^verbatim>\<open>pow\<close> are.
\<close>

theorem metrics_percentages:
  fixes pow_d hr hq scratch initial_capital
  assumes "snapshots \<noteq> []" "\<forall>sn\<in>set snapshots. sound_value (sn_portfolio_value sn)"
    "0 < val (sn_portfolio_value (hd snapshots))" "length trades \<le> 2 ^ 53"
  defines "m \<equiv> alpha_compute_metrics pow_d hr hq scratch snapshots trades initial_capital"
  shows "- lit 100 \<le> max_drawdown_pct m \<and> max_drawdown_pct m \<le> 0
       \<and> 0 \<le> win_rate m \<and> win_rate m \<le> lit 100"
proof -
  have abs: "- lit 100 \<le> x \<and> x \<le> lit 100" if "\<bar>x\<bar> \<le> lit 100" "isfinite x" for x
    using that by (simp add: le_finite abs_le_iff)
  note mdd = compute_mdd_bounds [OF assms(1-3)]
  note mdd4 = round4_pct [OF mdd(1)]
  have first: "- lit 100 \<le> max_drawdown_pct m \<and> max_drawdown_pct m \<le> 0"
    using mdd mdd4 abs assms(1) by (simp add: m_def alpha_compute_metrics_def Let_def)
  define s w where "s = fst (count_sells trades)" and "w = snd (count_sells trades)"
  define wr where "wr = (if s > 0 then (of_i64 w / of_i64 s) * lit 100 else 0)"
  have "0 \<le> w" "w \<le> s"
    using length_filter_le [of "\<lambda>t. tr_pnl t > 0" "filter (\<lambda>t. tr_side t = ALPHA_SIDE_SELL) trades"]
    by (simp_all add: s_def w_def count_sells_eq conj_commute)
  moreover have "s \<le> 2 ^ 53"
    using order_trans [OF length_filter_le assms(4), of "\<lambda>t. tr_side t = ALPHA_SIDE_SELL"]
    by (simp add: s_def count_sells_eq)
  ultimately have wr: "isfinite wr" "0 \<le> val wr" "val wr \<le> 100"
    using win_ratio_bounds [of w s] by (auto simp: wr_def)
  have "win_rate m = alpha_round_dp wr 4"
    using assms(1) by (simp add: m_def alpha_compute_metrics_def Let_def wr_def s_def w_def split_def)
  then have "0 \<le> win_rate m \<and> win_rate m \<le> lit 100"
    using round4_pct [OF wr(1)] wr(2,3) abs by simp
  with first show ?thesis by blast
qed

theorem metrics_percentages_witness:
  "- lit 100 \<le> max_drawdown_pct (alpha_compute_metrics (\<lambda>x y. x) True True [0]
       [example_snapshot 1 100, example_snapshot 2 80] [example_trade 1 ALPHA_SIDE_BUY] 100)"
proof -
  have "sound_value (lit 100)" "sound_value (lit 80)" by (simp_all add: sound_value_def)
  then show ?thesis
    using metrics_percentages [of "[example_snapshot 1 100, example_snapshot 2 80]"
        "[example_trade 1 ALPHA_SIDE_BUY]" "\<lambda>x y. x" True True "[0]" 100]
    by (simp add: example_snapshot_def)
qed

text \<open>
  C23. The average holding time matches buys and sells first-in first-out. With a scratch
  array of at least as many entries as there are trades, whatever it contains, and when no
  sell comes without an open buy, the result is the sum over the sells of the days since the
  buy of the same rank (none counted as negative), divided by the number of sells.
\<close>

theorem avg_holding_days_fifo:
  assumes "length trades \<le> length scratch" "covered 0 trades"
  defines "bs \<equiv> dates_of ALPHA_SIDE_BUY trades" and "ss \<equiv> dates_of ALPHA_SIDE_SELL trades"
  shows "compute_avg_holding_days trades scratch =
     (if ss = [] then 0
      else of_i64 (\<Sum>k<length ss. max 0 (ss ! k - bs ! k)) / of_i64 (int (length ss)))"
proof -
  let ?q = "\<lparr>bq_array = scratch, bq_head = 0, bq_tail = 0\<rparr>"
  have q: "bq_inv ?q" "bq_items ?q = []" "length trades \<le> bq_space ?q"
    using assms(1) by (simp_all add: bq_inv_def bq_items_def bq_space_def)
  have pairs: "matched_pairs [] trades = zip bs ss"
    using matched_pairs_zip [of "[]" trades] assms(2) by (simp add: bs_def ss_def)
  have len: "length ss \<le> length bs"
    using covered_length [of 0 trades] assms(2) by (simp add: bs_def ss_def)
  have "sum_list (map holding (zip bs ss)) = (\<Sum>k<length ss. max 0 (ss ! k - bs ! k))"
    using len by (simp add: sum_list_sum_nth holding_def atLeast0LessThan)
  then show ?thesis
    using holding_loop_matched [OF q(1,3), of 0 0] len
    by (auto simp: compute_avg_holding_days_def q(2) pairs)
qed

theorem avg_holding_days_fifo_witness:
  "compute_avg_holding_days
     [example_trade 1 ALPHA_SIDE_BUY, example_trade 4 ALPHA_SIDE_SELL,
      example_trade 6 ALPHA_SIDE_BUY, example_trade 8 ALPHA_SIDE_SELL] [7, 7, 7, 7] = of_i64 5 / of_i64 2"
  using avg_holding_days_fifo [of
      "[example_trade 1 ALPHA_SIDE_BUY, example_trade 4 ALPHA_SIDE_SELL,
        example_trade 6 ALPHA_SIDE_BUY, example_trade 8 ALPHA_SIDE_SELL]" "[7, 7, 7, 7]"]
  by (simp add: example_trade_def dates_of_def numeral_2_eq_2)

end
