(* ===== verification/Backtest_Engine.thy ===== *)
theory Backtest_Engine
  imports Backtest_Metrics Cost_Model "HOL-Library.Sublist"
begin

text \<open>
  The backtest engine (\<^verbatim>\<open>core/src/backtest/engine.c\<close>,
  \<^verbatim>\<open>core/src/backtest/signal_source.c\<close>): one bar after the other, a signal opens an
  all-cash position or closes it, and a snapshot of the account is taken. The conversion of
  an out of range double to \<^verbatim>\<open>int64_t\<close> is undefined in C; where the source has one
  the model returns \<open>None\<close>.
\<close>

section \<open>The code\<close>

record engine_state_t =
  cash :: double
  position_qty :: int
  avg_buy_price :: double
  prev_portfolio_value :: double

record alpha_backtest_config_t =
  cfg_ticker :: string
  cfg_strategy :: string
  train_start :: int
  train_end :: int
  test_start :: int
  test_end :: int
  initial_capital :: int
  commission_rate_pct :: double
  tax_rate_pct :: double
  slippage_bps :: int

record alpha_backtest_result_t =
  r_config :: alpha_backtest_config_t
  r_metrics :: alpha_backtest_metrics_t
  r_trades :: "alpha_trade_record_t list"
  r_snapshots :: "alpha_daily_snapshot_t list"

text \<open>The seam for signal sources: the callback reads and updates its context and sees the
  day, the price array, the number of bars so far and the position.\<close>

type_synonym 'c alpha_signal_fn = "'c \<Rightarrow> int \<Rightarrow> double list \<Rightarrow> nat \<Rightarrow> int \<Rightarrow> alpha_signal_t \<times> 'c"

type_synonym alpha_replay_source_t = "(int \<times> alpha_signal_t) list"

fun replay_scan :: "alpha_replay_source_t \<Rightarrow> int \<Rightarrow> alpha_signal_t" where
  "replay_scan [] epoch_day = ALPHA_SIGNAL_HOLD"
| "replay_scan ((day, signal) # source) epoch_day =
     (if day = epoch_day then signal else replay_scan source epoch_day)"

definition alpha_replay_signal :: "alpha_replay_source_t alpha_signal_fn" where
  "alpha_replay_signal source epoch_day prices n position = (replay_scan source epoch_day, source)"

definition ALPHA_TICKER_CAP :: nat where
  "ALPHA_TICKER_CAP = 32"

definition copy_ticker :: "string \<Rightarrow> string" where
  "copy_ticker src =
     (let len = length src; len = (if len \<ge> ALPHA_TICKER_CAP then ALPHA_TICKER_CAP - 1 else len)
      in take len src)"

definition outlay :: "alpha_cost_model_t \<Rightarrow> double \<Rightarrow> int \<Rightarrow> double" where
  "outlay cost price quantity =
     price * of_i64 quantity + tc_total (alpha_cost_calculate cost ALPHA_SIDE_BUY price quantity)"

definition buy_trade ::
    "alpha_cost_model_t \<Rightarrow> alpha_backtest_config_t \<Rightarrow> int \<Rightarrow> double \<Rightarrow> int \<Rightarrow> alpha_trade_record_t" where
  "buy_trade cost config date price quantity =
     (let c = alpha_cost_calculate cost ALPHA_SIDE_BUY price quantity
      in \<lparr>tr_date = date, tr_side = ALPHA_SIDE_BUY, tr_ticker = copy_ticker (cfg_ticker config),
          tr_price = price, tr_quantity = quantity, tr_commission = tc_commission c,
          tr_tax = tc_tax c, tr_slippage_cost = tc_slippage_cost c, tr_total_cost = tc_total c,
          tr_pnl = 0\<rparr>)"

definition open_position ::
    "engine_state_t \<Rightarrow> alpha_cost_model_t \<Rightarrow> alpha_backtest_config_t \<Rightarrow> int \<Rightarrow> double \<Rightarrow>
     (engine_state_t \<times> alpha_trade_record_t option) option" where
  "open_position state cost config date price =
     (let unit_cost = alpha_cost_calculate cost ALPHA_SIDE_BUY price 1;
          effective_price = price + tc_total unit_cost
      in if effective_price \<le> 0 then Some (state, None)
         else case to_i64 (floor_d (cash state / effective_price)) of
           None \<Rightarrow> None
         | Some quantity \<Rightarrow>
             if quantity \<le> 0 then Some (state, None)
             else
               let total_outlay = outlay cost price quantity;
                   quantity' = (if total_outlay > cash state then quantity - 1 else quantity)
               in if quantity' \<le> 0 then Some (state, None)
                  else Some (state\<lparr>cash := cash state - outlay cost price quantity',
                                   avg_buy_price := price, position_qty := quantity'\<rparr>,
                             Some (buy_trade cost config date price quantity')))"

definition close_position ::
    "engine_state_t \<Rightarrow> alpha_cost_model_t \<Rightarrow> alpha_backtest_config_t \<Rightarrow> int \<Rightarrow> double \<Rightarrow>
     engine_state_t \<times> alpha_trade_record_t" where
  "close_position state cost config date price =
     (let qty = position_qty state;
          c = alpha_cost_calculate cost ALPHA_SIDE_SELL price qty;
          pnl = (price - avg_buy_price state) * of_i64 qty - tc_total c
      in (state\<lparr>cash := cash state + (price * of_i64 qty - tc_total c),
                position_qty := 0, avg_buy_price := 0\<rparr>,
          \<lparr>tr_date = date, tr_side = ALPHA_SIDE_SELL, tr_ticker = copy_ticker (cfg_ticker config),
           tr_price = price, tr_quantity = qty, tr_commission = tc_commission c,
           tr_tax = tc_tax c, tr_slippage_cost = tc_slippage_cost c, tr_total_cost = tc_total c,
           tr_pnl = pnl\<rparr>))"

definition take_snapshot ::
    "engine_state_t \<Rightarrow> int \<Rightarrow> double \<Rightarrow> engine_state_t \<times> alpha_daily_snapshot_t" where
  "take_snapshot state date close_price =
     (let position_value = of_i64 (position_qty state) * close_price;
          portfolio_value = cash state + position_value;
          daily_return_pct =
            (if prev_portfolio_value state > 0
             then (portfolio_value - prev_portfolio_value state) / prev_portfolio_value state * lit 100
             else 0)
      in (state\<lparr>prev_portfolio_value := portfolio_value\<rparr>,
          \<lparr>sn_date = date, sn_close_price = close_price, sn_cash = cash state,
           sn_position_qty = position_qty state, sn_position_value = position_value,
           sn_portfolio_value = portfolio_value, sn_daily_return_pct = daily_return_pct\<rparr>))"

text \<open>The body of the loop: the trade of a signal, then the snapshot.\<close>

definition apply_signal ::
    "alpha_cost_model_t \<Rightarrow> alpha_backtest_config_t \<Rightarrow> alpha_signal_t \<Rightarrow> int \<Rightarrow> double \<Rightarrow>
     engine_state_t \<Rightarrow> (engine_state_t \<times> alpha_trade_record_t option) option" where
  "apply_signal cost config signal date close_price state =
     (if signal = ALPHA_SIGNAL_BUY \<and> position_qty state = 0
      then open_position state cost config date close_price
      else if (signal = ALPHA_SIGNAL_SELL \<or> signal = ALPHA_SIGNAL_CLOSE) \<and> position_qty state > 0
      then (case close_position state cost config date close_price of (st, t) \<Rightarrow> Some (st, Some t))
      else Some (state, None))"

fun run_bars ::
    "alpha_cost_model_t \<Rightarrow> alpha_backtest_config_t \<Rightarrow> 'c alpha_signal_fn \<Rightarrow> double list \<Rightarrow> nat \<Rightarrow>
     (int \<times> double) list \<Rightarrow> 'c \<Rightarrow> engine_state_t \<Rightarrow>
     (alpha_trade_record_t list \<times> alpha_daily_snapshot_t list) option" where
  "run_bars cost config signal_fn prices i [] ctx state = Some ([], [])"
| "run_bars cost config signal_fn prices i ((date, close_price) # bars) ctx state =
     (case signal_fn ctx date prices (i + 1) (position_qty state) of (signal, ctx') \<Rightarrow>
      case apply_signal cost config signal date close_price state of
        None \<Rightarrow> None
      | Some (state', trade) \<Rightarrow>
          (case take_snapshot state' date close_price of (state'', snapshot) \<Rightarrow>
           case run_bars cost config signal_fn prices (i + 1) bars ctx' state'' of
             None \<Rightarrow> None
           | Some (trades, snapshots) \<Rightarrow>
               Some ((case trade of None \<Rightarrow> trades | Some t \<Rightarrow> t # trades), snapshot # snapshots)))"

definition engine_init :: "alpha_backtest_config_t \<Rightarrow> engine_state_t" where
  "engine_init config =
     \<lparr>cash = of_i64 (initial_capital config), position_qty = 0, avg_buy_price = 0,
      prev_portfolio_value = of_i64 (initial_capital config)\<rparr>"

text \<open>The results of the calls of \<^verbatim>\<open>malloc\<close>: the two buffers of the run and the
  two of the metrics.\<close>

record alloc_t =
  ok_trades :: bool
  ok_snapshots :: bool
  ok_returns :: bool
  ok_queue :: bool

text \<open>The arrays have at least \<open>n\<close> entries. A null pointer is \<open>None\<close> or, for the
  output, \<open>False\<close>. The outer option is undefined behaviour; the inner one is the result
  when it is filled.\<close>

definition alpha_backtest_run ::
    "(double \<Rightarrow> double \<Rightarrow> double) \<Rightarrow> alloc_t \<Rightarrow> int list \<Rightarrow> alpha_backtest_config_t option \<Rightarrow>
     double list option \<Rightarrow> int list option \<Rightarrow> nat \<Rightarrow> 'c alpha_signal_fn option \<Rightarrow> 'c \<Rightarrow>
     alpha_cost_model_t option \<Rightarrow> bool \<Rightarrow> (alpha_err_t \<times> alpha_backtest_result_t option) option" where
  "alpha_backtest_run pow_d alloc scratch config prices dates n signal_fn signal_ctx cost out =
     (case (config, prices, dates, signal_fn, cost, out) of
        (Some cfg, Some ps, Some ds, Some sf, Some cm, True) \<Rightarrow>
          if train_end cfg \<ge> test_start cfg then Some (ALPHA_ERR_INVALID_ARG, None)
          else if n > 0 \<and> (\<not> ok_trades alloc \<or> \<not> ok_snapshots alloc)
          then Some (ALPHA_ERR_IO, Some \<lparr>r_config = cfg, r_metrics = metrics_zero, r_trades = [], r_snapshots = []\<rparr>)
          else (case run_bars cm cfg sf ps 0 (zip (take n ds) (take n ps)) signal_ctx (engine_init cfg) of
             None \<Rightarrow> None
           | Some (trades, snapshots) \<Rightarrow>
               Some (ALPHA_OK, Some
                 \<lparr>r_config = cfg,
                  r_metrics = alpha_compute_metrics pow_d (ok_returns alloc) (ok_queue alloc) scratch
                                snapshots trades (initial_capital cfg),
                  r_trades = trades, r_snapshots = snapshots\<rparr>))
      | _ \<Rightarrow> Some (ALPHA_ERR_INVALID_ARG, None))"

definition alpha_backtest_result_free :: "alpha_backtest_result_t option \<Rightarrow> alpha_backtest_result_t option" where
  "alpha_backtest_result_free result =
     (case result of None \<Rightarrow> None | Some r \<Rightarrow> Some (r\<lparr>r_trades := [], r_snapshots := []\<rparr>))"

section \<open>Positions and trades\<close>

text \<open>Trades come in pairs: with \<open>q\<close> shares held, the next trade is a buy of a positive
  number of shares when \<open>q\<close> is 0, and otherwise the sale of exactly \<open>q\<close> shares.\<close>

fun paired :: "int \<Rightarrow> alpha_trade_record_t list \<Rightarrow> bool" where
  "paired q [] = True"
| "paired q (t # ts) =
     (if q = 0 then tr_side t = ALPHA_SIDE_BUY \<and> 0 < tr_quantity t \<and> paired (tr_quantity t) ts
      else tr_side t = ALPHA_SIDE_SELL \<and> tr_quantity t = q \<and> paired 0 ts)"

text \<open>The shares held after some trades.\<close>

fun held :: "int \<Rightarrow> alpha_trade_record_t list \<Rightarrow> int" where
  "held q [] = q"
| "held q (t # ts) = held (if tr_side t = ALPHA_SIDE_BUY then q + tr_quantity t else q - tr_quantity t) ts"

definition effective_price :: "alpha_cost_model_t \<Rightarrow> double \<Rightarrow> double" where
  "effective_price cost price = price + tc_total (alpha_cost_calculate cost ALPHA_SIDE_BUY price 1)"

lemma open_position_cases:
  assumes "open_position state cost config date price = Some (state', trade)"
  obtains "state' = state" "trade = None"
  | q0 q where "to_i64 (floor_d (cash state / effective_price cost price)) = Some q0"
      "\<not> effective_price cost price \<le> 0" "q = (if outlay cost price q0 > cash state then q0 - 1 else q0)" "0 < q"
      "state' = state\<lparr>cash := cash state - outlay cost price q, avg_buy_price := price, position_qty := q\<rparr>"
      "trade = Some (buy_trade cost config date price q)"
proof (cases "to_i64 (floor_d (cash state / effective_price cost price))")
  case None
  then show ?thesis
    using assms that(1) by (auto simp: open_position_def effective_price_def Let_def split: if_splits)
next
  case (Some q0)
  define q where "q = (if outlay cost price q0 > cash state then q0 - 1 else q0)"
  have "(state' = state \<and> trade = None) \<or> (\<not> effective_price cost price \<le> 0 \<and> 0 < q \<and>
      state' = state\<lparr>cash := cash state - outlay cost price q, avg_buy_price := price, position_qty := q\<rparr> \<and>
      trade = Some (buy_trade cost config date price q))"
    using assms Some unfolding open_position_def effective_price_def [symmetric] Let_def q_def [symmetric]
    by (auto simp: q_def [symmetric] split: if_splits)
  then show ?thesis using that(1) that(2) [OF Some _ q_def] by blast
qed

lemma apply_signal_cases:
  assumes "apply_signal cost config signal date price state = Some (state', trade)"
  obtains (none) "state' = state" "trade = None"
  | (buy) q where "position_qty state = 0" "0 < q" "position_qty state' = q"
      "trade = Some (buy_trade cost config date price q)" "cash state' = cash state - outlay cost price q"
  | (sell) "0 < position_qty state" "(state', the trade) = close_position state cost config date price"
      "trade \<noteq> None"
  using assms
proof (cases "signal = ALPHA_SIGNAL_BUY \<and> position_qty state = 0")
  case True
  then have "open_position state cost config date price = Some (state', trade)"
    using assms by (simp add: apply_signal_def)
  then show ?thesis by (cases rule: open_position_cases) (use True none buy in auto)
next
  case False
  then show ?thesis using assms none sell by (auto simp: apply_signal_def split: if_splits prod.splits)
qed

text \<open>What a bar does to the position.\<close>

lemma apply_signal_position:
  assumes "apply_signal cost config signal date price state = Some (state', trade)" "0 \<le> position_qty state"
  shows "0 \<le> position_qty state'"
    "case trade of None \<Rightarrow> position_qty state' = position_qty state
     | Some t \<Rightarrow> tr_date t = date \<and> tr_price t = price \<and>
         (if position_qty state = 0
          then tr_side t = ALPHA_SIDE_BUY \<and> 0 < tr_quantity t \<and> position_qty state' = tr_quantity t
          else tr_side t = ALPHA_SIDE_SELL \<and> tr_quantity t = position_qty state \<and> position_qty state' = 0)"
  using assms
  by (cases rule: apply_signal_cases; auto simp: buy_trade_def close_position_def Let_def)+

lemma take_snapshot_simps [simp]:
  "position_qty (fst (take_snapshot state date price)) = position_qty state"
  "cash (fst (take_snapshot state date price)) = cash state"
  "sn_date (snd (take_snapshot state date price)) = date"
  "sn_close_price (snd (take_snapshot state date price)) = price"
  "sn_position_qty (snd (take_snapshot state date price)) = position_qty state"
  "sn_cash (snd (take_snapshot state date price)) = cash state"
  by (simp_all add: take_snapshot_def Let_def)

lemma run_bars_Cons:
  assumes "run_bars cost config sf prices i ((date, price) # bars) ctx state = Some (ts, ss)"
  obtains signal ctx' state' trade ts' ss' where
    "sf ctx date prices (i + 1) (position_qty state) = (signal, ctx')"
    "apply_signal cost config signal date price state = Some (state', trade)"
    "run_bars cost config sf prices (i + 1) bars ctx' (fst (take_snapshot state' date price)) = Some (ts', ss')"
    "ts = (case trade of None \<Rightarrow> ts' | Some t \<Rightarrow> t # ts')"
    "ss = snd (take_snapshot state' date price) # ss'"
  using assms by (auto split: prod.splits option.splits)

lemma run_bars_trades:
  assumes "run_bars cost config sf prices i bars ctx state = Some (ts, ss)" "0 \<le> position_qty state"
  shows "paired (position_qty state) ts \<and> map sn_date ss = map fst bars
       \<and> map sn_close_price ss = map snd bars
       \<and> subseq (map (\<lambda>t. (tr_date t, tr_price t)) ts) bars
       \<and> (\<forall>s\<in>set ss. 0 \<le> sn_position_qty s)
       \<and> (ss \<noteq> [] \<longrightarrow> sn_position_qty (last ss) = held (position_qty state) ts)"
  using assms
proof (induction bars arbitrary: i ctx state ts ss)
  case (Cons bar bars)
  obtain date price where bar: "bar = (date, price)" by (cases bar)
  from Cons.prems(1) [unfolded bar] obtain signal ctx' state' trade ts' ss' where
    step: "apply_signal cost config signal date price state = Some (state', trade)"
    and rest: "run_bars cost config sf prices (i + 1) bars ctx' (fst (take_snapshot state' date price)) = Some (ts', ss')"
    and ts: "ts = (case trade of None \<Rightarrow> ts' | Some t \<Rightarrow> t # ts')"
    and ss: "ss = snd (take_snapshot state' date price) # ss'"
    by (rule run_bars_Cons)
  note pos = apply_signal_position [OF step Cons.prems(2)]
  have ih: "paired (position_qty state') ts'" "map sn_date ss' = map fst bars"
    "map sn_close_price ss' = map snd bars" "subseq (map (\<lambda>t. (tr_date t, tr_price t)) ts') bars"
    "\<forall>s\<in>set ss'. 0 \<le> sn_position_qty s"
    "ss' \<noteq> [] \<longrightarrow> sn_position_qty (last ss') = held (position_qty state') ts'"
    using Cons.IH [OF rest] pos(1) by simp_all
  have empty: "ss' = [] \<Longrightarrow> ts' = []" using ih(2) list_emb_length [OF ih(4)] by auto
  show ?case
  proof (cases trade)
    case None
    then show ?thesis using ih pos ts ss bar empty by auto
  next
    case (Some t)
    have "held (position_qty state) ts = held (position_qty state') ts'"
      using Some pos(2) ts by (auto split: if_splits)
    then show ?thesis using Some ih pos ts ss bar empty by auto
  qed
qed simp

lemma run_bars_length:
  assumes "run_bars cost config sf prices i bars ctx state = Some (ts, ss)" "0 \<le> position_qty state"
  shows "length ss = length bars" "length ts \<le> length bars"
  using run_bars_trades [OF assms] list_emb_length [of "(=)" "map (\<lambda>t. (tr_date t, tr_price t)) ts" bars]
  by (auto dest: map_eq_imp_length_eq)

lemma paired_covered: "paired q ts \<Longrightarrow> 0 \<le> q \<Longrightarrow> covered (if q = 0 then 0 else 1) ts"
proof (induction q ts rule: paired.induct)
  case (2 q t ts)
  then show ?case by (cases "q = 0") (auto split: if_splits)
qed simp

section \<open>The signal seam\<close>

text \<open>The contract of a signal source: it gets the whole price array, and reads no more of it
  than the number of bars it is given.\<close>

locale signal_seam =
  fixes sf :: "'c alpha_signal_fn"
  assumes causal: "take n ps = take n qs \<Longrightarrow> sf ctx date ps n position = sf ctx date qs n position"
begin

lemma run_bars_prefix:
  assumes "run_bars cost config sf ps i (xs @ ys) ctx state = Some (ts, ss)"
    "take (i + length xs) ps = take (i + length xs) qs"
  shows "\<exists>ts'. run_bars cost config sf qs i xs ctx state = Some (ts', take (length xs) ss) \<and> prefix ts' ts"
  using assms
proof (induction xs arbitrary: i ctx state ts ss)
  case (Cons x xs)
  obtain date price where x: "x = (date, price)" by (cases x)
  from Cons.prems(1) [unfolded x append_Cons] obtain signal ctx' state' trade ts' ss' where
    s: "sf ctx date ps (i + 1) (position_qty state) = (signal, ctx')"
    "apply_signal cost config signal date price state = Some (state', trade)"
    "run_bars cost config sf ps (i + 1) (xs @ ys) ctx' (fst (take_snapshot state' date price)) = Some (ts', ss')"
    "ts = (case trade of None \<Rightarrow> ts' | Some t \<Rightarrow> t # ts')" "ss = snd (take_snapshot state' date price) # ss'"
    by (rule run_bars_Cons)
  have "take (i + 1) ps = take (i + 1) qs"
    using arg_cong [OF Cons.prems(2), of "take (i + 1)"] by (simp add: min_def)
  then have sf: "sf ctx date qs (i + 1) (position_qty state) = (signal, ctx')"
    using causal s(1) by metis
  obtain ts'' where "run_bars cost config sf qs (i + 1) xs ctx' (fst (take_snapshot state' date price))
      = Some (ts'', take (length xs) ss')" "prefix ts'' ts'"
    using Cons.IH [OF s(3)] Cons.prems(2) by auto
  then show ?case
    using s sf by (cases trade) (auto simp: x split: prod.splits)
qed simp

end

interpretation replay: signal_seam alpha_replay_signal
  by unfold_locales (simp add: alpha_replay_signal_def)

lemma alpha_backtest_run_OK:
  assumes "alpha_backtest_run pow_d alloc scratch (Some cfg) (Some ps) (Some ds) n (Some sf) ctx (Some cm) True
    = Some (ALPHA_OK, Some r)"
  shows "run_bars cm cfg sf ps 0 (zip (take n ds) (take n ps)) ctx (engine_init cfg) = Some (r_trades r, r_snapshots r)"
    "train_end cfg < test_start cfg" "0 < n \<Longrightarrow> ok_trades alloc \<and> ok_snapshots alloc"
    "r_metrics r = alpha_compute_metrics pow_d (ok_returns alloc) (ok_queue alloc) scratch
       (r_snapshots r) (r_trades r) (initial_capital cfg)"
  using assms by (auto simp: alpha_backtest_run_def split: if_splits option.splits)

section \<open>A concrete run\<close>

definition example_config :: alpha_backtest_config_t where
  "example_config = \<lparr>cfg_ticker = ''005930'', cfg_strategy = ''A'', train_start = 0, train_end = 1,
     test_start = 2, test_end = 9, initial_capital = 1000,
     commission_rate_pct = ALPHA_BACKTEST_COMMISSION_RATE_PCT, tax_rate_pct = ALPHA_BACKTEST_TAX_RATE_PCT,
     slippage_bps = ALPHA_BACKTEST_SLIPPAGE_BPS\<rparr>"

definition example_source :: alpha_replay_source_t where
  "example_source = [(2, ALPHA_SIGNAL_BUY), (3, ALPHA_SIGNAL_SELL)]"

definition example_cost :: alpha_cost_model_t where
  "example_cost = \<lparr>commission_rate = 0, tax_rate = 0, slippage_rate = 0\<rparr>"

definition example_run :: "nat \<Rightarrow> (alpha_err_t \<times> alpha_backtest_result_t option) option" where
  "example_run n = alpha_backtest_run (\<lambda>x y. x) \<lparr>ok_trades = True, ok_snapshots = True, ok_returns = True, ok_queue = True\<rparr>
     [0, 0] (Some example_config) (Some [lit 100, lit 110]) (Some [2, 3]) n (Some alpha_replay_signal)
     example_source (Some example_cost) True"

lemma example_costs:
  "outlay example_cost (Fin 100) 10 = Fin 1000"
  "tc_total (alpha_cost_calculate example_cost ALPHA_SIDE_BUY (Fin 100) 1) = Fin 0"
  "tc_total (alpha_cost_calculate example_cost ALPHA_SIDE_SELL (Fin 110) 10) = Fin 0"
  by (simp_all add: outlay_def example_cost_def alpha_cost_calculate_def double_eval Let_def)

lemma example_open:
  "open_position (engine_init example_config) example_cost example_config 2 (Fin 100) =
     Some ((engine_init example_config)\<lparr>cash := Fin 0, avg_buy_price := Fin 100, position_qty := 10\<rparr>,
       Some (buy_trade example_cost example_config 2 (Fin 100) 10))"
  by (simp add: open_position_def engine_init_def example_config_def example_costs double_eval Let_def)

lemma example_close:
  "cash st = Fin 0 \<Longrightarrow> position_qty st = 10 \<Longrightarrow>
   \<exists>t. close_position st example_cost example_config 3 (Fin 110) =
     (st\<lparr>cash := Fin 1100, position_qty := 0, avg_buy_price := 0\<rparr>, t) \<and> tr_quantity t = 10"
  by (simp add: close_position_def example_costs double_eval Let_def)

lemma example_run_ok:
  "\<exists>r. example_run 2 = Some (ALPHA_OK, Some r) \<and> map sn_cash (r_snapshots r) = [Fin 0, Fin 1100]"
proof -
  let ?st = "engine_init example_config"
  let ?st1 = "?st\<lparr>cash := Fin 0, avg_buy_price := Fin 100, position_qty := 10\<rparr>"
  let ?st2 = "fst (take_snapshot ?st1 2 (Fin 100))"
  have one: "apply_signal example_cost example_config ALPHA_SIGNAL_BUY 2 (Fin 100) ?st
      = Some (?st1, Some (buy_trade example_cost example_config 2 (Fin 100) 10))"
    using example_open by (simp add: apply_signal_def engine_init_def)
  obtain st3 t where two: "apply_signal example_cost example_config ALPHA_SIGNAL_SELL 3 (Fin 110) ?st2 = Some (st3, Some t)"
    "cash st3 = Fin 1100"
    using example_close [of ?st2] by (auto simp: apply_signal_def)
  have "\<exists>ts ss. run_bars example_cost example_config alpha_replay_signal [lit 100, lit 110] 0
      [(2, Fin 100), (3, Fin 110)] example_source ?st = Some (ts, ss) \<and> map sn_cash ss = [Fin 0, Fin 1100]"
    using one two by (simp add: alpha_replay_signal_def example_source_def split_def)
  then show ?thesis
    by (auto simp: example_run_def alpha_backtest_run_def example_config_def double_eval numeral_2_eq_2)
qed

section \<open>Properties\<close>

text \<open>
  C2. A backtest never looks ahead. For every signal source that keeps the contract of the
  seam, cutting the run off after \<open>k\<close> bars, and replacing all later prices and dates by
  others, gives exactly the first \<open>k\<close> snapshots and a prefix of the trades of the longer
  run.
\<close>

theorem backtest_no_look_ahead:
  assumes "signal_seam sf"
    "alpha_backtest_run pow_d alloc scratch (Some cfg) (Some ps) (Some ds) n (Some sf) ctx (Some cm) True
       = Some (ALPHA_OK, Some r)"
    "k \<le> n" "n \<le> length ps" "n \<le> length ds" "take k qs = take k ps" "take k es = take k ds"
  shows "\<exists>r'. alpha_backtest_run pow_d alloc scratch (Some cfg) (Some qs) (Some es) k (Some sf) ctx (Some cm) True
       = Some (ALPHA_OK, Some r') \<and> r_snapshots r' = take k (r_snapshots r) \<and> prefix (r_trades r') (r_trades r)"
proof -
  note ok = alpha_backtest_run_OK [OF assms(2)]
  let ?xs = "zip (take k es) (take k qs)"
  have "zip (take n ds) (take n ps) = ?xs @ drop k (zip (take n ds) (take n ps))"
    using append_take_drop_id [of k "zip (take n ds) (take n ps)"] assms(3,6,7)
    by (simp add: take_zip min_def)
  moreover have "length ?xs = k" using assms by simp
  ultimately obtain ts where
    "run_bars cm cfg sf qs 0 ?xs ctx (engine_init cfg) = Some (ts, take k (r_snapshots r))" "prefix ts (r_trades r)"
    using signal_seam.run_bars_prefix [OF assms(1), of cm cfg ps 0 ?xs] ok(1) assms(6)
    by (metis add.left_neutral)
  then show ?thesis using ok(2,3) assms(3) by (auto simp: alpha_backtest_run_def)
qed

theorem backtest_no_look_ahead_witness:
  "\<exists>r r'. example_run 2 = Some (ALPHA_OK, Some r) \<and> example_run 1 = Some (ALPHA_OK, Some r')
     \<and> r_snapshots r' = take 1 (r_snapshots r) \<and> prefix (r_trades r') (r_trades r)"
proof -
  obtain r where "example_run 2 = Some (ALPHA_OK, Some r)" using example_run_ok by blast
  then show ?thesis
    using backtest_no_look_ahead [OF replay.signal_seam_axioms, of _ _ _ _ _ _ 2 _ _ r 1 "[lit 100, lit 110]" "[2, 3]"]
    unfolding example_run_def by force
qed

text \<open>
  C3. The trades of a run are sound: they alternate between a buy of a positive number of
  shares and the sale of exactly these shares, they happen at closing prices of distinct
  bars in the order of the bars, and there is one snapshot for every bar, with its date and
  price. No snapshot shows a negative position, and the last one shows the shares that the
  trades leave.
\<close>

theorem backtest_trades_sound:
  assumes "alpha_backtest_run pow_d alloc scratch (Some cfg) (Some ps) (Some ds) n (Some sf) ctx (Some cm) True
       = Some (ALPHA_OK, Some r)"
  shows "paired 0 (r_trades r)
       \<and> subseq (map (\<lambda>t. (tr_date t, tr_price t)) (r_trades r)) (zip (take n ds) (take n ps))
       \<and> map (\<lambda>s. (sn_date s, sn_close_price s)) (r_snapshots r) = zip (take n ds) (take n ps)
       \<and> (\<forall>s\<in>set (r_snapshots r). 0 \<le> sn_position_qty s)
       \<and> (r_snapshots r \<noteq> [] \<longrightarrow> sn_position_qty (last (r_snapshots r)) = held 0 (r_trades r))"
proof -
  have s: "position_qty (engine_init cfg) = 0" by (simp add: engine_init_def)
  note t = run_bars_trades [OF alpha_backtest_run_OK(1) [OF assms], unfolded s, simplified]
  have "map (\<lambda>s. (sn_date s, sn_close_price s)) (r_snapshots r)
      = zip (map sn_date (r_snapshots r)) (map sn_close_price (r_snapshots r))"
    by (simp add: zip_map_map zip_same_conv_map)
  also have "\<dots> = zip (take n ds) (take n ps)" using t by (simp add: zip_map_fst_snd)
  finally show ?thesis using t by blast
qed

theorem backtest_trades_sound_witness:
  "\<exists>r. example_run 2 = Some (ALPHA_OK, Some r) \<and> paired 0 (r_trades r)"
proof -
  obtain r where "example_run 2 = Some (ALPHA_OK, Some r)" using example_run_ok by blast
  then show ?thesis
    using conjunct1 [OF backtest_trades_sound, OF \<open>example_run 2 = _\<close> [unfolded example_run_def]] by blast
qed

end
