(* ===== verification/Float_Error.thy ===== *)
theory Float_Error
  imports IEEE_Double
begin

text \<open>
  Rounding errors of sums and products of non-negative doubles. \<open>near k x r\<close> says that
  \<open>x\<close> differs from \<open>r\<close> by at most \<open>k\<close> relative roundings, and \<open>mid b r\<close>
  that \<open>r\<close> is 0 or between \<open>2^-b\<close> and \<open>2^b\<close>, far from underflow and
  overflow. The lemmas carry both through an expression.
\<close>

definition ulp :: rat where
  "ulp = 1 / 2 ^ 53"

definition near :: "nat \<Rightarrow> rat \<Rightarrow> rat \<Rightarrow> bool" where
  "near k x r \<longleftrightarrow> r * (1 - ulp) ^ k \<le> x \<and> x \<le> r * (1 + ulp) ^ k"

definition mid :: "nat \<Rightarrow> rat \<Rightarrow> bool" where
  "mid b r \<longleftrightarrow> r = 0 \<or> (1 / 2 ^ b \<le> r \<and> r \<le> 2 ^ b)"

lemma ulp_bounds: "0 < ulp" "ulp < 1" "0 \<le> 1 - ulp"
  by (simp_all add: ulp_def)

lemma near_refl: "0 \<le> r \<Longrightarrow> near 0 r r"
  by (simp add: near_def)

lemma near_mono:
  assumes "near j x r" "j \<le> k" "0 \<le> r"
  shows "near k x r"
proof -
  have "(1 - ulp) ^ k \<le> (1 - ulp) ^ j" using assms(2) ulp_bounds by (intro power_decreasing) simp_all
  moreover have "(1 + ulp) ^ j \<le> (1 + ulp) ^ k" using assms(2) ulp_bounds by (intro power_increasing) simp_all
  ultimately show ?thesis
    using assms unfolding near_def by (meson mult_left_mono order_trans)
qed

lemma near_trans:
  assumes "near j x y" "near k y z"
  shows "near (j + k) x z"
proof -
  have "z * (1 - ulp) ^ k * (1 - ulp) ^ j \<le> y * (1 - ulp) ^ j" "y * (1 + ulp) ^ j \<le> z * (1 + ulp) ^ k * (1 + ulp) ^ j"
    using assms(2) ulp_bounds unfolding near_def by (auto intro!: mult_right_mono)
  then show ?thesis using assms(1) unfolding near_def power_add by (simp add: algebra_simps)
qed

lemma near_mult: "near k x r \<Longrightarrow> 0 \<le> c \<Longrightarrow> near k (x * c) (r * c)"
  unfolding near_def using mult_right_mono [of _ _ c] by (fastforce simp: algebra_simps)

lemma near_add: "near k x r \<Longrightarrow> near k y s \<Longrightarrow> near k (x + y) (r + s)"
  unfolding near_def by (auto simp: algebra_simps)

lemma near_nonneg: "near k x r \<Longrightarrow> 0 \<le> r \<Longrightarrow> 0 \<le> x"
  unfolding near_def using ulp_bounds by (meson mult_nonneg_nonneg order_trans zero_le_power)

lemma near_double:
  assumes "near 1 x r" "0 \<le> r"
  shows "r / 2 \<le> x" "x \<le> 2 * r"
proof -
  have "r * (1 / 2) \<le> r * (1 - ulp)" "r * (1 + ulp) \<le> r * 2"
    using assms(2) by (intro mult_left_mono; simp add: ulp_def)+
  then show "r / 2 \<le> x" "x \<le> 2 * r" using assms(1) by (simp_all add: near_def)
qed

lemma mid_nonneg: "mid b r \<Longrightarrow> 0 \<le> r"
  unfolding mid_def by (meson order_refl order_trans zero_le_divide_1_iff zero_le_numeral zero_le_power)

lemma mid_mono:
  assumes "mid b r" "b \<le> c"
  shows "mid c r"
proof -
  have "(1::rat) / 2 ^ c \<le> 1 / 2 ^ b" "(2::rat) ^ b \<le> 2 ^ c"
    using assms(2) by (simp_all add: frac_le power_increasing)
  then show ?thesis using assms(1) unfolding mid_def by linarith
qed

lemma mid_mult:
  assumes "mid a x" "mid b y"
  shows "mid (a + b) (x * y)"
proof (cases "x = 0 \<or> y = 0")
  case False
  then have x: "1 / 2 ^ a \<le> x" "x \<le> 2 ^ a" and y: "1 / 2 ^ b \<le> y" "y \<le> 2 ^ b"
    using assms by (auto simp: mid_def)
  have "1 / 2 ^ a * (1 / 2 ^ b) \<le> x * y" using x(1) y(1) mid_nonneg [OF assms(1)] by (intro mult_mono) simp_all
  moreover have "x * y \<le> 2 ^ a * 2 ^ b"
    using x(2) y(2) mid_nonneg [OF assms(2)] by (intro mult_mono) simp_all
  ultimately show ?thesis by (simp add: mid_def power_add)
qed (auto simp: mid_def)

lemma mid_add:
  assumes "mid b x" "mid b y"
  shows "mid (Suc b) (x + y)"
proof (cases "x = 0 \<or> y = 0")
  case True
  then show ?thesis using assms mid_mono [of b _ "Suc b"] by auto
next
  case False
  then have x: "1 / 2 ^ b \<le> x" "x \<le> 2 ^ b" and y: "1 / 2 ^ b \<le> y" "y \<le> 2 ^ b"
    using assms by (auto simp: mid_def)
  have "1 / 2 ^ Suc b \<le> (1 / 2 ^ b :: rat)" by (simp add: frac_le)
  then show ?thesis using x y mid_nonneg [OF assms(2)] by (simp add: mid_def)
qed

text \<open>One rounding.\<close>

lemma round_near:
  assumes "mid b r" "b \<le> 1000"
  shows "isfinite (mk s r)" "near 1 (val (mk s r)) r" "mid (Suc b) (val (mk s r))"
proof -
  have r0: "0 \<le> r" using mid_nonneg assms(1) .
  have "r \<le> 2 ^ b" using assms(1) by (auto simp: mid_def)
  also have "\<dots> \<le> (2 ^ 1000 :: rat)" using assms(2) by (intro power_increasing) simp_all
  finally have "\<bar>r\<bar> \<le> 2 powi 1000" using r0 by simp
  moreover have "rnd53 (2 powi 1000) = 2 powi 1000"     by (rule rnd53_repr, rule repr53I [of _ 1 1000]) simp_all
  ultimately have fits: "fits r" using overflow_bound_gt [of 1000] by (intro fitsI [of _ "2 powi 1000"]) simp_all
  then show "isfinite (mk s r)" by (simp add: isfinite_mk)
  have err: "\<bar>rnd53 r - r\<bar> \<le> r * ulp"
  proof (cases "r = 0")
    case False
    then have "1 / 2 ^ b \<le> r" using assms(1) by (simp add: mid_def)
    moreover have "1 / 2 ^ 1000 \<le> (1 / 2 ^ b :: rat)"
      using power_increasing [OF assms(2), of "2 :: rat"] by (intro divide_left_mono) simp_all
    moreover have "(2::rat) powi (- 1022) \<le> 2 powi (- 1000)" by (simp only: powi2_le_iff)
    then have "(2::rat) powi (- 1022) \<le> 1 / 2 ^ 1000" by (simp add: power_int_minus_divide)
    ultimately have "2 powi (- 1022) \<le> \<bar>r\<bar>" using r0 by linarith
    from rnd53_rel_error [OF this] show ?thesis using r0 by (simp add: ulp_def)
  qed (simp add: binary64.R_zero)
  then show n: "near 1 (val (mk s r)) r"
    using fits by (simp add: near_def val_mk algebra_simps abs_le_iff)
  show "mid (Suc b) (val (mk s r))"
  proof (cases "r = 0")
    case True
    then show ?thesis using n by (simp add: near_def mid_def)
  next
    case False
    then have "1 / 2 ^ b \<le> r" "r \<le> 2 ^ b" using assms(1) by (simp_all add: mid_def)
    then show ?thesis using near_double [OF n r0] by (simp add: mid_def)
  qed
qed

end
