(* ===== verification/Backtest_Solvency.thy ===== *)
theory Backtest_Solvency
  imports Backtest_Engine Float_Error
begin

text \<open>
  The rounding guard of \<^verbatim>\<open>open_position\<close> (\<^verbatim>\<open>core/src/backtest/engine.c\<close>).
  The engine divides the cash by the price of one share with its costs, takes the floor, and
  buys one share less when the outlay of that many shares exceeds the cash; it does not check
  the smaller outlay again. The error bounds here show that it never has to.
\<close>

section \<open>Doubles in range\<close>

lemma times_near:
  assumes "isfinite a" "isfinite b" "mid i (val a)" "mid j (val b)" "i + j \<le> 1000"
  shows "isfinite (a * b)" "near 1 (val (a * b)) (val a * val b)" "mid (Suc (i + j)) (val (a * b))"
proof -
  obtain s where "a * b = mk s (val a * val b)" using times_mk assms(1,2) by blast
  then show "isfinite (a * b)" "near 1 (val (a * b)) (val a * val b)" "mid (Suc (i + j)) (val (a * b))"
    using round_near [OF mid_mult [OF assms(3,4)] assms(5)] by simp_all
qed

lemma plus_near:
  assumes "isfinite a" "isfinite b" "mid i (val a)" "mid i (val b)" "i < 1000"
  shows "isfinite (a + b)" "near 1 (val (a + b)) (val a + val b)" "mid (Suc (Suc i)) (val (a + b))"
proof -
  obtain s where "a + b = mk s (val a + val b)" using plus_mk assms(1,2) by blast
  then show "isfinite (a + b)" "near 1 (val (a + b)) (val a + val b)" "mid (Suc (Suc i)) (val (a + b))"
    using round_near [OF mid_add [OF assms(3,4)]] assms(5) by simp_all
qed

definition rate_ok :: "double \<Rightarrow> bool" where
  "rate_ok r \<longleftrightarrow> isfinite r \<and> mid 100 (val r)"

definition cost_ok :: "alpha_cost_model_t \<Rightarrow> bool" where
  "cost_ok m \<longleftrightarrow> rate_ok (commission_rate m) \<and> rate_ok (tax_rate m) \<and> rate_ok (slippage_rate m)
     \<and> val (commission_rate m) + val (tax_rate m) + val (slippage_rate m) \<le> 1 / 2"

definition price_ok :: "double \<Rightarrow> bool" where
  "price_ok p \<longleftrightarrow> isfinite p \<and> 1 \<le> val p \<and> val p \<le> 2 ^ 100"

lemma price_ok_mid: "price_ok p \<Longrightarrow> isfinite p" "price_ok p \<Longrightarrow> mid 100 (val p)" "price_ok p \<Longrightarrow> 0 < val p"
proof -
  have "1 / 2 ^ 100 \<le> (1 :: rat)" by simp
  then show "price_ok p \<Longrightarrow> mid 100 (val p)" unfolding price_ok_def mid_def by linarith
qed (simp_all add: price_ok_def)

lemma quantity_mid:
  assumes "0 \<le> q" "q \<le> 2 ^ 53"
  shows "isfinite (of_i64 q)" "val (of_i64 q) = of_int q" "mid 60 (of_int q)"
proof -
  show "isfinite (of_i64 q)" "val (of_i64 q) = of_int q" using int53_exact(3,4) [of q] assms by simp_all
  have "q \<le> 2 ^ 60" using assms by simp
  then have "(of_int q :: rat) \<le> of_int (2 ^ 60)" by (simp only: of_int_le_iff)
  moreover have "1 \<le> (of_int q :: rat)" if "q \<noteq> 0"
  proof -
    have "1 \<le> q" using that assms(1) by linarith
    then show ?thesis by simp
  qed
  moreover have "1 / 2 ^ 60 \<le> (1 :: rat)" by simp
  ultimately show "mid 60 (of_int q)" by (fastforce simp: mid_def)
qed

lemma notional_near:
  assumes "price_ok p" "0 \<le> q" "q \<le> 2 ^ 53"
  shows "isfinite (p * of_i64 q)" "near 1 (val (p * of_i64 q)) (val p * of_int q)" "mid 161 (val (p * of_i64 q))"
  using times_near [OF price_ok_mid(1) [OF assms(1)] quantity_mid(1) [OF assms(2,3)] price_ok_mid(2) [OF assms(1)], of 60]
    quantity_mid [OF assms(2,3)] by simp_all

lemma part_near:
  assumes "price_ok p" "0 \<le> q" "q \<le> 2 ^ 53" "rate_ok r"
  defines "x \<equiv> p * of_i64 q * r"
  shows "isfinite x" "near 2 (val x) (val p * of_int q * val r)" "mid 262 (val x)"
proof -
  note n = notional_near [OF assms(1-3)]
  have r: "isfinite r" "mid 100 (val r)" using assms(4) by (simp_all add: rate_ok_def)
  note t = times_near [OF n(1) r(1) n(3) r(2)]
  show "isfinite x" "mid 262 (val x)" using t by (simp_all add: x_def)
  have "near 1 (val (p * of_i64 q) * val r) (val p * of_int q * val r)"
    using n(2) mid_nonneg [OF r(2)] by (rule near_mult)
  then show "near 2 (val x) (val p * of_int q * val r)"
    using near_trans [of 1 "val x" _ 1] t(2) by (simp add: x_def numeral_2_eq_2)
qed

definition side_rates :: "alpha_cost_model_t \<Rightarrow> alpha_side_t \<Rightarrow> rat" where
  "side_rates m side = val (commission_rate m) + (if side = ALPHA_SIDE_SELL then val (tax_rate m) else 0)
     + val (slippage_rate m)"

lemma side_rates_bounds: "cost_ok m \<Longrightarrow> 0 \<le> side_rates m side \<and> side_rates m side \<le> 1 / 2"
  using mid_nonneg [of 100 "val (commission_rate m)"] mid_nonneg [of 100 "val (tax_rate m)"]
    mid_nonneg [of 100 "val (slippage_rate m)"]
  by (auto simp: cost_ok_def rate_ok_def side_rates_def)

text \<open>The whole cost of a trade, within four roundings.\<close>

lemma total_near:
  fixes side
  assumes "price_ok p" "0 \<le> q" "q \<le> 2 ^ 53" "cost_ok m"
  defines "t \<equiv> tc_total (alpha_cost_calculate m side p q)"
  shows "isfinite t" "near 4 (val t) (val p * of_int q * side_rates m side)" "mid 266 (val t)"
proof -
  let ?n = "p * of_i64 q" and ?N = "val p * of_int q"
  define tax where "tax = (if side = ALPHA_SIDE_SELL then ?n * tax_rate m else 0)"
  define tr where "tr = (if side = ALPHA_SIDE_SELL then val (tax_rate m) else 0)"
  have rates: "rate_ok (commission_rate m)" "rate_ok (tax_rate m)" "rate_ok (slippage_rate m)"
    using assms(4) by (simp_all add: cost_ok_def)
  note part = part_near [OF assms(1-3)]
  note c = part [OF rates(1)] and s = part [OF rates(3)]
  have x: "isfinite tax" "near 2 (val tax) (?N * tr)" "mid 262 (val tax)"
    using part [OF rates(2)] by (simp_all add: tax_def tr_def near_def mid_def)
  have pos: "0 \<le> ?N * val (commission_rate m)" "0 \<le> ?N * tr" "0 \<le> ?N * val (slippage_rate m)"
    using price_ok_mid(3) [OF assms(1)] assms(2) rates by (auto simp: rate_ok_def tr_def mid_nonneg)
  note cx = plus_near [OF c(1) x(1) c(3) x(3)]
  have cx3: "near 3 (val (?n * commission_rate m + tax)) (?N * val (commission_rate m) + ?N * tr)"
    using near_trans [OF cx(2) near_add [OF c(2) x(2)]] by (simp add: numeral_3_eq_3)
  have s3: "near 3 (val (?n * slippage_rate m)) (?N * val (slippage_rate m))"
    using near_mono [OF s(2) _ pos(3)] by simp
  note t3 = plus_near [OF cx(1) s(1) cx(3) mid_mono [OF s(3)]]
  have t: "t = ?n * commission_rate m + tax + ?n * slippage_rate m"
    by (simp add: t_def alpha_cost_calculate_def Let_def tax_def)
  show "isfinite t" "mid 266 (val t)" using t3 by (simp_all add: t)
  have "near (1 + 3) (val t) (?N * val (commission_rate m) + ?N * tr + ?N * val (slippage_rate m))"
    unfolding t using t3(2) by (intro near_trans [OF _ near_add [OF cx3 s3]]) simp_all
  then show "near 4 (val t) (val p * of_int q * side_rates m side)"
    by (simp add: side_rates_def tr_def distrib_left)
qed

lemma outlay_near:
  assumes "price_ok p" "0 \<le> q" "q \<le> 2 ^ 53" "cost_ok m"
  shows "isfinite (outlay m p q)" "near 5 (val (outlay m p q)) (val p * of_int q * (1 + side_rates m ALPHA_SIDE_BUY))"
    "is_double (outlay m p q)"
proof -
  note n = notional_near [OF assms(1-3)] and t = total_near [OF assms, of ALPHA_SIDE_BUY]
  have n4: "near 4 (val (p * of_i64 q)) (val p * of_int q)"
    using near_mono [OF n(2), of 4] price_ok_mid(3) [OF assms(1)] assms(2) by simp
  note s = plus_near [OF n(1) t(1) mid_mono [OF n(3)] t(3)]
  have "near (1 + 4) (val (outlay m p q)) (val p * of_int q + val p * of_int q * side_rates m ALPHA_SIDE_BUY)"
    unfolding outlay_def using s(2) by (intro near_trans [OF _ near_add [OF n4 t(2)]]) simp_all
  then show "near 5 (val (outlay m p q)) (val p * of_int q * (1 + side_rates m ALPHA_SIDE_BUY))"
    by (simp add: distrib_left)
  show "isfinite (outlay m p q)" using s by (simp add: outlay_def)
  show "is_double (outlay m p q)" by (simp add: outlay_def alpha_cost_calculate_def Let_def)
qed

lemma effective_price_near:
  assumes "price_ok p" "cost_ok m"
  shows "isfinite (effective_price m p)"
    "near 5 (val (effective_price m p)) (val p * (1 + side_rates m ALPHA_SIDE_BUY))"
    "mid 268 (val (effective_price m p))"
proof -
  note t = total_near [OF assms(1) _ _ assms(2), of 1 ALPHA_SIDE_BUY, simplified]
  note p = price_ok_mid [OF assms(1)]
  have p4: "near 4 (val p) (val p)" using near_mono [OF near_refl, of "val p" 4] p(3) by simp
  note s = plus_near [OF p(1) t(1) mid_mono [OF p(2)] t(3)]
  have "near (1 + 4) (val (effective_price m p)) (val p + val p * side_rates m ALPHA_SIDE_BUY)"
    unfolding effective_price_def using s(2) by (intro near_trans [OF _ near_add [OF p4 t(2)]]) simp_all
  then show "near 5 (val (effective_price m p)) (val p * (1 + side_rates m ALPHA_SIDE_BUY))"
    by (simp add: distrib_left)
  show "isfinite (effective_price m p)" "mid 268 (val (effective_price m p))"
    using s by (simp_all add: effective_price_def)
qed

section \<open>The guard\<close>

lemma ulp_powers: "(1 + ulp) ^ 6 \<le> 1 + 7 * ulp" "1 - 5 * ulp \<le> (1 - ulp) ^ 5"
  by (simp_all add: ulp_def field_simps)

text \<open>One share less is worth more than all roundings together, up to \<open>2^49\<close> shares.\<close>

lemma guard_margin:
  assumes "1 \<le> q" "q \<le> 2 ^ 49"
  shows "(of_int q - 1) * (1 + ulp) ^ 6 \<le> of_int q * (1 - ulp) ^ 5"
proof -
  have q: "1 \<le> (of_int q :: rat)" using assms(1) by simp
  have "of_int q \<le> (of_int (2 ^ 49) :: rat)" using assms(2) by (simp only: of_int_le_iff)
  then have "of_int q * ulp \<le> 2 ^ 49 * ulp" using ulp_bounds by (intro mult_right_mono) simp_all
  then have m: "12 * (of_int q * ulp) \<le> 1" by (simp add: ulp_def)
  have "(of_int q - 1) * (1 + ulp) ^ 6 \<le> (of_int q - 1) * (1 + 7 * ulp)"
    using q ulp_powers(1) by (intro mult_left_mono) simp_all
  also have "\<dots> \<le> of_int q * (1 - 5 * ulp)"
    using m ulp_bounds by (simp add: algebra_simps)
  also have "\<dots> \<le> of_int q * (1 - ulp) ^ 5"
    using q ulp_powers(2) by (intro mult_left_mono) simp_all
  finally show ?thesis .
qed

definition solvent :: "double \<Rightarrow> bool" where
  "solvent c \<longleftrightarrow> is_double c \<and> isfinite c \<and> 0 \<le> val c"

lemma half_exact: "isfinite (lit (1 / 2))" "val (lit (1 / 2)) = 1 / 2"
proof -
  have r: "rnd53 (1 / 2) = 1 / 2"
    by (rule rnd53_repr, rule repr53I [of _ 1 "- 1"]) (simp_all add: power_int_minus_divide)
  then have "fits (1 / 2)" using overflow_bound_gt [of 0] by (intro fitsI [of _ "1 / 2"]) simp_all
  then show "isfinite (lit (1 / 2))" "val (lit (1 / 2)) = 1 / 2"
    using r by (simp_all add: lit_def isfinite_mk val_mk)
qed

text \<open>The quotient of cash and price: its floor is defined and bounds the cash from below.\<close>

lemma quantity_bounds:
  assumes "price_ok p" "cost_ok m" "solvent c" "val c \<le> 2 ^ 48 * val p"
  obtains q0 where "to_i64 (floor_d (c / effective_price m p)) = Some q0" "0 \<le> q0" "q0 \<le> 2 ^ 49"
    "of_int q0 * val (effective_price m p) \<le> val c * (1 + ulp)"
proof -
  let ?e = "effective_price m p"
  define E r where "E = val ?e" and "r = val c / E"
  note e = effective_price_near [OF assms(1,2)]
  have P: "0 < val p" using price_ok_mid(3) [OF assms(1)] .
  have "val p * (15 / 16) \<le> val p * (1 + side_rates m ALPHA_SIDE_BUY) * (1 - ulp) ^ 5"
  proof -
    have "15 / 16 \<le> 1 * (1 - ulp) ^ 5" using ulp_powers(2) by (simp add: ulp_def)
    also have "\<dots> \<le> (1 + side_rates m ALPHA_SIDE_BUY) * (1 - ulp) ^ 5"
      using side_rates_bounds [OF assms(2), of ALPHA_SIDE_BUY] ulp_bounds by (intro mult_right_mono) simp_all
    finally show ?thesis using P by simp
  qed
  then have E: "val p * (15 / 16) \<le> E" using e(2) by (simp add: near_def E_def)
  moreover have "0 < val p * (15 / 16)" using P by simp
  ultimately have E0: "0 < E" by linarith
  have c: "isfinite c" "0 \<le> val c" using assms(3) by (simp_all add: solvent_def)
  have "val c \<le> 2 ^ 49 * (val p * (15 / 16))" using assms(4) P by simp
  also have "\<dots> \<le> 2 ^ 49 * E" using E by (intro mult_left_mono) simp_all
  finally have r: "0 \<le> r" "r \<le> 2 ^ 49" using c(2) E0 by (simp_all add: r_def divide_le_eq)
  obtain s where q: "c / ?e = mk s r"
    using divide_mk [of c ?e] c(1) e(1) E0 by (auto simp: r_def E_def)
  have Q: "isfinite (c / ?e)" "0 \<le> val (c / ?e)" "val (c / ?e) \<le> 2 ^ 49"
    using mk_between(1,5,6) [OF q, of 0 "lit (2 ^ 49)"] r by simp_all
  define k where "k = \<lfloor>val (c / ?e)\<rfloor>"
  have k: "0 \<le> k" "k \<le> 2 ^ 49" "of_int k \<le> val (c / ?e)"
    using Q by (simp_all add: k_def floor_le_iff)
  have "isfinite (floor_d (c / ?e)) \<and> val (floor_d (c / ?e)) = of_int k"
    using Q(1) fits_int53 [of k] rnd53_int [of k] k
    by (simp add: floor_d_def k_def [symmetric] isfinite_mk val_mk)
  then have "to_i64 (floor_d (c / ?e)) = Some k" using k by (simp add: to_i64_def trunc_rat_def)
  moreover have "of_int k * E \<le> val c * (1 + ulp)"
  proof (cases "k = 0")
    case False
    then have "1 \<le> (of_int k :: rat)" using k(1) by simp
    then have "1 \<le> val (c / ?e)" using k(3) by linarith
    moreover have "val (c / ?e) \<le> 1 / 2" if "r \<le> 1 / 2"
      using mk_between(6) [OF q, of 0 "lit (1 / 2)"] that r(1) half_exact by simp
    ultimately have "1 / 2 < r" by fastforce
    then have "mid 60 r" using r(2) by (simp add: mid_def)
    from round_near(2) [OF this, of s] have "val (c / ?e) \<le> r * (1 + ulp)" by (simp add: q near_def)
    then have "of_int k * E \<le> r * (1 + ulp) * E" using k(3) E0 by (intro mult_right_mono) simp_all
    then show ?thesis using E0 by (simp add: r_def)
  qed (use c(2) ulp_bounds in simp)
  ultimately show ?thesis using that k by (simp add: E_def)
qed

lemma minus_solvent:
  assumes "solvent c" "is_double x" "isfinite x" "0 \<le> val x" "val x \<le> val c"
  shows "solvent (c - x)"
proof -
  obtain s where d: "c - x = mk s (val c - val x)" using minus_mk [of c x] assms by (auto simp: solvent_def)
  show ?thesis using mk_between [OF d, of 0 c] assms by (simp add: solvent_def)
qed

lemma outlay_affordable:
  assumes "price_ok p" "cost_ok m" "solvent c" "val c \<le> 2 ^ 48 * val p"
    "to_i64 (floor_d (c / effective_price m p)) = Some q0"
    "q = (if outlay m p q0 > c then q0 - 1 else q0)" "0 < q"
  shows "q \<le> 2 ^ 49" "0 \<le> val (outlay m p q)" "val (outlay m p q) \<le> val c"
proof -
  from quantity_bounds [OF assms(1-4)] assms(5) have
    q0: "0 \<le> q0" "q0 \<le> 2 ^ 49" "of_int q0 * val (effective_price m p) \<le> val c * (1 + ulp)" by auto
  show q49: "q \<le> 2 ^ 49" using q0(2) assms(6) by (auto split: if_splits)
  define B where "B = val p * (1 + side_rates m ALPHA_SIDE_BUY)"
  have B: "0 \<le> B"
    using price_ok_mid(3) [OF assms(1)] side_rates_bounds [OF assms(2), of ALPHA_SIDE_BUY] by (simp add: B_def)
  have out: "near 5 (val (outlay m p k)) (B * of_int k)" "isfinite (outlay m p k)" if "0 \<le> k" "k \<le> 2 ^ 53" for k
    using outlay_near [OF assms(1) that assms(2)] by (simp_all add: B_def algebra_simps)
  show "0 \<le> val (outlay m p q)" using near_nonneg [OF out(1)] B assms(7) q49 by simp
  show "val (outlay m p q) \<le> val c"
  proof (cases "outlay m p q0 > c")
    case False
    then have "\<not> c < outlay m p q" "isfinite (outlay m p q)" "isfinite c"
      using assms(3,6) out(2) [of q0] q0 by (simp_all add: solvent_def)
    then show ?thesis by (simp add: less_finite)
  next
    case True
    then have q: "q = q0 - 1" "1 \<le> q0" using assms(6,7) by simp_all
    have "val (outlay m p q) * (1 + ulp) \<le> B * of_int q * (1 + ulp) ^ 5 * (1 + ulp)"
      using out(1) [of q] assms(7) q49 ulp_bounds by (intro mult_right_mono) (simp_all add: near_def)
    also have "\<dots> = B * ((of_int q0 - 1) * (1 + ulp) ^ 6)"
      using q by (simp add: power_Suc2 [symmetric] mult.assoc)
    also have "\<dots> \<le> B * (of_int q0 * (1 - ulp) ^ 5)"
      using guard_margin [OF q(2) q0(2)] B by (intro mult_left_mono)
    also have "\<dots> = of_int q0 * (B * (1 - ulp) ^ 5)" by (simp only: mult_ac)
    also have "\<dots> \<le> of_int q0 * val (effective_price m p)"
      using effective_price_near(2) [OF assms(1,2)] q0(1) by (intro mult_left_mono) (simp_all add: near_def B_def)
    also have "\<dots> \<le> val c * (1 + ulp)" by (rule q0(3))
    finally show ?thesis using ulp_bounds by simp
  qed
qed

definition engine_ok :: "engine_state_t \<Rightarrow> bool" where
  "engine_ok st \<longleftrightarrow> solvent (cash st) \<and> 0 \<le> position_qty st \<and> position_qty st \<le> 2 ^ 49"

lemma open_position_ok:
  assumes "price_ok p" "cost_ok m" "engine_ok st" "val (cash st) \<le> 2 ^ 48 * val p"
  shows "\<exists>st' tr. open_position st m cfg date p = Some (st', tr) \<and> engine_ok st'"
proof -
  have s: "solvent (cash st)" using assms(3) by (simp add: engine_ok_def)
  obtain q0 where q0: "to_i64 (floor_d (cash st / effective_price m p)) = Some q0"
    by (rule quantity_bounds [OF assms(1,2) s assms(4)])
  then have "open_position st m cfg date p \<noteq> None"
    by (simp add: open_position_def effective_price_def [symmetric] Let_def)
  then obtain st' tr where o: "open_position st m cfg date p = Some (st', tr)" by auto
  then have "engine_ok st'"
  proof (cases rule: open_position_cases)
    case (2 q0 q)
    note a = outlay_affordable [OF assms(1,2) s assms(4) 2(1,3,4)]
    note n = outlay_near [OF assms(1) _ _ assms(2), of q]
    have "solvent (cash st - outlay m p q)" using a n 2(4) by (intro minus_solvent [OF s]) simp_all
    then show ?thesis using 2(4,5) a(1) by (simp add: engine_ok_def)
  qed (use assms(3) in simp)
  then show ?thesis using o by blast
qed

lemma ulp_half: "1 / 2 * (1 + ulp) ^ 4 \<le> 1 - ulp"
  by (simp add: ulp_def field_simps)

lemma lit_162: "isfinite (lit (2 ^ 162))" "val (lit (2 ^ 162)) = 2 ^ 162"
proof -
  have r: "rnd53 (2 powi 162) = 2 powi 162"
    by (rule rnd53_repr, rule repr53I [of _ 1 162]) simp_all
  then have "fits (2 powi 162)" using overflow_bound_gt [of 162] by (intro fitsI [of _ "2 powi 162"]) simp_all
  then show "isfinite (lit (2 ^ 162))" "val (lit (2 ^ 162)) = 2 ^ 162"
    using r by (simp_all add: lit_def isfinite_mk val_mk)
qed

text \<open>A sale brings in at least half of its notional value.\<close>

lemma close_position_ok:
  assumes "price_ok p" "cost_ok m" "engine_ok st" "val (cash st) \<le> 2 ^ 148"
  shows "engine_ok (fst (close_position st m cfg date p))"
proof -
  let ?q = "position_qty st"
  let ?n = "p * of_i64 ?q" and ?t = "tc_total (alpha_cost_calculate m ALPHA_SIDE_SELL p ?q)"
  define N where "N = val p * of_int ?q"
  have q: "0 \<le> ?q" "?q \<le> 2 ^ 53" and s: "solvent (cash st)" using assms(3) by (simp_all add: engine_ok_def)
  note n = notional_near [OF assms(1) q] and t = total_near [OF assms(1) q assms(2), of ALPHA_SIDE_SELL]
  have N: "0 \<le> N" using price_ok_mid(3) [OF assms(1)] q(1) by (simp add: N_def)
  have "val ?t \<le> N * side_rates m ALPHA_SIDE_SELL * (1 + ulp) ^ 4" using t(2) by (simp add: near_def N_def)
  also have "\<dots> \<le> N * (1 / 2) * (1 + ulp) ^ 4"
    using side_rates_bounds [OF assms(2), of ALPHA_SIDE_SELL] N ulp_bounds
    by (intro mult_right_mono mult_left_mono) simp_all
  also have "\<dots> \<le> N * (1 - ulp)"
    using N mult_left_mono [OF ulp_half, of N] by (simp only: mult.assoc)
  also have "\<dots> \<le> val ?n" using n(2) by (simp add: near_def N_def)
  finally have le: "val ?t \<le> val ?n" .
  have t0: "0 \<le> val ?t" using mid_nonneg [OF t(3)] .
  have "solvent ?n" using n(1) mid_nonneg [OF n(3)] by (simp add: solvent_def)
  then have d: "solvent (?n - ?t)"
    using t(1) t0 le by (intro minus_solvent) (simp_all add: alpha_cost_calculate_def Let_def)
  obtain sg where dd: "?n - ?t = mk sg (val ?n - val ?t)" using minus_mk n(1) t(1) by blast
  have "val ?n - val ?t \<le> val ?n" using t0 by simp
  then have "val (?n - ?t) \<le> val ?n"
    using mk_between(6) [OF dd, of 0 ?n] \<open>solvent ?n\<close> le by (simp add: solvent_def)
  moreover have "val ?n \<le> 2 ^ 161" using n(3) by (auto simp: mid_def)
  ultimately have sum: "val (cash st) + val (?n - ?t) \<le> 2 ^ 162" using assms(4) by simp
  obtain s3 where c: "cash st + (?n - ?t) = mk s3 (val (cash st) + val (?n - ?t))"
    using plus_mk [of "cash st" "?n - ?t"] s d by (auto simp: solvent_def)
  have "solvent (cash st + (?n - ?t))"
    using mk_between [OF c, of 0 "lit (2 ^ 162)"] sum s d lit_162 by (simp add: solvent_def)
  then show ?thesis by (simp add: close_position_def Let_def engine_ok_def)
qed

lemma apply_signal_ok:
  assumes "price_ok p" "cost_ok m" "engine_ok st" "val (cash st) \<le> 2 ^ 48"
  shows "\<exists>st' tr. apply_signal m cfg signal date p st = Some (st', tr) \<and> engine_ok st'"
proof -
  have "2 ^ 48 * 1 \<le> 2 ^ 48 * val p" using assms(1) by (intro mult_left_mono) (simp_all add: price_ok_def)
  then have c: "val (cash st) \<le> 2 ^ 48 * val p" "val (cash st) \<le> 2 ^ 148" using assms(4) by simp_all
  show ?thesis
    using open_position_ok [OF assms(1-3) c(1)] close_position_ok [OF assms(1-3) c(2), of cfg date] assms(3)
    by (auto simp: apply_signal_def split_def)
qed

lemma run_bars_solvent:
  assumes "cost_ok m" "\<forall>(d, p) \<in> set bars. price_ok p" "engine_ok st" "val (cash st) \<le> 2 ^ 48"
    "\<And>k ts ss. run_bars m cfg sf ps i (take k bars) ctx st = Some (ts, ss) \<Longrightarrow> \<forall>s\<in>set ss. val (sn_cash s) \<le> 2 ^ 48"
  shows "\<exists>ts ss. run_bars m cfg sf ps i bars ctx st = Some (ts, ss) \<and> (\<forall>s\<in>set ss. solvent (sn_cash s))"
  using assms(2-)
proof (induction bars arbitrary: i ctx st)
  case (Cons bar bars)
  obtain date p where bar: "bar = (date, p)" by (cases bar)
  obtain signal ctx' where sf: "sf ctx date ps (i + 1) (position_qty st) = (signal, ctx')" by fastforce
  have "price_ok p" using Cons.prems(1) bar by auto
  from apply_signal_ok [OF this assms(1) Cons.prems(2,3)] obtain st' tr where
    step: "apply_signal m cfg signal date p st = Some (st', tr)" "engine_ok st'" by blast
  define st'' where "st'' = fst (take_snapshot st' date p)"
  define snap where "snap = snd (take_snapshot st' date p)"
  have st'': "engine_ok st''" "cash st'' = cash st'" using step(2) by (simp_all add: st''_def engine_ok_def)
  have run: "run_bars m cfg sf ps i (take (Suc k) (bar # bars)) ctx st =
      (case run_bars m cfg sf ps (i + 1) (take k bars) ctx' st'' of None \<Rightarrow> None
       | Some (ts, ss) \<Rightarrow> Some ((case tr of None \<Rightarrow> ts | Some t \<Rightarrow> t # ts), snap # ss))" for k
  proof -
    have "take_snapshot st' date p = (st'', snap)" by (simp add: st''_def snap_def)
    then show ?thesis by (simp add: bar sf [simplified] step(1))
  qed
  have "val (sn_cash snap) \<le> 2 ^ 48" using Cons.prems(4) [of "Suc 0"] run [of 0] by auto
  then have cash: "val (cash st'') \<le> 2 ^ 48" by (simp add: snap_def st''_def)
  have "\<forall>s\<in>set ss. val (sn_cash s) \<le> 2 ^ 48"
    if "run_bars m cfg sf ps (i + 1) (take k bars) ctx' st'' = Some (ts, ss)" for k ts ss
    using Cons.prems(4) [of "Suc k"] run [of k] that by auto
  then obtain ts ss where
    "run_bars m cfg sf ps (i + 1) bars ctx' st'' = Some (ts, ss)" "\<forall>s\<in>set ss. solvent (sn_cash s)"
    using Cons.IH [of st'' "i + 1" ctx'] Cons.prems(1) st''(1) cash by auto
  moreover have "solvent (sn_cash snap)" using step(2) by (simp add: snap_def engine_ok_def)
  ultimately show ?case using run [of "length bars"] by auto
qed simp

lemma bounded_val: "x \<le> lit (2 ^ 48) \<Longrightarrow> val x \<le> 2 ^ 48"
proof (cases "isfinite x")
  case True
  moreover assume "x \<le> lit (2 ^ 48)"
  ultimately show ?thesis by (simp add: le_finite)
next
  case False
  then show ?thesis by (cases x) simp_all
qed

lemma shorter_run_snapshots:
  assumes "signal_seam sf"
    "alpha_backtest_run pow_d alloc scratch (Some cfg) (Some ps) (Some ds) n (Some sf) ctx (Some cm) True
       = Some (ALPHA_OK, Some r)"
    "alpha_backtest_run pow_d alloc scratch (Some cfg) (Some ps) (Some ds) k (Some sf) ctx (Some cm) True
       = Some (ALPHA_OK, Some r')" "k \<le> n"
  shows "set (r_snapshots r') \<subseteq> set (r_snapshots r)"
proof -
  let ?bars = "zip (take n ds) (take n ps)"
  have "take k ?bars = zip (take k ds) (take k ps)" using assms(4) by (simp add: take_zip min_def)
  then have k: "run_bars cm cfg sf ps 0 (take k ?bars) ctx (engine_init cfg) = Some (r_trades r', r_snapshots r')"
    using alpha_backtest_run_OK(1) [OF assms(3)] by simp
  have "run_bars cm cfg sf ps 0 (take k ?bars @ drop k ?bars) ctx (engine_init cfg) = Some (r_trades r, r_snapshots r)"
    using alpha_backtest_run_OK(1) [OF assms(2)] by simp
  from signal_seam.run_bars_prefix [OF assms(1) this refl]
  have "r_snapshots r' = take (length (take k ?bars)) (r_snapshots r)" using k by auto
  then show ?thesis by (metis set_take_subset)
qed

lemma example_run_cash:
  assumes "k \<le> 2" "example_run k = Some (ALPHA_OK, Some r)"
  shows "\<forall>s\<in>set (r_snapshots r). sn_cash s \<in> {Fin 0, Fin 1100}"
proof -
  obtain r2 where r2: "example_run 2 = Some (ALPHA_OK, Some r2)" "map sn_cash (r_snapshots r2) = [Fin 0, Fin 1100]"
    using example_run_ok by (elim exE conjE)
  have "set (r_snapshots r) \<subseteq> set (r_snapshots r2)"
    by (rule shorter_run_snapshots [OF replay.signal_seam_axioms r2(1) [unfolded example_run_def]
          assms(2) [unfolded example_run_def] assms(1)])
  moreover have "sn_cash ` set (r_snapshots r2) = {Fin 0, Fin 1100}"
    using arg_cong [OF r2(2), of set] by (simp only: set_map list.set)
  ultimately show ?thesis by blast
qed

section \<open>Properties\<close>

text \<open>
  C1. The simulated account never goes into debt, and no conversion of the engine is
  undefined. For cost rates of at most one half in sum, prices of at least 1 and a capital of
  at most \<open>2^48\<close>, as long as the cash of the snapshots stays below that bound, the run
  returns, and every snapshot has a finite non-negative cash balance and position, in binary64
  arithmetic with all its roundings. In particular one share less is always enough when the
  first outlay is too large.
\<close>

theorem backtest_never_in_debt:
  assumes "cost_ok cm" "\<forall>p\<in>set ps. price_ok p" "0 \<le> initial_capital cfg" "initial_capital cfg \<le> 2 ^ 48"
    "train_end cfg < test_start cfg" "ok_trades alloc" "ok_snapshots alloc" "n \<le> length ps" "n \<le> length ds"
    "\<And>k r. k \<le> n \<Longrightarrow>
       alpha_backtest_run pow_d alloc scratch (Some cfg) (Some ps) (Some ds) k (Some sf) ctx (Some cm) True
         = Some (ALPHA_OK, Some r) \<Longrightarrow> \<forall>s\<in>set (r_snapshots r). sn_cash s \<le> lit (2 ^ 48)"
  shows "\<exists>r. alpha_backtest_run pow_d alloc scratch (Some cfg) (Some ps) (Some ds) n (Some sf) ctx (Some cm) True
         = Some (ALPHA_OK, Some r)
       \<and> (\<forall>s\<in>set (r_snapshots r). isfinite (sn_cash s) \<and> 0 \<le> sn_cash s \<and> 0 \<le> sn_position_qty s)"
proof -
  let ?bars = "zip (take n ds) (take n ps)"
  let ?run = "\<lambda>bs. run_bars cm cfg sf ps 0 bs ctx (engine_init cfg)"
  have init: "engine_ok (engine_init cfg)" "val (cash (engine_init cfg)) \<le> 2 ^ 48"
    using assms(3,4) int53_exact(3,4) [of "initial_capital cfg"]
      of_int_le_iff [of "initial_capital cfg" "2 ^ 48", where ?'a = rat]
    by (simp_all add: engine_ok_def engine_init_def solvent_def)
  have bars: "\<forall>(d, p)\<in>set ?bars. price_ok p"
    using assms(2) by (auto dest!: set_zip_rightD in_set_takeD)
  have bound: "\<forall>s\<in>set ss. val (sn_cash s) \<le> 2 ^ 48" if run: "?run (take k ?bars) = Some (ts, ss)" for k ts ss
  proof -
    define j where "j = min k n"
    have "take k ?bars = zip (take j ds) (take j ps)" by (simp add: take_zip j_def)
    then obtain r where
      r: "alpha_backtest_run pow_d alloc scratch (Some cfg) (Some ps) (Some ds) j (Some sf) ctx (Some cm) True
           = Some (ALPHA_OK, Some r)" "r_snapshots r = ss"
      using run assms(5-7) by (auto simp: alpha_backtest_run_def)
    have "sn_cash s \<le> lit (2 ^ 48)" if "s \<in> set ss" for s
      using assms(10) [of j r] r that by (simp add: j_def)
    then show ?thesis by (intro ballI bounded_val)
  qed
  have "\<exists>ts ss. ?run ?bars = Some (ts, ss) \<and> (\<forall>s\<in>set ss. solvent (sn_cash s))"
    by (rule run_bars_solvent [OF assms(1) bars init], rule bound)
  then obtain ts ss where run: "?run ?bars = Some (ts, ss)" "\<forall>s\<in>set ss. solvent (sn_cash s)"
    by (elim exE conjE)
  have "\<forall>s\<in>set ss. 0 \<le> sn_position_qty s"
    using run_bars_trades [OF run(1)] by (simp add: engine_init_def)
  then show ?thesis
    using assms(5-7) run by (auto simp: alpha_backtest_run_def solvent_def le_finite)
qed

theorem backtest_never_in_debt_witness:
  "\<exists>r. example_run 2 = Some (ALPHA_OK, Some r)
     \<and> list_all (\<lambda>s. isfinite (sn_cash s) \<and> 0 \<le> sn_cash s \<and> 0 \<le> sn_position_qty s) (r_snapshots r)"
  unfolding example_run_def list_all_iff
proof (rule backtest_never_in_debt)
  show "cost_ok example_cost" by (simp add: cost_ok_def example_cost_def rate_ok_def mid_def)
  show "\<forall>p\<in>set [lit 100, lit 110]. price_ok p" by (simp add: price_ok_def)
  show "\<forall>s\<in>set (r_snapshots r). sn_cash s \<le> lit (2 ^ 48)"
    if "k \<le> 2" "alpha_backtest_run (\<lambda>x y. x)
         \<lparr>ok_trades = True, ok_snapshots = True, ok_returns = True, ok_queue = True\<rparr> [0, 0] (Some example_config)
         (Some [lit 100, lit 110]) (Some [2, 3]) k (Some alpha_replay_signal) example_source (Some example_cost) True
       = Some (ALPHA_OK, Some r)" for k r
    using example_run_cash [OF that(1), unfolded example_run_def, OF that(2)]
    by (auto simp: le_finite)
qed (simp_all add: example_config_def)

end
