(* ===== verification/Stable_Order.thy ===== *)
theory Stable_Order
  imports IEEE_Double "HOL-Library.Product_Lexorder" "HOL-Library.Multiset"
begin

text \<open>
  Selections by a floating point key. The comparison of doubles is a linear order only
  without NaN; \<open>dkey\<close> embeds the doubles that are numbers into a linear order of the
  library, so that its stable sort is the reference for the selections of the sources.
\<close>

section \<open>A linear order of doubles\<close>

fun dkey :: "double \<Rightarrow> int \<times> rat" where
  "dkey NInf = (- 1, 0)"
| "dkey PInf = (1, 0)"
| "dkey d = (0, val d)"

text \<open>The key of a descending order.\<close>

definition dkey_desc :: "double \<Rightarrow> int \<times> rat" where
  "dkey_desc d = (- fst (dkey d), - snd (dkey d))"

lemma less_dkey: "\<not> is_nan a \<Longrightarrow> \<not> is_nan b \<Longrightarrow> a < b \<longleftrightarrow> dkey a < dkey b"
  by (cases a; cases b) (auto simp: less_double_def less_eq_double_def less_prod_simp)

lemma less_dkey_desc: "\<not> is_nan a \<Longrightarrow> \<not> is_nan b \<Longrightarrow> a < b \<longleftrightarrow> dkey_desc b < dkey_desc a"
  by (simp add: less_dkey dkey_desc_def) (auto simp: less_prod_def')

section \<open>Stable sorting\<close>

text \<open>A stable sort puts a new last element behind everything that is not larger.\<close>

lemma sort_key_snoc:
  fixes f :: "'a \<Rightarrow> 'k::linorder"
  shows "sort_key f (xs @ [x]) =
    takeWhile (\<lambda>y. f y \<le> f x) (sort_key f xs) @ x # dropWhile (\<lambda>y. f y \<le> f x) (sort_key f xs)"
    (is "_ = ?t @ x # ?d")
proof (rule properties_for_sort_key)
  let ?s = "sort_key f xs"
  have s: "?t @ ?d = ?s" by simp
  then have "mset ?t + mset ?d = mset xs" by (metis mset_append mset_sort)
  then show "mset (?t @ x # ?d) = mset (xs @ [x])" by simp
  have d: "f x < f y" if "y \<in> set ?d" for y
  proof -
    have "sorted (map f ?t @ map f ?d)" by (simp add: map_append [symmetric] del: map_append)
    then have "sorted (map f ?d)" by (simp add: sorted_append)
    moreover have "f x < f (hd ?d)" using hd_dropWhile [of "\<lambda>y. f y \<le> f x" ?s] that
      by (cases ?d) (auto simp: not_le)
    ultimately show ?thesis using that by (cases ?d) (auto intro: less_le_trans)
  qed
  have t: "f y \<le> f x" if "y \<in> set ?t" for y using that by (auto dest: set_takeWhileD)
  show "filter (\<lambda>y. f k = f y) (?t @ x # ?d) = filter (\<lambda>y. f k = f y) (xs @ [x])" for k
  proof -
    have "filter (\<lambda>y. f k = f y) ?t @ filter (\<lambda>y. f k = f y) ?d = filter (\<lambda>y. f k = f y) ?s"
      using s by (metis filter_append)
    also have "\<dots> = filter (\<lambda>y. f k = f y) xs" using sort_key_stable [of f "f k" xs] by (simp add: eq_commute)
    finally have e: "filter (\<lambda>y. f k = f y) ?t @ filter (\<lambda>y. f k = f y) ?d = filter (\<lambda>y. f k = f y) xs" .
    show ?thesis
    proof (cases "f k = f x")
      case True
      then have "filter (\<lambda>y. f k = f y) ?d = []" using d by (force simp: filter_empty_conv)
      then show ?thesis using e True by simp
    qed (use e in simp)
  qed
  have "sorted (map f ?t @ map f ?d)" by (simp add: map_append [symmetric] del: map_append)
  then have "sorted (map f ?t)" "sorted (map f ?d)" by (simp_all add: sorted_append)
  moreover have "f a \<le> f b" if "a \<in> set ?t" "b \<in> set (x # ?d)" for a b
    using that(2) t [OF that(1)] d [of b] by (cases "b = x") (simp, metis less_imp_le order_trans set_ConsD)
  moreover have "\<forall>b\<in>set ?d. f x \<le> f b" using d by (meson less_imp_le)
  then have "sorted (map f (x # ?d))" using \<open>sorted (map f ?d)\<close> by simp
  ultimately show "sorted (map f (?t @ x # ?d))" unfolding map_append sorted_append set_map by blast
qed

text \<open>A stable sort starts with the first of the smallest elements.\<close>

lemma sort_key_first_min:
  fixes f :: "'a \<Rightarrow> 'k::linorder"
  assumes "distinct (as @ x # bs)" "\<forall>a\<in>set as. f x < f a" "\<forall>b\<in>set bs. f x \<le> f b"
  shows "sort_key f (as @ x # bs) = x # sort_key f (as @ bs)"
proof (rule properties_for_sort_key)
  show "mset (x # sort_key f (as @ bs)) = mset (as @ x # bs)" by simp
  show "sorted (map f (x # sort_key f (as @ bs)))" using assms(2,3) by (auto simp: less_imp_le)
  show "filter (\<lambda>y. f k = f y) (x # sort_key f (as @ bs)) = filter (\<lambda>y. f k = f y) (as @ x # bs)" for k
  proof -
    have e: "filter (\<lambda>y. f k = f y) (sort_key f (as @ bs)) = filter (\<lambda>y. f k = f y) (as @ bs)"
      using sort_key_stable [of f "f k" "as @ bs"] by (simp add: eq_commute)
    show ?thesis
    proof (cases "f k = f x")
      case True
      then have "filter (\<lambda>y. f k = f y) as = []" using assms(2) by (force simp: filter_empty_conv)
      then show ?thesis using e True by simp
    qed (use e in simp)
  qed
qed

section \<open>The interface of a selection\<close>

text \<open>A routine that selects at most \<open>n\<close> entries in the order of a key, the earlier entry
  first among equal ones.\<close>

locale stable_selection =
  fixes key :: "'a \<Rightarrow> 'k::linorder" and select :: "nat \<Rightarrow> 'a list \<Rightarrow> 'a list" and admissible :: "'a list \<Rightarrow> bool"
    and capacity :: "nat \<Rightarrow> bool"
  assumes select_eq: "admissible xs \<Longrightarrow> capacity n \<Longrightarrow> select n xs = take n (sort_key key xs)"
begin

lemma select_length: "admissible xs \<Longrightarrow> capacity n \<Longrightarrow> length (select n xs) = min n (length xs)"
  by (simp add: select_eq)

lemma select_subset: "admissible xs \<Longrightarrow> capacity n \<Longrightarrow> set (select n xs) \<subseteq> set xs"
  using set_take_subset [of n "sort_key key xs"] by (simp add: select_eq)

lemma select_sorted: "admissible xs \<Longrightarrow> capacity n \<Longrightarrow> sorted (map key (select n xs))"
  by (simp add: select_eq take_map [symmetric] sorted_wrt_take)

text \<open>Nothing that is left out is strictly better than something that is selected.\<close>

lemma select_best:
  assumes "admissible xs" "capacity n" "distinct xs" "a \<in> set (select n xs)" "b \<in> set xs" "b \<notin> set (select n xs)"
  shows "key a \<le> key b"
proof -
  let ?s = "sort_key key xs"
  have "b \<in> set (drop n ?s)"
    using assms by (metis UnE append_take_drop_id select_eq set_append set_sort)
  moreover have "a \<in> set (take n ?s)" using assms by (simp add: select_eq)
  moreover have "sorted (map key (take n ?s) @ map key (drop n ?s))"
    by (simp add: map_append [symmetric] del: map_append)
  ultimately show ?thesis by (auto simp: sorted_append)
qed

end

end
