(* ===== verification/Risk_Gates.thy ===== *)
theory Risk_Gates
  imports Stable_Order Float_Error
begin

text \<open>
  Risk gates (\<^verbatim>\<open>core/src/risk/gates.c\<close>, \<^verbatim>\<open>core/src/portfolio/sizing.c\<close>,
  \<^verbatim>\<open>core/include/alpha/risk.h\<close>): exits of single positions, the drawdown rule that
  sells the two weakest positions, the daily loss limit and the size limit of a position.
\<close>

section \<open>The code\<close>

record alpha_risk_config_t =
  max_position_pct :: int
  daily_loss_limit_pct :: int
  individual_stop_loss_pct :: int
  take_profit_pct :: int
  portfolio_drawdown_limit_pct :: int

definition alpha_risk_config_default :: alpha_risk_config_t where
  "alpha_risk_config_default =
     \<lparr>max_position_pct = 20, daily_loss_limit_pct = 3, individual_stop_loss_pct = 7,
      take_profit_pct = 5, portfolio_drawdown_limit_pct = 8\<rparr>"

record alpha_position_t =
  pos_ticker :: string
  pos_quantity :: int
  avg_fill_price :: double
  current_price :: double

datatype alpha_exit_kind_t = ALPHA_EXIT_NONE | ALPHA_EXIT_TAKE_PROFIT | ALPHA_EXIT_STOP_LOSS

text \<open>The profit of a position in percent, an expression that two gates share.\<close>

definition pnl_pct_of :: "alpha_position_t \<Rightarrow> double" where
  "pnl_pct_of position =
     (current_price position - avg_fill_price position) / avg_fill_price position * lit 100"

text \<open>The second component is what is stored through the output pointer, when it is not
  null.\<close>

definition alpha_check_rule_based_exit ::
    "alpha_position_t \<Rightarrow> alpha_risk_config_t \<Rightarrow> bool \<Rightarrow> alpha_exit_kind_t \<times> double option" where
  "alpha_check_rule_based_exit position config pnl_pct_out =
     (if pos_quantity position \<le> 0 then (ALPHA_EXIT_NONE, None)
      else if avg_fill_price position \<le> 0 \<or> current_price position \<le> 0 then (ALPHA_EXIT_NONE, None)
      else let pnl_pct = pnl_pct_of position;
               stored = (if pnl_pct_out then Some pnl_pct else None)
           in if of_i64 (take_profit_pct config) \<le> pnl_pct then (ALPHA_EXIT_TAKE_PROFIT, stored)
              else if pnl_pct \<le> - of_i64 (individual_stop_loss_pct config) then (ALPHA_EXIT_STOP_LOSS, stored)
              else (ALPHA_EXIT_NONE, None))"

fun exits_loop ::
    "alpha_risk_config_t \<Rightarrow> nat \<Rightarrow> alpha_position_t list \<Rightarrow> (nat \<times> alpha_exit_kind_t) list" where
  "exits_loop config i [] = []"
| "exits_loop config i (position # positions) =
     (case fst (alpha_check_rule_based_exit position config True) of
        ALPHA_EXIT_NONE \<Rightarrow> exits_loop config (i + 1) positions
      | kind \<Rightarrow> (i, kind) # exits_loop config (i + 1) positions)"

definition alpha_check_rule_based_exits ::
    "alpha_position_t list \<Rightarrow> alpha_risk_config_t \<Rightarrow> (nat \<times> alpha_exit_kind_t) list" where
  "alpha_check_rule_based_exits positions config = exits_loop config 0 positions"

text \<open>The loop that finds the two weakest positions; an index of -1 is empty.\<close>

record weakest_t =
  w_first :: int
  w_second :: int
  w_first_pnl :: double
  w_second_pnl :: double

definition weakest_step :: "alpha_position_t list \<Rightarrow> weakest_t \<Rightarrow> nat \<Rightarrow> weakest_t" where
  "weakest_step positions w i =
     (let p = positions ! i
      in if pos_quantity p \<le> 0 \<or> avg_fill_price p \<le> 0 \<or> current_price p \<le> 0 then w
         else let pnl_pct = pnl_pct_of p
              in if w_first w < 0 \<or> pnl_pct < w_first_pnl w
                 then w\<lparr>w_second := w_first w, w_second_pnl := w_first_pnl w,
                        w_first := int i, w_first_pnl := pnl_pct\<rparr>
                 else if w_second w < 0 \<or> pnl_pct < w_second_pnl w
                 then w\<lparr>w_second := int i, w_second_pnl := pnl_pct\<rparr>
                 else w)"

definition two_weakest :: "alpha_position_t list \<Rightarrow> nat list \<Rightarrow> nat list" where
  "two_weakest positions indices =
     (let w = foldl (weakest_step positions) \<lparr>w_first = - 1, w_second = - 1, w_first_pnl = 0, w_second_pnl = 0\<rparr>
                indices
      in (if w_first w \<ge> 0 then [nat (w_first w)] else []) @
         (if w_second w \<ge> 0 then [nat (w_second w)] else []))"

definition alpha_check_portfolio_drawdown ::
    "alpha_position_t list \<Rightarrow> double \<Rightarrow> double \<Rightarrow> alpha_risk_config_t \<Rightarrow> bool \<Rightarrow> nat list \<times> double option" where
  "alpha_check_portfolio_drawdown positions current_equity baseline_equity config dd_pct_out =
     (if current_equity \<le> 0 \<or> baseline_equity \<le> 0 then ([], None)
      else let dd_pct = (current_equity - baseline_equity) / baseline_equity * lit 100;
               stored = (if dd_pct_out then Some dd_pct else None)
           in if dd_pct > - of_i64 (portfolio_drawdown_limit_pct config) then ([], stored)
              else (two_weakest positions [0..<length positions], stored))"

definition alpha_is_daily_loss_blocked :: "double \<Rightarrow> alpha_risk_config_t \<Rightarrow> bool" where
  "alpha_is_daily_loss_blocked daily_realized_pnl_pct config \<longleftrightarrow>
     daily_realized_pnl_pct \<le> - of_i64 (daily_loss_limit_pct config)"

definition alpha_max_position_denominator :: "bool \<Rightarrow> double \<Rightarrow> double \<Rightarrow> double \<Rightarrow> double" where
  "alpha_max_position_denominator is_paper total_value paper_seed_capital intended_buy_value =
     (if is_paper then
        let denom = total_value;
            denom = (if paper_seed_capital > denom then paper_seed_capital else denom);
            denom = (if 1 > denom then 1 else denom)
        in denom
      else let denom = total_value + intended_buy_value in if denom > 1 then denom else 1)"

text \<open>The result and the percentage stored through the output pointer.\<close>

definition alpha_max_position_allows_buy ::
    "alpha_risk_config_t \<Rightarrow> double \<Rightarrow> double \<Rightarrow> double \<Rightarrow> bool \<Rightarrow> bool \<times> double option" where
  "alpha_max_position_allows_buy config existing_position_value intended_buy_value denominator next_weight_pct_out =
     (let next_value = existing_position_value + intended_buy_value;
          next_weight_pct = next_value / denominator * lit 100
      in (next_weight_pct \<le> of_i64 (max_position_pct config),
          if next_weight_pct_out then Some next_weight_pct else None))"

section \<open>The two weakest positions\<close>

definition live :: "alpha_position_t \<Rightarrow> bool" where
  "live p \<longleftrightarrow> 0 < pos_quantity p \<and> \<not> avg_fill_price p \<le> 0 \<and> \<not> current_price p \<le> 0"

definition sound_prices :: "alpha_position_t \<Rightarrow> bool" where
  "sound_prices p \<longleftrightarrow> isfinite (avg_fill_price p) \<and> isfinite (current_price p)"

lemma pnl_not_nan:
  assumes "live p" "sound_prices p"
  shows "\<not> is_nan (pnl_pct_of p)"
proof -
  let ?a = "avg_fill_price p" and ?c = "current_price p"
  have fin: "isfinite ?a" "isfinite ?c" and pos: "0 < val ?a" "0 < val ?c"
    using assms by (auto simp: live_def sound_prices_def le_finite)
  obtain s where "?c - ?a = mk s (val ?c - val ?a)" using minus_mk fin by blast
  then have "\<not> is_nan (?c - ?a)" by simp
  then have d: "\<not> is_nan ((?c - ?a) / ?a)" using fin pos by (auto simp: divide_double_def isfinite_not_nan)
  then show ?thesis by (auto simp: pnl_pct_of_def times_double_def)
qed

definition w_list :: "weakest_t \<Rightarrow> nat list" where
  "w_list w = (if w_first w \<ge> 0 then [nat (w_first w)] else []) @
              (if w_second w \<ge> 0 then [nat (w_second w)] else [])"

text \<open>The state of the loop after some positions: the first two entries of their stable
  sort, with their profits.\<close>

definition w_inv :: "alpha_position_t list \<Rightarrow> nat list \<Rightarrow> weakest_t \<Rightarrow> bool" where
  "w_inv ps s w \<longleftrightarrow>
     (case s of [] \<Rightarrow> w_first w = - 1 \<and> w_second w = - 1
      | [a] \<Rightarrow> w_first w = int a \<and> w_first_pnl w = pnl_pct_of (ps ! a) \<and> w_second w = - 1
      | a # b # _ \<Rightarrow> w_first w = int a \<and> w_first_pnl w = pnl_pct_of (ps ! a)
          \<and> w_second w = int b \<and> w_second_pnl w = pnl_pct_of (ps ! b))"

lemma w_inv_list: "w_inv ps s w \<Longrightarrow> w_list w = take 2 s"
  by (auto simp: w_inv_def w_list_def numeral_2_eq_2 split: list.splits)

lemma weakest_step_inv:
  fixes ps
  defines "key \<equiv> \<lambda>i. dkey (pnl_pct_of (ps ! i))"
  assumes "w_inv ps s w" "sorted (map key s)" "\<forall>i\<in>set (x # s). \<not> is_nan (pnl_pct_of (ps ! i))" "live (ps ! x)"
  shows "w_inv ps (takeWhile (\<lambda>y. key y \<le> key x) s @ x # dropWhile (\<lambda>y. key y \<le> key x) s) (weakest_step ps w x)"
proof -
  let ?f = "\<lambda>i. pnl_pct_of (ps ! i)"
  have lt: "?f x < ?f y \<longleftrightarrow> \<not> key y \<le> key x" if "y \<in> set s" for y
    using less_dkey assms(4) that by (simp add: key_def not_le)
  have live: "\<not> pos_quantity (ps ! x) \<le> 0" "\<not> avg_fill_price (ps ! x) \<le> 0" "\<not> current_price (ps ! x) \<le> 0"
    using assms(5) by (auto simp: live_def)
  consider "s = []" | a where "s = [a]" | a b t where "s = a # b # t" by (metis list.exhaust)
  then show ?thesis
  proof cases
    case 1
    then show ?thesis using assms(2) live by (simp add: w_inv_def weakest_step_def Let_def)
  next
    case 2
    then show ?thesis using assms(2) live lt [of a] by (auto simp: w_inv_def weakest_step_def Let_def)
  next
    case 3
    then have "key a \<le> key b" using assms(3) by simp
    then show ?thesis
      using 3 assms(2) live lt [of a] lt [of b]
      by (cases "key b \<le> key x"; cases "key a \<le> key x")
        (auto simp: w_inv_def weakest_step_def Let_def split: list.splits)
  qed
qed

lemma two_weakest_eq:
  assumes "\<forall>i\<in>set xs. live (ps ! i) \<and> \<not> is_nan (pnl_pct_of (ps ! i))"
  shows "two_weakest ps xs = take 2 (sort_key (\<lambda>i. dkey (pnl_pct_of (ps ! i))) xs)"
proof -
  let ?key = "\<lambda>i. dkey (pnl_pct_of (ps ! i))"
  let ?w0 = "\<lparr>w_first = - 1, w_second = - 1, w_first_pnl = 0, w_second_pnl = 0\<rparr>"
  have "w_inv ps (sort_key ?key xs) (foldl (weakest_step ps) ?w0 xs)"
    using assms
  proof (induction xs rule: rev_induct)
    case (snoc x xs)
    then have "w_inv ps (sort_key ?key xs) (foldl (weakest_step ps) ?w0 xs)" by simp
    from weakest_step_inv [OF this, of x] snoc.prems show ?case by (simp add: sort_key_snoc)
  qed (simp add: w_inv_def)
  from w_inv_list [OF this] show ?thesis by (simp add: two_weakest_def w_list_def Let_def)
qed

text \<open>Positions that are not live are passed over.\<close>

lemma two_weakest_filter:
  "two_weakest ps xs = two_weakest ps (filter (\<lambda>i. live (ps ! i)) xs)"
proof -
  have skip: "\<not> live (ps ! i) \<Longrightarrow> weakest_step ps w i = w" for w i
    by (auto simp: weakest_step_def live_def Let_def)
  have "foldl (weakest_step ps) w xs = foldl (weakest_step ps) w (filter (\<lambda>i. live (ps ! i)) xs)" for w
    by (induction xs arbitrary: w) (simp_all add: skip)
  then show ?thesis by (simp add: two_weakest_def)
qed

interpretation drawdown: stable_selection "\<lambda>i. dkey (pnl_pct_of (ps ! i))" "\<lambda>n. two_weakest ps"
    "\<lambda>xs. \<forall>i\<in>set xs. live (ps ! i) \<and> \<not> is_nan (pnl_pct_of (ps ! i))" "\<lambda>n. n = 2" for ps
  by unfold_locales (simp add: two_weakest_eq)

lemma live_pos: "live p \<Longrightarrow> sound_prices p \<Longrightarrow> 0 < val (avg_fill_price p) \<and> 0 < val (current_price p)"
  by (auto simp: live_def sound_prices_def le_finite)

lemma pnl_sign:
  assumes "live p" "sound_prices p"
  shows "current_price p \<le> avg_fill_price p \<Longrightarrow> pnl_pct_of p \<le> 0"
    "avg_fill_price p \<le> current_price p \<Longrightarrow> 0 \<le> pnl_pct_of p"
  using live_pos [OF assms] assms(2) unfolding pnl_pct_of_def sound_prices_def
  by (auto intro!: times_sign divide_sign minus_sign)

lemma exits_loop_set:
  "(j, k) \<in> set (exits_loop config i ps) \<longleftrightarrow>
     i \<le> j \<and> j < i + length ps \<and> k \<noteq> ALPHA_EXIT_NONE \<and>
     k = fst (alpha_check_rule_based_exit (ps ! (j - i)) config True)"
proof (induction ps arbitrary: i)
  case (Cons p ps)
  have "j = i \<or> Suc i \<le> j \<or> j < i" by linarith
  moreover have "Suc i \<le> j \<Longrightarrow> (p # ps) ! (j - i) = ps ! (j - Suc i)"
  proof -
    assume "Suc i \<le> j"
    then have "j - i = Suc (j - Suc i)" by simp
    then show ?thesis by simp
  qed
  ultimately show ?case
    using Cons.IH [of "i + 1"]
    by (auto split: alpha_exit_kind_t.splits)
qed simp

lemma exits_loop_sorted: "sorted_wrt (<) (map fst (exits_loop config i ps))"
proof (induction ps arbitrary: i)
  case (Cons p ps)
  have "i < j" if "(j, k) \<in> set (exits_loop config (i + 1) ps)" for j k
    using that exits_loop_set [of j k config "i + 1" ps] by simp
  then show ?case using Cons.IH [of "i + 1"] by (force split: alpha_exit_kind_t.splits)
qed simp

section \<open>The percentage against the exact gain\<close>

text \<open>The exact gain in percent, the prices for which it is compared, and the three roundings of the expression.\<close>

definition gain_pct :: "alpha_position_t \<Rightarrow> rat" where
  "gain_pct p = (val (current_price p) - val (avg_fill_price p)) / val (avg_fill_price p) * 100"

definition usual_prices :: "alpha_position_t \<Rightarrow> bool" where
  "usual_prices p \<longleftrightarrow> sound_prices p \<and> (\<forall>v\<in>{val (avg_fill_price p), val (current_price p)}. 1 / 2 ^ 50 \<le> v \<and> v \<le> 2 ^ 50)"

definition pct_round :: "rat \<Rightarrow> rat \<Rightarrow> rat" where
  "pct_round a d = rnd53 (rnd53 (rnd53 d / a) * 100)"

lemma pct_round_uminus: "pct_round a (- d) = - pct_round a d"
  by (simp add: pct_round_def)

lemma pct_round_mono: "0 < a \<Longrightarrow> d \<le> d' \<Longrightarrow> pct_round a d \<le> pct_round a d'"
  unfolding pct_round_def by (intro rnd53_mono mult_right_mono divide_right_mono) simp_all

lemma rnd_near:
  assumes "mid b r" "b \<le> 1000"
  shows "near 1 (rnd53 r) r" "mid (Suc b) (rnd53 r)"
  using round_near [OF assms, of False] by (simp_all add: isfinite_mk val_mk)

lemma rnd53_le_pow: "\<bar>r\<bar> \<le> 2 ^ n \<Longrightarrow> \<bar>rnd53 r\<bar> \<le> 2 ^ n"
proof -
  have "rnd53 (2 ^ n) = 2 ^ n" by (rule rnd53_repr, rule repr53I [of _ 1 "int n"]) simp_all
  then show "\<bar>r\<bar> \<le> 2 ^ n \<Longrightarrow> \<bar>rnd53 r\<bar> \<le> 2 ^ n" using binary64.R_abs_le_fixed [of "2 ^ n" r] by simp
qed

lemma mk_small:
  assumes "\<bar>r\<bar> \<le> 2 ^ 200"
  shows "isfinite (mk s r)" "val (mk s r) = rnd53 r"
proof -
  have "\<bar>rnd53 r\<bar> < overflow_bound" using rnd53_le_pow [OF assms] overflow_bound_gt [of 200] by simp
  then show "isfinite (mk s r)" "val (mk s r) = rnd53 r" by (simp_all add: isfinite_mk val_mk fits_def)
qed

lemma pct_round_near:
  assumes a: "1 / 2 ^ 50 \<le> a" "a \<le> 2 ^ 50" and d: "a / 200 \<le> d" "d \<le> 2 ^ 50"
  shows "near 3 (pct_round a d) (d / a * 100)"
proof -
  have a0: "0 < a" using a(1) by (rule less_le_trans [rotated]) simp
  have inv: "mid 50 (1 / a)" using a a0 by (simp add: mid_def field_simps)
  have "1 / 2 ^ 60 \<le> d" using a(1) d(1) by (simp add: field_simps)
  then have m: "mid 60 d" using d(2) by (simp add: mid_def)
  note s1 = rnd_near [OF m]
  have "mid 111 (rnd53 d / a)" using mid_mult [OF s1(2) inv] by simp
  note s2 = rnd_near [OF this]
  have "mid 7 100" by (simp add: mid_def)
  from mid_mult [OF s2(2) this] have "mid 119 (rnd53 (rnd53 d / a) * 100)" by simp
  note s3 = rnd_near [OF this]
  have "near 1 (rnd53 d / a) (d / a)" using near_mult [OF s1(1), of "1 / a"] a0 by simp
  then have "near 2 (rnd53 (rnd53 d / a)) (d / a)" using near_trans [OF s2(1)] by (simp add: numeral_2_eq_2)
  from near_mult [OF this, of 100] have "near 2 (rnd53 (rnd53 d / a) * 100) (d / a * 100)" by simp
  then show ?thesis using near_trans [OF s3(1)] unfolding pct_round_def by (simp add: numeral_3_eq_3 numeral_2_eq_2)
qed

lemma near3:
  assumes "near 3 x r" "0 \<le> r"
  shows "r * (1 - 1 / 2 ^ 51) \<le> x" "x \<le> r * (1 + 1 / 2 ^ 51)"
proof -
  have "r * (1 - 1 / 2 ^ 51) \<le> r * (1 - ulp) ^ 3" "r * (1 + ulp) ^ 3 \<le> r * (1 + 1 / 2 ^ 51)"
    using assms(2) by (intro mult_left_mono; simp add: ulp_def power3_eq_cube)+
  then show "r * (1 - 1 / 2 ^ 51) \<le> x" "x \<le> r * (1 + 1 / 2 ^ 51)" using assms(1) by (simp_all add: near_def)
qed

text \<open>A limit of at least 1 percent separates the rounded percentage from the exact one up to the rounding error.\<close>

lemma pct_round_limit:
  assumes a: "1 / 2 ^ 50 \<le> a" "a \<le> 2 ^ 50" and d: "d \<le> 2 ^ 50" and "1 \<le> L"
  shows "L \<le> pct_round a d \<Longrightarrow> L \<le> d / a * 100 * (1 + 1 / 2 ^ 51)"
    "L \<le> d / a * 100 * (1 - 1 / 2 ^ 51) \<Longrightarrow> L \<le> pct_round a d"
proof -
  have a0: "0 < a" using a(1) by (rule less_le_trans [rotated]) simp
  have bounds: "x / a * 100 * (1 - 1 / 2 ^ 51) \<le> pct_round a x \<and> pct_round a x \<le> x / a * 100 * (1 + 1 / 2 ^ 51)"
    if "a / 200 \<le> x" "x \<le> 2 ^ 50" for x
  proof -
    have "0 \<le> x / a * 100" using that(1) a0 by (intro mult_nonneg_nonneg divide_nonneg_pos) simp_all
    with near3 [OF pct_round_near [OF a that]] show ?thesis by blast
  qed
  have half: "a / 200 \<le> (2::rat) ^ 50" using a(2) a0 by linarith
  have big: "a / 200 \<le> d" if "1 / 2 \<le> d / a * 100" using that a0 by (simp add: field_simps)
  show "L \<le> d / a * 100 * (1 + 1 / 2 ^ 51)" if L: "L \<le> pct_round a d"
  proof (cases "a / 200 \<le> d")
    case False
    then have "pct_round a d \<le> pct_round a (a / 200)" using pct_round_mono a0 by simp
    moreover have "pct_round a (a / 200) \<le> 1 / 2 * (1 + 1 / 2 ^ 51)" using bounds [of "a / 200"] half a0 by simp
    moreover have "1 / 2 * (1 + 1 / 2 ^ 51) < (1 :: rat)" by simp
    ultimately show ?thesis using L assms(4) by linarith
  qed (use bounds d L in force)
  show "L \<le> pct_round a d" if L: "L \<le> d / a * 100 * (1 - 1 / 2 ^ 51)"
  proof -
    have "1 / 2 \<le> d / a * 100" using L assms(4) by simp
    then show ?thesis using bounds [OF big d] L by linarith
  qed
qed

lemma pnl_pct_rounds:
  assumes "usual_prices p"
  shows "isfinite (pnl_pct_of p)" "val (pnl_pct_of p) = pct_round (val (avg_fill_price p)) (val (current_price p) - val (avg_fill_price p))"
proof -
  let ?a = "val (avg_fill_price p)" and ?c = "val (current_price p)"
  have fin: "isfinite (avg_fill_price p)" "isfinite (current_price p)"
    and a: "1 / 2 ^ 50 \<le> ?a" "?a \<le> 2 ^ 50" and c: "1 / 2 ^ 50 \<le> ?c" "?c \<le> 2 ^ 50"
    using assms by (simp_all add: usual_prices_def sound_prices_def)
  have a0: "0 < ?a" "0 < ?c" using a(1) c(1) by (auto elim: less_le_trans [rotated])
  have small: "\<bar>x / ?a\<bar> \<le> 2 ^ 50 * \<bar>x\<bar>" for x
    using a a0 mult_right_mono [of "1 / ?a" "2 ^ 50" "\<bar>x\<bar>"] by (simp add: field_simps abs_divide)
  have d: "\<bar>?c - ?a\<bar> \<le> 2 ^ 50" using a(2) c(2) a0 by (simp add: abs_le_iff)
  have q: "\<bar>rnd53 (?c - ?a) / ?a\<bar> \<le> 2 ^ 100" using small [of "rnd53 (?c - ?a)"] rnd53_le_pow [OF d] by simp
  have h: "\<bar>rnd53 (rnd53 (?c - ?a) / ?a) * 100\<bar> \<le> 2 ^ 200" using rnd53_le_pow [OF q] by (simp add: abs_mult)
  obtain s1 where 1: "current_price p - avg_fill_price p = mk s1 (?c - ?a)" using minus_mk fin by blast
  have 11: "isfinite (current_price p - avg_fill_price p)" "val (current_price p - avg_fill_price p) = rnd53 (?c - ?a)"
    using 1 d by (simp_all add: mk_small)
  obtain s2 where 2: "(current_price p - avg_fill_price p) / avg_fill_price p = mk s2 (rnd53 (?c - ?a) / ?a)"
    using divide_mk [OF 11(1) fin(1)] a0 11(2) by auto
  have l: "isfinite (lit 100)" "val (lit 100) = 100" by (simp_all add: lit_def mk_eval)
  obtain s3 where 3: "pnl_pct_of p = mk s3 (rnd53 (rnd53 (?c - ?a) / ?a) * 100)"
    using times_mk [OF _ l(1), of "mk s2 (rnd53 (?c - ?a) / ?a)"] mk_small [of "rnd53 (?c - ?a) / ?a" s2] q l(2)
    unfolding pnl_pct_of_def 2 by auto
  show "isfinite (pnl_pct_of p)" "val (pnl_pct_of p) = pct_round ?a (?c - ?a)"
    using 3 mk_small [OF h] by (simp_all add: pct_round_def)
qed

text \<open>What the check of one position reports.\<close>

lemma limits_sign:
  assumes "0 < take_profit_pct cfg" "0 < individual_stop_loss_pct cfg" "take_profit_pct cfg \<le> 2 ^ 31" "individual_stop_loss_pct cfg \<le> 2 ^ 31"
  shows "0 < of_i64 (take_profit_pct cfg)" "- of_i64 (individual_stop_loss_pct cfg) < 0"
  using int53_exact(3,4) [of "take_profit_pct cfg"] int53_exact(3,4) [of "individual_stop_loss_pct cfg"] assms
  by (simp_all add: less_finite)

lemma exit_kinds:
  assumes "0 < take_profit_pct cfg" "0 < individual_stop_loss_pct cfg"
    "take_profit_pct cfg \<le> 2 ^ 31" "individual_stop_loss_pct cfg \<le> 2 ^ 31"
  shows "ALPHA_EXIT_TAKE_PROFIT = fst (alpha_check_rule_based_exit p cfg out) \<longleftrightarrow> live p \<and> of_i64 (take_profit_pct cfg) \<le> pnl_pct_of p"
    "ALPHA_EXIT_STOP_LOSS = fst (alpha_check_rule_based_exit p cfg out) \<longleftrightarrow> live p \<and> pnl_pct_of p \<le> - of_i64 (individual_stop_loss_pct cfg)"
proof -
  note sign = limits_sign [OF assms]
  have "\<not> (of_i64 (take_profit_pct cfg) \<le> pnl_pct_of p \<and> pnl_pct_of p \<le> - of_i64 (individual_stop_loss_pct cfg))"
    using less_le_trans_double [OF sign(1), of "pnl_pct_of p"] le_less_trans_double [OF _ sign(2), of "pnl_pct_of p"]
    by (cases "pnl_pct_of p") (auto simp: less_double_def less_eq_double_def zero_double_def)
  then show "ALPHA_EXIT_TAKE_PROFIT = fst (alpha_check_rule_based_exit p cfg out) \<longleftrightarrow> live p \<and> of_i64 (take_profit_pct cfg) \<le> pnl_pct_of p"
    "ALPHA_EXIT_STOP_LOSS = fst (alpha_check_rule_based_exit p cfg out) \<longleftrightarrow> live p \<and> pnl_pct_of p \<le> - of_i64 (individual_stop_loss_pct cfg)"
    by (auto simp: alpha_check_rule_based_exit_def live_def Let_def)
qed

lemma exit_sides:
  assumes "live p" "sound_prices p" "0 < take_profit_pct cfg" "0 < individual_stop_loss_pct cfg"
    "take_profit_pct cfg \<le> 2 ^ 31" "individual_stop_loss_pct cfg \<le> 2 ^ 31"
  shows "of_i64 (take_profit_pct cfg) \<le> pnl_pct_of p \<Longrightarrow> avg_fill_price p < current_price p"
    "pnl_pct_of p \<le> - of_i64 (individual_stop_loss_pct cfg) \<Longrightarrow> current_price p < avg_fill_price p"
proof -
  note limits = limits_sign [OF assms(3-)] and sign = pnl_sign [OF assms(1,2)]
  have fin: "isfinite (avg_fill_price p)" "isfinite (current_price p)" using assms(2) by (simp_all add: sound_prices_def)
  show "avg_fill_price p < current_price p" if "of_i64 (take_profit_pct cfg) \<le> pnl_pct_of p"
    using sign(1) less_le_trans_double [OF limits(1) that] fin
    by (cases "current_price p \<le> avg_fill_price p") (auto simp: less_double_def isfinite_not_nan)
  show "current_price p < avg_fill_price p" if "pnl_pct_of p \<le> - of_i64 (individual_stop_loss_pct cfg)"
    using sign(2) le_less_trans_double [OF that limits(2)] fin
    by (cases "avg_fill_price p \<le> current_price p") (auto simp: less_double_def isfinite_not_nan)
qed

text \<open>The exits of one position against its exact gain.\<close>

lemma exit_limits:
  assumes "live p" "usual_prices p" "0 < take_profit_pct cfg" "0 < individual_stop_loss_pct cfg"
    "take_profit_pct cfg \<le> 2 ^ 31" "individual_stop_loss_pct cfg \<le> 2 ^ 31"
  shows "of_i64 (take_profit_pct cfg) \<le> pnl_pct_of p \<Longrightarrow> of_int (take_profit_pct cfg) \<le> gain_pct p * (1 + 1 / 2 ^ 51)"
    "of_int (take_profit_pct cfg) \<le> gain_pct p * (1 - 1 / 2 ^ 51) \<Longrightarrow> of_i64 (take_profit_pct cfg) \<le> pnl_pct_of p"
    "pnl_pct_of p \<le> - of_i64 (individual_stop_loss_pct cfg) \<Longrightarrow> of_int (individual_stop_loss_pct cfg) \<le> - gain_pct p * (1 + 1 / 2 ^ 51)"
    "of_int (individual_stop_loss_pct cfg) \<le> - gain_pct p * (1 - 1 / 2 ^ 51) \<Longrightarrow> pnl_pct_of p \<le> - of_i64 (individual_stop_loss_pct cfg)"
proof -
  let ?a = "val (avg_fill_price p)" and ?c = "val (current_price p)"
  let ?T = "of_int (take_profit_pct cfg) :: rat" and ?S = "of_int (individual_stop_loss_pct cfg) :: rat"
  have a: "1 / 2 ^ 50 \<le> ?a" "?a \<le> 2 ^ 50" and c: "1 / 2 ^ 50 \<le> ?c" "?c \<le> 2 ^ 50"
    using assms(2) by (simp_all add: usual_prices_def)
  have pos: "0 < ?a" "0 < ?c" using a(1) c(1) by (auto elim: less_le_trans [rotated])
  note r = pnl_pct_rounds [OF assms(2)]
  have up: "of_i64 (take_profit_pct cfg) \<le> pnl_pct_of p \<longleftrightarrow> ?T \<le> pct_round ?a (?c - ?a)"
    using r int53_exact(3,4) [of "take_profit_pct cfg"] assms(3,5) by (simp add: le_finite)
  have down: "pnl_pct_of p \<le> - of_i64 (individual_stop_loss_pct cfg) \<longleftrightarrow> ?S \<le> pct_round ?a (?a - ?c)"
    using r int53_exact(3,4) [of "individual_stop_loss_pct cfg"] assms(4,6) pct_round_uminus [of ?a "?a - ?c"] by (simp add: le_finite)
  have g: "gain_pct p = (?c - ?a) / ?a * 100" "- gain_pct p = (?a - ?c) / ?a * 100"
    by (simp_all add: gain_pct_def diff_divide_distrib)
  have lim: "1 \<le> ?T" "1 \<le> ?S" using assms(3,4) by simp_all
  have d: "?c - ?a \<le> 2 ^ 50" "?a - ?c \<le> 2 ^ 50" using a(2) c(2) pos by linarith+
  note T = pct_round_limit [OF a d(1) lim(1), folded g(1)] and S = pct_round_limit [OF a d(2) lim(2), folded g(2)]
  show "of_i64 (take_profit_pct cfg) \<le> pnl_pct_of p \<Longrightarrow> ?T \<le> gain_pct p * (1 + 1 / 2 ^ 51)"
    "?T \<le> gain_pct p * (1 - 1 / 2 ^ 51) \<Longrightarrow> of_i64 (take_profit_pct cfg) \<le> pnl_pct_of p"
    "pnl_pct_of p \<le> - of_i64 (individual_stop_loss_pct cfg) \<Longrightarrow> ?S \<le> - gain_pct p * (1 + 1 / 2 ^ 51)"
    "?S \<le> - gain_pct p * (1 - 1 / 2 ^ 51) \<Longrightarrow> pnl_pct_of p \<le> - of_i64 (individual_stop_loss_pct cfg)"
    unfolding up down by (blast intro: T S)+
qed

text \<open>Concrete positions for the witnesses.\<close>

definition example_position :: "int \<Rightarrow> rat \<Rightarrow> rat \<Rightarrow> alpha_position_t" where
  "example_position q a c = \<lparr>pos_ticker = ''005930'', pos_quantity = q, avg_fill_price = lit a, current_price = lit c\<rparr>"

section \<open>Properties\<close>

text \<open>
  C19. The drawdown gate sells the two weakest positions. When both equities are positive and
  the loss reaches the limit, the single pass over the positions selects the first two of the
  stable sort of all held, priced positions by their profit, the earlier one first among
  equal profits; otherwise it selects none. No position that is kept is strictly weaker than
  one that is sold.
\<close>

theorem drawdown_sells_weakest:
  fixes cur base cfg out
  assumes "\<forall>p\<in>set ps. sound_prices p"
  defines "r \<equiv> fst (alpha_check_portfolio_drawdown ps cur base cfg out)"
    and "dd \<equiv> (cur - base) / base * lit 100"
    and "held \<equiv> filter (\<lambda>i. live (ps ! i)) [0..<length ps]"
  shows "r = (if cur \<le> 0 \<or> base \<le> 0 \<or> dd > - of_i64 (portfolio_drawdown_limit_pct cfg) then []
              else take 2 (sort_key (\<lambda>i. dkey (pnl_pct_of (ps ! i))) held))
       \<and> (\<forall>a b. a \<in> set r \<and> b \<in> set held \<and> b \<notin> set r \<longrightarrow> \<not> pnl_pct_of (ps ! b) < pnl_pct_of (ps ! a))"
proof -
  have adm: "\<forall>i\<in>set held. live (ps ! i) \<and> \<not> is_nan (pnl_pct_of (ps ! i))"
    using assms(1) by (auto simp: held_def dest: pnl_not_nan)
  have r: "r = (if cur \<le> 0 \<or> base \<le> 0 \<or> dd > - of_i64 (portfolio_drawdown_limit_pct cfg) then []
      else two_weakest ps held)"
    using two_weakest_filter [of ps "[0..<length ps]"]
    by (simp add: r_def alpha_check_portfolio_drawdown_def Let_def dd_def held_def)
  have "\<not> pnl_pct_of (ps ! b) < pnl_pct_of (ps ! a)" if "a \<in> set r" "b \<in> set held" "b \<notin> set r" for a b
  proof -
    have "r = two_weakest ps held" using r that(1) by (auto split: if_splits)
    then have "dkey (pnl_pct_of (ps ! a)) \<le> dkey (pnl_pct_of (ps ! b))" "a \<in> set held"
      using drawdown.select_best [OF adm refl, of a b] drawdown.select_subset [OF adm refl] that
      by (auto simp: held_def)
    then show ?thesis using less_dkey adm that by (simp add: not_less)
  qed
  then show ?thesis using r two_weakest_eq [OF adm] by auto
qed

theorem drawdown_sells_weakest_witness:
  "fst (alpha_check_portfolio_drawdown [example_position 1 1 5, example_position 0 1 1,
       example_position 1 1 3, example_position 1 1 2] (lit 1) (lit 2) alpha_risk_config_default False)
     = [3, 2]"
proof -
  let ?ps = "[example_position 1 1 5, example_position 0 1 1, example_position 1 1 3, example_position 1 1 2]"
  have sound: "\<forall>p\<in>set ?ps. sound_prices p" by (simp add: sound_prices_def example_position_def lit_def mk_eval)
  have dd: "\<not> (lit 1 \<le> 0 \<or> lit 2 \<le> 0 \<or>
      (lit 1 - lit 2) / lit 2 * lit 100 > - of_i64 (portfolio_drawdown_limit_pct alpha_risk_config_default))"
    by code_simp
  have pnl: "pnl_pct_of (example_position 1 1 5) = Fin 400" "pnl_pct_of (example_position 1 1 3) = Fin 200"
    "pnl_pct_of (example_position 1 1 2) = Fin 100"
    by (simp_all add: pnl_pct_of_def example_position_def double_eval)
  have lv: "live (example_position 1 1 5)" "\<not> live (example_position 0 1 1)" "live (example_position 1 1 3)"
    "live (example_position 1 1 2)"
    by (simp_all add: live_def example_position_def double_eval)
  have held: "filter (\<lambda>i. live (?ps ! i)) [0..<length ?ps] = [0, 2, 3]"
    by (simp add: lv upt_conv_Cons)
  show ?thesis
    using conjunct1 [OF drawdown_sells_weakest [OF sound, of "lit 1" "lit 2" alpha_risk_config_default False]]
    unfolding held if_not_P [OF dd] by (simp add: pnl)
qed

text \<open>
  C37. The exits of the scan are sound and complete. With positive limits, the reported entries
  are in increasing order of the index; a position is reported as a profit exactly when it is held
  with positive prices and its computed percentage is at least the profit limit, as a loss
  exactly when it is held with positive prices and its percentage is at most minus the loss limit,
  and nothing else is reported. A profit is taken only above the average price and a loss stopped only
  below it, whatever the rounding. For prices between \<open>2^-50\<close> and \<open>2^50\<close> the computed percentage
  stands for the exact gain \<open>(current - average) / average * 100\<close>: what is reported has reached its limit up to a relative error
  of \<open>2^-51\<close>, and what is beyond its limit by that error is reported.
\<close>

theorem rule_based_exits_sound:
  assumes "\<forall>p\<in>set ps. sound_prices p" "0 < take_profit_pct cfg" "0 < individual_stop_loss_pct cfg"
    "take_profit_pct cfg \<le> 2 ^ 31" "individual_stop_loss_pct cfg \<le> 2 ^ 31"
  defines "E \<equiv> alpha_check_rule_based_exits ps cfg"
  shows "sorted_wrt (<) (map fst E)
       \<and> (\<forall>i. (i, ALPHA_EXIT_TAKE_PROFIT) \<in> set E \<longleftrightarrow>
            i < length ps \<and> live (ps ! i) \<and> of_i64 (take_profit_pct cfg) \<le> pnl_pct_of (ps ! i))
       \<and> (\<forall>i. (i, ALPHA_EXIT_STOP_LOSS) \<in> set E \<longleftrightarrow>
            i < length ps \<and> live (ps ! i) \<and> pnl_pct_of (ps ! i) \<le> - of_i64 (individual_stop_loss_pct cfg))
       \<and> (\<forall>i k. (i, k) \<in> set E \<longrightarrow>
            k = ALPHA_EXIT_TAKE_PROFIT \<and> avg_fill_price (ps ! i) < current_price (ps ! i)
            \<or> k = ALPHA_EXIT_STOP_LOSS \<and> current_price (ps ! i) < avg_fill_price (ps ! i))
       \<and> (\<forall>i<length ps. live (ps ! i) \<and> usual_prices (ps ! i) \<longrightarrow>
            ((i, ALPHA_EXIT_TAKE_PROFIT) \<in> set E \<longrightarrow> of_int (take_profit_pct cfg) \<le> gain_pct (ps ! i) * (1 + 1 / 2 ^ 51))
            \<and> (of_int (take_profit_pct cfg) \<le> gain_pct (ps ! i) * (1 - 1 / 2 ^ 51) \<longrightarrow> (i, ALPHA_EXIT_TAKE_PROFIT) \<in> set E)
            \<and> ((i, ALPHA_EXIT_STOP_LOSS) \<in> set E \<longrightarrow> of_int (individual_stop_loss_pct cfg) \<le> - gain_pct (ps ! i) * (1 + 1 / 2 ^ 51))
            \<and> (of_int (individual_stop_loss_pct cfg) \<le> - gain_pct (ps ! i) * (1 - 1 / 2 ^ 51) \<longrightarrow> (i, ALPHA_EXIT_STOP_LOSS) \<in> set E))"
proof (intro conjI)
  note limits = assms(2-5)
  show "sorted_wrt (<) (map fst E)" by (simp add: E_def alpha_check_rule_based_exits_def exits_loop_sorted)
  show tp: "\<forall>i. (i, ALPHA_EXIT_TAKE_PROFIT) \<in> set E \<longleftrightarrow>
      i < length ps \<and> live (ps ! i) \<and> of_i64 (take_profit_pct cfg) \<le> pnl_pct_of (ps ! i)"
    using exits_loop_set [of _ _ cfg 0 ps] exit_kinds(1) [OF limits] by (auto simp: E_def alpha_check_rule_based_exits_def)
  show sl: "\<forall>i. (i, ALPHA_EXIT_STOP_LOSS) \<in> set E \<longleftrightarrow>
      i < length ps \<and> live (ps ! i) \<and> pnl_pct_of (ps ! i) \<le> - of_i64 (individual_stop_loss_pct cfg)"
    using exits_loop_set [of _ _ cfg 0 ps] exit_kinds(2) [OF limits]
    by (auto simp: E_def alpha_check_rule_based_exits_def)
  show "\<forall>i k. (i, k) \<in> set E \<longrightarrow> k = ALPHA_EXIT_TAKE_PROFIT \<and> avg_fill_price (ps ! i) < current_price (ps ! i)
      \<or> k = ALPHA_EXIT_STOP_LOSS \<and> current_price (ps ! i) < avg_fill_price (ps ! i)"
  proof (intro allI impI)
    fix i k
    assume k: "(i, k) \<in> set E"
    then have "k \<noteq> ALPHA_EXIT_NONE" "sound_prices (ps ! i)"
      using exits_loop_set [of i k cfg 0 ps] assms(1) unfolding E_def alpha_check_rule_based_exits_def by auto
    with k show "k = ALPHA_EXIT_TAKE_PROFIT \<and> avg_fill_price (ps ! i) < current_price (ps ! i)
        \<or> k = ALPHA_EXIT_STOP_LOSS \<and> current_price (ps ! i) < avg_fill_price (ps ! i)"
      using exit_sides [OF _ _ limits, of "ps ! i"] tp sl by (cases k) simp_all
  qed
  show "\<forall>i<length ps. live (ps ! i) \<and> usual_prices (ps ! i) \<longrightarrow>
      ((i, ALPHA_EXIT_TAKE_PROFIT) \<in> set E \<longrightarrow> of_int (take_profit_pct cfg) \<le> gain_pct (ps ! i) * (1 + 1 / 2 ^ 51))
      \<and> (of_int (take_profit_pct cfg) \<le> gain_pct (ps ! i) * (1 - 1 / 2 ^ 51) \<longrightarrow> (i, ALPHA_EXIT_TAKE_PROFIT) \<in> set E)
      \<and> ((i, ALPHA_EXIT_STOP_LOSS) \<in> set E \<longrightarrow> of_int (individual_stop_loss_pct cfg) \<le> - gain_pct (ps ! i) * (1 + 1 / 2 ^ 51))
      \<and> (of_int (individual_stop_loss_pct cfg) \<le> - gain_pct (ps ! i) * (1 - 1 / 2 ^ 51) \<longrightarrow> (i, ALPHA_EXIT_STOP_LOSS) \<in> set E)"
    using exit_limits [OF _ _ limits] tp sl by blast
qed

theorem rule_based_exits_sound_witness:
  "alpha_check_rule_based_exits [example_position 0 1 2, example_position 1 1 2, example_position 1 2 1] alpha_risk_config_default
     = [(1, ALPHA_EXIT_TAKE_PROFIT), (2, ALPHA_EXIT_STOP_LOSS)]
   \<and> live (example_position 1 1 2) \<and> 5 \<le> gain_pct (example_position 1 1 2) * (1 + 1 / 2 ^ 51)
   \<and> live (example_position 1 2 1) \<and> 7 \<le> - gain_pct (example_position 1 2 1) * (1 + 1 / 2 ^ 51)"
proof -
  let ?ps = "[example_position 0 1 2, example_position 1 1 2, example_position 1 2 1]"
  have ex: "alpha_check_rule_based_exits ?ps alpha_risk_config_default = [(1, ALPHA_EXIT_TAKE_PROFIT), (2, ALPHA_EXIT_STOP_LOSS)]"
    by code_simp
  have sound: "\<forall>p\<in>set ?ps. sound_prices p" by (simp add: sound_prices_def example_position_def lit_def mk_eval)
  have usual: "usual_prices (?ps ! 1)" "usual_prices (?ps ! 2)"
    by (simp_all add: usual_prices_def sound_prices_def example_position_def lit_def mk_eval)
  have tp: "(1, ALPHA_EXIT_TAKE_PROFIT) \<in> set (alpha_check_rule_based_exits ?ps alpha_risk_config_default)"
    and sl: "(2, ALPHA_EXIT_STOP_LOSS) \<in> set (alpha_check_rule_based_exits ?ps alpha_risk_config_default)"
    by (simp_all add: ex)
  have cfg: "take_profit_pct alpha_risk_config_default = 5" "individual_stop_loss_pct alpha_risk_config_default = 7"
    by (simp_all add: alpha_risk_config_default_def)
  have all: "0 < take_profit_pct alpha_risk_config_default" "0 < individual_stop_loss_pct alpha_risk_config_default"
    "take_profit_pct alpha_risk_config_default \<le> 2 ^ 31" "individual_stop_loss_pct alpha_risk_config_default \<le> 2 ^ 31" by (simp_all add: cfg)
  note th = rule_based_exits_sound [OF sound all]
  have live: "live (?ps ! 1)" "live (?ps ! 2)" using th tp sl by blast+
  have lt: "1 < length ?ps" "2 < length ?ps" by simp_all
  have "of_int 5 \<le> gain_pct (?ps ! 1) * (1 + 1 / 2 ^ 51)" "of_int 7 \<le> - gain_pct (?ps ! 2) * (1 + 1 / 2 ^ 51)"
    using th lt live usual tp sl unfolding cfg by blast+
  with live ex show ?thesis by simp
qed

text \<open>
  The size gate divides by at least 1 and is monotone: the denominator is at least 1 for
  every account value that is a number, and when a purchase is allowed, so is every smaller
  one, in binary64 arithmetic. It blocks a purchase whose value is NaN.
\<close>

lemma size_gate_monotone:
  assumes "\<not> is_nan total_value" "\<not> is_nan seed" "isfinite existing" "isfinite v" "isfinite v'" "v \<le> v'"
    "isfinite d" "1 \<le> d" "fst (alpha_max_position_allows_buy cfg existing v' d out)"
  shows "1 \<le> alpha_max_position_denominator is_paper total_value seed intended
       \<and> fst (alpha_max_position_allows_buy cfg existing v d out)
       \<and> \<not> fst (alpha_max_position_allows_buy cfg existing NaN d out)"
proof (intro conjI)
  have one: "\<not> is_nan 1" "(1 :: double) \<le> 1" by (simp_all add: le_refl_double)
  show "1 \<le> alpha_max_position_denominator is_paper total_value seed intended"
    using assms(1,2) one
    by (auto simp: alpha_max_position_denominator_def Let_def not_less_double less_imp_le_double)
  have d: "0 < val d" using assms(7,8) by (simp add: le_finite)
  have "existing + v \<le> existing + v'"
    using plus_mk [of existing v] plus_mk [of existing v'] assms(3-6) by (auto simp: le_finite intro!: mk_mono)
  then have "(existing + v) / d * lit 100 \<le> (existing + v') / d * lit 100"
    using assms(7) d by (intro times_right_mono divide_right_mono_double) simp_all
  moreover have "(existing + v') / d * lit 100 \<le> of_i64 (max_position_pct cfg)"
    using assms(9) by (simp add: alpha_max_position_allows_buy_def Let_def)
  ultimately show "fst (alpha_max_position_allows_buy cfg existing v d out)"
    unfolding alpha_max_position_allows_buy_def Let_def fst_conv by (rule le_trans_double)
  show "\<not> fst (alpha_max_position_allows_buy cfg existing NaN d out)"
    by (simp add: alpha_max_position_allows_buy_def Let_def plus_double_def divide_double_def
        times_double_def less_eq_double_def)
qed

end
