(* ===== verification/Screener.thy ===== *)
theory Screener
  imports Stable_Order
begin

text \<open>
  The daily screener (\<^verbatim>\<open>core/src/indicators/screener.c\<close>): the score of a ticker from
  its volume surge and price change, and the selection of the best candidates by repeated
  search, which needs no memory besides its output array.
\<close>

section \<open>The code\<close>

definition ALPHA_SCREENER_MIN_DATA_DAYS :: nat where
  "ALPHA_SCREENER_MIN_DATA_DAYS = 5"

record alpha_screener_bar_t =
  volume :: double
  change_pct :: double
  has_change_pct :: bool

record alpha_screener_score_t =
  passes :: bool
  score :: double

definition alpha_screener_score ::
    "alpha_screener_bar_t list \<Rightarrow> double \<Rightarrow> double \<Rightarrow> alpha_screener_score_t" where
  "alpha_screener_score bars vol_threshold pct_threshold =
     (if length bars < ALPHA_SCREENER_MIN_DATA_DAYS then \<lparr>passes = False, score = 0\<rparr>
      else
        let today_volume = volume (bars ! 0);
            change = (if has_change_pct (bars ! 0) then \<bar>change_pct (bars ! 0)\<bar> else 0);
            past_sum = foldl (\<lambda>s b. s + volume b) 0 (tl bars);
            past_count = length bars - 1;
            avg_volume = (if past_count > 0 then past_sum / of_i64 (int past_count) else 0);
            volume_ratio = (if avg_volume > 0 then today_volume / avg_volume else 0)
        in \<lparr>passes = (vol_threshold \<le> volume_ratio \<or> pct_threshold \<le> change),
            score = volume_ratio / vol_threshold + change / pct_threshold\<rparr>)"

text \<open>The search for the best candidate that has not been selected: the loop over the
  indices, with the loop over the selected ones as a membership test.\<close>

fun best_loop :: "alpha_screener_score_t list \<Rightarrow> nat list \<Rightarrow> nat list \<Rightarrow> nat option \<Rightarrow> nat option" where
  "best_loop candidates out [] best = best"
| "best_loop candidates out (i # is) best =
     (if \<not> passes (candidates ! i) then best_loop candidates out is best
      else if List.member out i then best_loop candidates out is best
      else case best of
        None \<Rightarrow> best_loop candidates out is (Some i)
      | Some b \<Rightarrow>
          if score (candidates ! i) > score (candidates ! b) then best_loop candidates out is (Some i)
          else best_loop candidates out is best)"

text \<open>The outer loop; its first argument counts the entries that are still free in the
  output.\<close>

fun select_loop :: "nat \<Rightarrow> alpha_screener_score_t list \<Rightarrow> nat list \<Rightarrow> nat list \<Rightarrow> nat list" where
  "select_loop 0 candidates is out = out"
| "select_loop (Suc n) candidates is out =
     (case best_loop candidates out is None of
        None \<Rightarrow> out
      | Some best \<Rightarrow> select_loop n candidates is (out @ [best]))"

definition alpha_screener_select :: "alpha_screener_score_t list \<Rightarrow> nat \<Rightarrow> nat list" where
  "alpha_screener_select candidates cap = select_loop cap candidates [0..<length candidates] []"

section \<open>The search\<close>

definition candidate :: "alpha_screener_score_t list \<Rightarrow> nat list \<Rightarrow> nat \<Rightarrow> bool" where
  "candidate cs out i \<longleftrightarrow> passes (cs ! i) \<and> i \<notin> set out"

text \<open>The best entry of a list: the first of those with the largest score.\<close>

definition first_best :: "(nat \<Rightarrow> int \<times> rat) \<Rightarrow> nat list \<Rightarrow> nat option" where
  "first_best key xs = (case sort_key key xs of [] \<Rightarrow> None | x # _ \<Rightarrow> Some x)"

lemma best_loop_filter:
  "best_loop cs out is best = best_loop cs [] (filter (candidate cs out) is) best"
proof (induction "is" arbitrary: best)
  case (Cons i "is")
  then show ?case by (cases best) (auto simp: candidate_def)
qed simp

lemma best_loop_snoc:
  assumes "\<forall>i\<in>set (is @ [x]). passes (cs ! i)"
  shows "best_loop cs [] (is @ [x]) best =
    (case best_loop cs [] is best of None \<Rightarrow> Some x
     | Some b \<Rightarrow> if score (cs ! x) > score (cs ! b) then Some x else Some b)"
  using assms by (induction "is" arbitrary: best) (auto split: option.splits)

lemma best_loop_first_best:
  assumes "\<forall>i\<in>set is. passes (cs ! i) \<and> \<not> is_nan (score (cs ! i))"
  shows "best_loop cs [] is None = first_best (\<lambda>i. dkey_desc (score (cs ! i))) is"
  using assms
proof (induction "is" rule: rev_induct)
  case (snoc x "is")
  let ?key = "\<lambda>i. dkey_desc (score (cs ! i))"
  have ih: "best_loop cs [] is None = first_best ?key is" using snoc by simp
  have cmp: "score (cs ! b) < score (cs ! x) \<longleftrightarrow> \<not> ?key b \<le> ?key x" if "b \<in> set is" for b
    using less_dkey_desc snoc.prems that by (simp add: not_le)
  show ?case
  proof (cases "sort_key ?key is")
    case Nil
    then show ?thesis using ih snoc.prems by (simp add: best_loop_snoc first_best_def sort_key_snoc)
  next
    case (Cons b bs)
    then have "b \<in> set is" by (metis list.set_intros(1) set_sort)
    then show ?thesis
      using ih Cons cmp snoc.prems by (auto simp: best_loop_snoc first_best_def sort_key_snoc)
  qed
qed (simp add: first_best_def)

lemma sort_key_filter_neq:
  fixes f :: "'a \<Rightarrow> 'k::linorder"
  assumes "distinct xs" "sort_key f xs = b # bs"
  shows "sort_key f (filter (\<lambda>i. i \<noteq> b) xs) = bs"
proof -
  have "distinct (b # bs)" using assms by (metis distinct_sort)
  then have "filter (\<lambda>i. i \<noteq> b) (b # bs) = bs" by (auto simp: filter_id_conv)
  then show ?thesis using assms(2) by (metis filter_sort)
qed

lemma select_loop_sorted:
  fixes cs
  defines "key \<equiv> \<lambda>i. dkey_desc (score (cs ! i))"
  assumes "distinct is" "\<forall>i\<in>set is. passes (cs ! i) \<longrightarrow> \<not> is_nan (score (cs ! i))"
  shows "select_loop n cs is out = out @ take n (sort_key key (filter (candidate cs out) is))"
proof (induction n arbitrary: out)
  case (Suc n)
  let ?s = "sort_key key (filter (candidate cs out) is)"
  have best: "best_loop cs out is None = first_best key (filter (candidate cs out) is)"
    using best_loop_first_best [of "filter (candidate cs out) is" cs] assms(3)
    by (simp add: best_loop_filter [of cs out "is"] key_def candidate_def)
  show ?case
  proof (cases ?s)
    case Nil
    then show ?thesis using best by (simp add: first_best_def)
  next
    case (Cons b bs)
    have "filter (candidate cs (out @ [b])) is = filter (\<lambda>i. i \<noteq> b) (filter (candidate cs out) is)"
      by (auto simp: candidate_def intro: filter_cong)
    then have "sort_key key (filter (candidate cs (out @ [b])) is) = bs"
      using sort_key_filter_neq [OF _ Cons] assms(2) by simp
    then show ?thesis using best Cons Suc.IH [of "out @ [b]"] by (simp add: first_best_def)
  qed
qed simp

interpretation screener: stable_selection "\<lambda>i. dkey_desc (score (cs ! i))" "\<lambda>n is. select_loop n cs is []"
    "\<lambda>xs. distinct xs \<and> (\<forall>i\<in>set xs. passes (cs ! i) \<and> \<not> is_nan (score (cs ! i)))" "\<lambda>n. True" for cs
proof
  fix xs n
  assume a: "distinct xs \<and> (\<forall>i\<in>set xs. passes (cs ! i) \<and> \<not> is_nan (score (cs ! i)))"
  then have "filter (candidate cs []) xs = xs" by (auto simp: candidate_def filter_id_conv)
  then show "select_loop n cs xs [] = take n (sort_key (\<lambda>i. dkey_desc (score (cs ! i))) xs)"
    using select_loop_sorted [of xs cs n "[]"] a by simp
qed

section \<open>Scores\<close>

text \<open>A quotient of a number and one that is not larger is at least 1.\<close>

lemma quotient_ge_1:
  assumes "isfinite t" "0 < val t" "t \<le> x"
  shows "1 \<le> x / t"
proof (cases "isfinite x")
  case True
  then obtain s where "x / t = mk s (val x / val t)" using divide_mk [of x t] assms by auto
  then show ?thesis using True assms by (simp add: le_finite le_mk)
next
  case False
  then have "x = PInf" using assms by (cases x) (auto simp: less_eq_double_def)
  then show ?thesis using assms pos_Fin [of t] by (auto simp: divide_double_def less_eq_double_def)
qed

lemma quotient_nonneg:
  assumes "0 \<le> x" "isfinite x" "0 < y"
  shows "0 \<le> x / y"
proof (cases "isfinite y")
  case True
  then show ?thesis using assms divide_sign(2) [of y x] by (auto simp: pos_cases)
next
  case False
  then have "y = PInf" using assms(3) by (auto simp: pos_cases)
  then show ?thesis
    using assms by (auto simp: divide_double_def isfinite_not_nan less_eq_double_def)
qed

definition sound_bar :: "alpha_screener_bar_t \<Rightarrow> bool" where
  "sound_bar b \<longleftrightarrow> isfinite (volume b) \<and> 0 \<le> volume b \<and> \<not> is_nan (change_pct b)"

lemma past_sum_nonneg:
  "\<forall>b\<in>set bars. sound_bar b \<Longrightarrow> 0 \<le> s \<Longrightarrow> 0 \<le> foldl (\<lambda>s b. s + volume b) s bars"
  by (induction bars arbitrary: s) (auto simp: sound_bar_def plus_nonneg)

lemma abs_nonneg: "\<not> is_nan d \<Longrightarrow> 0 \<le> \<bar>d\<bar>"
  by (cases d) (auto simp: less_eq_double_def zero_double_def)

text \<open>Concrete data for the witnesses.\<close>

definition example_score :: "bool \<Rightarrow> rat \<Rightarrow> alpha_screener_score_t" where
  "example_score p s = \<lparr>passes = p, score = lit s\<rparr>"

section \<open>Properties\<close>

text \<open>
  C20. The repeated search selects what a stable descending sort selects: for candidates
  whose scores are numbers, the output is the first \<open>cap\<close> indices of the passing
  candidates sorted by score, earlier ones first among equal scores. No candidate that is
  left out scores strictly higher than a selected one.
\<close>

theorem screener_select_stable:
  fixes cap
  assumes "\<forall>c\<in>set cs. \<not> is_nan (score c)"
  defines "pass \<equiv> filter (\<lambda>i. passes (cs ! i)) [0..<length cs]" and "r \<equiv> alpha_screener_select cs cap"
  shows "r = take cap (sort_key (\<lambda>i. dkey_desc (score (cs ! i))) pass)
       \<and> length r = min cap (length pass)
       \<and> (\<forall>a b. a \<in> set r \<and> b \<in> set pass \<and> b \<notin> set r \<longrightarrow> \<not> score (cs ! a) < score (cs ! b))"
proof -
  let ?key = "\<lambda>i. dkey_desc (score (cs ! i))"
  have num: "\<forall>i\<in>set [0..<length cs]. passes (cs ! i) \<longrightarrow> \<not> is_nan (score (cs ! i))" using assms(1) by simp
  then have adm: "distinct pass \<and> (\<forall>i\<in>set pass. passes (cs ! i) \<and> \<not> is_nan (score (cs ! i)))"
    by (auto simp: pass_def)
  have "filter (candidate cs []) [0..<length cs] = pass" by (simp add: pass_def candidate_def cong: filter_cong)
  then have r: "r = take cap (sort_key ?key pass)"
    using select_loop_sorted [OF distinct_upt num, of cap "[]"] by (simp add: r_def alpha_screener_select_def)
  then have sel: "r = select_loop cap cs pass []" using screener.select_eq [OF adm TrueI] by simp
  have "\<not> score (cs ! a) < score (cs ! b)" if "a \<in> set r" "b \<in> set pass" "b \<notin> set r" for a b
  proof -
    have "?key a \<le> ?key b" "a \<in> set pass"
      using screener.select_best [OF adm TrueI] screener.select_subset [OF adm TrueI] adm that unfolding sel by blast+
    then show ?thesis using less_dkey_desc adm that(2) by (simp add: not_less)
  qed
  then show ?thesis using r sel screener.select_length [OF adm TrueI] by auto
qed

theorem screener_select_stable_witness:
  "alpha_screener_select [example_score True 2, example_score False 9, example_score True 3, example_score True 3] 2
   = [2, 3]"
proof -
  let ?cs = "[example_score True 2, example_score False 9, example_score True 3, example_score True 3]"
  have num: "\<forall>c\<in>set ?cs. \<not> is_nan (score c)" by (simp add: example_score_def lit_def mk_eval)
  have pass: "filter (\<lambda>i. passes (?cs ! i)) [0..<length ?cs] = [0, 2, 3]"
    by (simp add: example_score_def upt_conv_Cons)
  show ?thesis
    using conjunct1 [OF screener_select_stable [OF num, of 2]]
    unfolding pass by (simp add: example_score_def dkey_desc_def lit_def mk_eval)
qed

text \<open>
  A score is a number and ranks the passing tickers: with positive finite thresholds,
  finite non-negative volumes and changes that are numbers, the score is non-negative and not
  NaN, and a ticker that passes scores at least 1. Fewer than five days of data never pass.
\<close>

lemma screener_score_sound:
  assumes "\<forall>b\<in>set bars. sound_bar b" "isfinite vt" "0 < val vt" "isfinite pt" "0 < val pt"
  defines "r \<equiv> alpha_screener_score bars vt pt"
  shows "0 \<le> score r \<and> \<not> is_nan (score r) \<and> (passes r \<longrightarrow> 1 \<le> score r)
       \<and> (length bars < ALPHA_SCREENER_MIN_DATA_DAYS \<longrightarrow> \<not> passes r)"
proof (cases "length bars < ALPHA_SCREENER_MIN_DATA_DAYS")
  case True
  then show ?thesis by (simp add: r_def alpha_screener_score_def le_refl_double)
next
  case False
  then obtain b bs where bars: "bars = b # bs" "0 < length bs"
    by (cases bars; cases "tl bars") (auto simp: ALPHA_SCREENER_MIN_DATA_DAYS_def)
  define change where "change = (if has_change_pct b then \<bar>change_pct b\<bar> else 0)"
  define avg where "avg = foldl (\<lambda>s b. s + volume b) 0 bs / of_i64 (int (length bs))"
  define ratio where "ratio = (if avg > 0 then volume b / avg else 0)"
  have b: "isfinite (volume b)" "0 \<le> volume b" "\<not> is_nan (change_pct b)"
    using assms(1) bars by (simp_all add: sound_bar_def)
  have c: "0 \<le> change" using b(3) abs_nonneg by (simp add: change_def le_refl_double)
  have ra: "0 \<le> ratio" using b quotient_nonneg by (simp add: ratio_def le_refl_double)
  have "r = \<lparr>passes = (vt \<le> ratio \<or> pt \<le> change), score = ratio / vt + change / pt\<rparr>"
    using False bars
    by (simp add: r_def alpha_screener_score_def Let_def change_def avg_def ratio_def)
  moreover have parts: "0 \<le> ratio / vt" "0 \<le> change / pt" using ra c assms by (simp_all add: divide_sign)
  moreover have "1 \<le> ratio / vt + change / pt" if "vt \<le> ratio"
    using le_trans_double [OF quotient_ge_1 [OF assms(2,3) that] plus_ge_left] parts by simp
  moreover have "1 \<le> ratio / vt + change / pt" if "pt \<le> change"
    using le_trans_double [OF quotient_ge_1 [OF assms(4,5) that] plus_ge_right] parts by simp
  ultimately show ?thesis using False plus_nonneg [OF parts] le_notnan(2) by auto
qed

end
