(* ===== verification/Blending.thy ===== *)
theory Blending
  imports Decimal_Rounding
begin

text \<open>
  Signal blending (\<^verbatim>\<open>core/src/portfolio/blending.c\<close>): a weighted vote of several
  strategies with normalised weights, and its wrapper for two strategies.
\<close>

section \<open>The code\<close>

definition ALPHA_BLEND_THRESHOLD :: double where
  "ALPHA_BLEND_THRESHOLD = lit (15 / 100)"

record alpha_blend_input_t =
  bi_signal :: alpha_signal_t
  bi_confidence :: double
  bi_weight :: double

record alpha_blend_result_t =
  br_signal :: alpha_signal_t
  br_confidence :: double
  br_weighted_score :: double
  br_conflict :: bool

definition clamp01 :: "double \<Rightarrow> double" where
  "clamp01 v = (if v < 0 then 0 else if v > 1 then 1 else v)"

definition signal_score :: "alpha_signal_t \<Rightarrow> double" where
  "signal_score signal =
     (if signal = ALPHA_SIGNAL_BUY then 1 else if signal = ALPHA_SIGNAL_SELL then - 1 else 0)"

definition raw_weight :: "alpha_blend_input_t \<Rightarrow> double" where
  "raw_weight i = (if bi_weight i > 0 then bi_weight i else 0)"

definition total_weight_of :: "alpha_blend_input_t list \<Rightarrow> double" where
  "total_weight_of inputs = foldl (\<lambda>t i. t + raw_weight i) 0 inputs"

text \<open>The accumulators of the second loop.\<close>

record blend_acc_t =
  acc_score :: double
  acc_confidence :: double
  has_buy :: bool
  has_sell :: bool

definition blend_step :: "double \<Rightarrow> nat \<Rightarrow> blend_acc_t \<Rightarrow> alpha_blend_input_t \<Rightarrow> blend_acc_t" where
  "blend_step total_weight count acc i =
     (let norm_factor = (if total_weight > 0 then total_weight else 1);
          equal_weight = (if total_weight \<le> 0 then 1 / of_i64 (int count) else 0);
          confidence = clamp01 (bi_confidence i);
          weight = (if total_weight > 0 then raw_weight i / norm_factor else equal_weight)
      in \<lparr>acc_score = acc_score acc + signal_score (bi_signal i) * weight * confidence,
          acc_confidence = acc_confidence acc + confidence * weight,
          has_buy = (has_buy acc \<or> bi_signal i = ALPHA_SIGNAL_BUY),
          has_sell = (has_sell acc \<or> bi_signal i = ALPHA_SIGNAL_SELL)\<rparr>)"

definition blend_acc :: "alpha_blend_input_t list \<Rightarrow> blend_acc_t" where
  "blend_acc inputs =
     foldl (blend_step (total_weight_of inputs) (length inputs))
       \<lparr>acc_score = 0, acc_confidence = 0, has_buy = False, has_sell = False\<rparr> inputs"

definition alpha_blend_signals :: "alpha_blend_input_t list option \<Rightarrow> alpha_blend_result_t" where
  "alpha_blend_signals inputs =
     (case inputs of
        Some (i # is) \<Rightarrow>
          let acc = blend_acc (i # is)
          in \<lparr>br_signal = (if acc_score acc > ALPHA_BLEND_THRESHOLD then ALPHA_SIGNAL_BUY
                           else if acc_score acc < - ALPHA_BLEND_THRESHOLD then ALPHA_SIGNAL_SELL
                           else ALPHA_SIGNAL_HOLD),
              br_confidence = alpha_round_dp (clamp01 (acc_confidence acc)) 4,
              br_weighted_score = alpha_round_dp (acc_score acc) 6,
              br_conflict = (has_buy acc \<and> has_sell acc)\<rparr>
      | _ \<Rightarrow> \<lparr>br_signal = ALPHA_SIGNAL_HOLD, br_confidence = 0, br_weighted_score = 0, br_conflict = False\<rparr>)"

definition alpha_blend_ab ::
    "bool \<Rightarrow> alpha_signal_t \<Rightarrow> double \<Rightarrow> bool \<Rightarrow> alpha_signal_t \<Rightarrow> double \<Rightarrow> double \<Rightarrow> alpha_blend_result_t" where
  "alpha_blend_ab has_a a_signal a_confidence has_b b_signal b_confidence blend_ratio =
     (let ratio = clamp01 blend_ratio
      in alpha_blend_signals (Some
           ((if has_a then [\<lparr>bi_signal = a_signal, bi_confidence = a_confidence, bi_weight = 1 - ratio\<rparr>] else []) @
            (if has_b then [\<lparr>bi_signal = b_signal, bi_confidence = b_confidence, bi_weight = ratio\<rparr>] else []))))"

section \<open>Weights\<close>

definition sound_input :: "alpha_blend_input_t \<Rightarrow> bool" where
  "sound_input i \<longleftrightarrow> isfinite (bi_weight i) \<and> is_double (bi_weight i) \<and> is_double (bi_confidence i)
     \<and> \<not> is_nan (bi_confidence i)"

lemma clamp01_unit: "\<not> is_nan v \<Longrightarrow> is_double v \<Longrightarrow> unit_double (clamp01 v)"
  using overflow_bound_gt [of 0]
  by (cases v) (auto simp: clamp01_def unit_double_def less_double_def less_eq_double_def zero_double_def one_double_def)

text \<open>A confidence that is not a number passes both comparisons and is not clamped.\<close>

lemma clamp01_nan: "is_nan v \<Longrightarrow> clamp01 v = v"
  using less_notnan(1) [of v 0] less_notnan(2) [of 1 v] by (auto simp: clamp01_def)

lemma clamp01_id: "unit_double v \<Longrightarrow> clamp01 v = v"
  by (simp add: clamp01_def unit_double_def less_finite)

lemma raw_weight_nonneg: "sound_input i \<Longrightarrow> isfinite (raw_weight i) \<and> 0 \<le> raw_weight i \<and> is_double (raw_weight i)"
  by (auto simp: raw_weight_def sound_input_def le_refl_double less_imp_le_double)

lemma total_weight_ge:
  assumes "\<forall>i\<in>set inputs. sound_input i" "0 \<le> t" "is_double t"
  shows "0 \<le> foldl (\<lambda>t i. t + raw_weight i) t inputs \<and> t \<le> foldl (\<lambda>t i. t + raw_weight i) t inputs
    \<and> (\<forall>i\<in>set inputs. raw_weight i \<le> foldl (\<lambda>t i. t + raw_weight i) t inputs)"
  using assms
proof (induction inputs arbitrary: t)
  case (Cons i "is")
  have w: "0 \<le> raw_weight i" "is_double (raw_weight i)" using raw_weight_nonneg Cons.prems(1) by simp_all
  have ih: "0 \<le> foldl (\<lambda>t i. t + raw_weight i) (t + raw_weight i) is"
    "t + raw_weight i \<le> foldl (\<lambda>t i. t + raw_weight i) (t + raw_weight i) is"
    "\<forall>j\<in>set is. raw_weight j \<le> foldl (\<lambda>t i. t + raw_weight i) (t + raw_weight i) is"
    using Cons.IH [of "t + raw_weight i"] Cons.prems w by (simp_all add: plus_nonneg)
  have "t \<le> t + raw_weight i" "raw_weight i \<le> t + raw_weight i"
    using Cons.prems w by (simp_all add: plus_ge_left plus_ge_right)
  note this [THEN le_trans_double, OF ih(2)]
  then show ?case using ih by simp
qed (simp add: le_refl_double le_notnan)

lemma total_weight_nonneg: "\<forall>i\<in>set inputs. sound_input i \<Longrightarrow> 0 \<le> total_weight_of inputs"
  using total_weight_ge [of inputs 0] by (simp add: total_weight_of_def le_refl_double)

lemma raw_weight_le_total: "\<forall>i\<in>set inputs. sound_input i \<Longrightarrow> i \<in> set inputs \<Longrightarrow> raw_weight i \<le> total_weight_of inputs"
  using total_weight_ge [of inputs 0] by (simp add: total_weight_of_def le_refl_double)

text \<open>The normalised weight of an input lies between 0 and 1.\<close>

definition norm_weight :: "double \<Rightarrow> nat \<Rightarrow> alpha_blend_input_t \<Rightarrow> double" where
  "norm_weight t n i = (if t > 0 then raw_weight i / t else if t \<le> 0 then 1 / of_i64 (int n) else 0)"

lemma blend_step_eq:
  "blend_step t n acc i =
     \<lparr>acc_score = acc_score acc + signal_score (bi_signal i) * norm_weight t n i * clamp01 (bi_confidence i),
      acc_confidence = acc_confidence acc + clamp01 (bi_confidence i) * norm_weight t n i,
      has_buy = (has_buy acc \<or> bi_signal i = ALPHA_SIGNAL_BUY),
      has_sell = (has_sell acc \<or> bi_signal i = ALPHA_SIGNAL_SELL)\<rparr>"
  by (simp add: blend_step_def norm_weight_def Let_def)

lemma norm_weight_unit:
  assumes "\<forall>i\<in>set inputs. sound_input i" "i \<in> set inputs" "length inputs \<le> 2 ^ 53"
  shows "unit_double (norm_weight (total_weight_of inputs) (length inputs) i)"
proof -
  have n: "isfinite (of_i64 (int (length inputs)))" "val (of_i64 (int (length inputs))) = of_nat (length inputs)"
    "1 \<le> length inputs" "inputs \<noteq> []"
    using int53_exact(3,4) [of "int (length inputs)"] assms(2,3) by (auto simp: Suc_le_eq)
  have "unit_double (1 / of_i64 (int (length inputs)))"
    using n by (intro unit_quotient) (simp_all add: le_finite less_finite)
  moreover have "unit_double (raw_weight i / total_weight_of inputs)" if "0 < total_weight_of inputs"
    using raw_weight_nonneg raw_weight_le_total [OF assms(1,2)] assms(1,2) that by (intro unit_quotient) auto
  moreover have "unit_double 0" by (simp add: unit_double_def)
  ultimately show ?thesis by (simp add: norm_weight_def)
qed

section \<open>The accumulators\<close>

lemma plus_bounded:
  assumes "isfinite a" "isfinite x" "\<bar>val a\<bar> \<le> of_nat k" "\<bar>val x\<bar> \<le> 1" "Suc k \<le> 2 ^ 53"
  shows "isfinite (a + x)" "is_double (a + x)" "\<bar>val (a + x)\<bar> \<le> of_nat (Suc k)" "val (a + x) = rnd53 (val a + val x)"
proof -
  obtain s where m: "a + x = mk s (val a + val x)" using plus_mk assms by blast
  have b: "- of_nat (Suc k) \<le> val a + val x" "val a + val x \<le> of_nat (Suc k)"
    using assms(3,4) by (auto simp: abs_le_iff)
  have k: "isfinite (of_i64 (int (Suc k)))" "val (of_i64 (int (Suc k))) = of_nat (Suc k)"
    using int53_exact(3,4) [of "int (Suc k)"] assms(5) by simp_all
  show fin: "isfinite (a + x)" "is_double (a + x)" "\<bar>val (a + x)\<bar> \<le> of_nat (Suc k)"
    using mk_between [OF m, of "- of_i64 (int (Suc k))" "of_i64 (int (Suc k))"] b k by (simp_all add: abs_le_iff)
  then show "val (a + x) = rnd53 (val a + val x)" by (simp add: m isfinite_mk val_mk)
qed

definition vote :: "double \<Rightarrow> nat \<Rightarrow> alpha_blend_input_t \<Rightarrow> double" where
  "vote t n i = signal_score (bi_signal i) * norm_weight t n i * clamp01 (bi_confidence i)"

lemma signal_score_bounds: "isfinite (signal_score s)" "\<bar>val (signal_score s)\<bar> \<le> 1"
  by (auto simp: signal_score_def)

lemma vote_bounds:
  assumes "unit_double (norm_weight t n i)" "sound_input i"
  shows "isfinite (vote t n i)" "\<bar>val (vote t n i)\<bar> \<le> 1"
    "val (vote t n i) = rnd53 (rnd53 (val (signal_score (bi_signal i)) * val (norm_weight t n i)) * val (clamp01 (bi_confidence i)))"
proof -
  have w: "isfinite (norm_weight t n i)" "\<bar>val (norm_weight t n i)\<bar> \<le> 1" using assms(1) by (simp_all add: unit_double_def)
  have "unit_double (clamp01 (bi_confidence i))" using assms(2) by (simp add: sound_input_def clamp01_unit)
  then have c: "isfinite (clamp01 (bi_confidence i))" "\<bar>val (clamp01 (bi_confidence i))\<bar> \<le> 1" by (simp_all add: unit_double_def)
  note sw = times_bounded [OF signal_score_bounds(1) w(1) signal_score_bounds(2) w(2), of "bi_signal i"]
  note swc = times_bounded [OF sw(1) c(1) sw(3) c(2)]
  show "isfinite (vote t n i)" "\<bar>val (vote t n i)\<bar> \<le> 1"
    "val (vote t n i) = rnd53 (rnd53 (val (signal_score (bi_signal i)) * val (norm_weight t n i)) * val (clamp01 (bi_confidence i)))"
    using swc sw(4) by (simp_all add: vote_def)
qed

lemma vote_sign:
  assumes "unit_double (norm_weight t n i)" "sound_input i"
  shows "bi_signal i \<noteq> ALPHA_SIGNAL_SELL \<Longrightarrow> 0 \<le> val (vote t n i)"
    "bi_signal i \<noteq> ALPHA_SIGNAL_BUY \<Longrightarrow> val (vote t n i) \<le> 0"
proof -
  have w: "0 \<le> val (norm_weight t n i)" and c: "0 \<le> val (clamp01 (bi_confidence i))"
    using assms clamp01_unit [of "bi_confidence i"] by (simp_all add: unit_double_def sound_input_def)
  have "0 \<le> val (vote t n i)" if "0 \<le> val (signal_score (bi_signal i))"
    unfolding vote_bounds(3) [OF assms] using that w c by (intro binary64.R_nonneg mult_nonneg_nonneg)
  moreover have "val (vote t n i) \<le> 0" if "val (signal_score (bi_signal i)) \<le> 0"
    unfolding vote_bounds(3) [OF assms] using that w c by (intro binary64.R_nonpos mult_nonpos_nonneg)
  ultimately show "bi_signal i \<noteq> ALPHA_SIGNAL_SELL \<Longrightarrow> 0 \<le> val (vote t n i)"
    "bi_signal i \<noteq> ALPHA_SIGNAL_BUY \<Longrightarrow> val (vote t n i) \<le> 0"
    by (auto simp: signal_score_def split: if_splits)
qed

text \<open>What the second loop has computed after some inputs.\<close>

definition acc_ok :: "nat \<Rightarrow> blend_acc_t \<Rightarrow> bool" where
  "acc_ok k acc \<longleftrightarrow> isfinite (acc_score acc) \<and> \<bar>val (acc_score acc)\<bar> \<le> of_nat k
     \<and> isfinite (acc_confidence acc) \<and> is_double (acc_confidence acc)
     \<and> 0 \<le> val (acc_confidence acc) \<and> val (acc_confidence acc) \<le> of_nat k
     \<and> (\<not> has_sell acc \<longrightarrow> 0 \<le> val (acc_score acc)) \<and> (\<not> has_buy acc \<longrightarrow> val (acc_score acc) \<le> 0)"

lemma blend_step_ok:
  assumes "acc_ok k acc" "Suc k \<le> 2 ^ 53" "unit_double (norm_weight t n i)" "sound_input i"
  shows "acc_ok (Suc k) (blend_step t n acc i)"
proof -
  let ?c = "clamp01 (bi_confidence i)" and ?w = "norm_weight t n i"
  note v = vote_bounds [OF assms(3,4)] and sg = vote_sign [OF assms(3,4)]
  have c: "unit_double ?c" using assms(4) by (simp add: sound_input_def clamp01_unit)
  note cw = times_bounded [of ?c ?w]
  have a: "isfinite (acc_score acc)" "\<bar>val (acc_score acc)\<bar> \<le> of_nat k"
    "isfinite (acc_confidence acc)" "0 \<le> val (acc_confidence acc)" "val (acc_confidence acc) \<le> of_nat k"
    using assms(1) by (simp_all add: acc_ok_def)
  note s = plus_bounded [OF a(1) v(1) a(2) v(2) assms(2)]
  have "0 \<le> val (?c * ?w)" using cw(4) c assms(3) by (simp add: unit_double_def binary64.R_nonneg)
  moreover note f = plus_bounded [OF a(3) cw(1) _ cw(3) assms(2)]
  ultimately have conf: "isfinite (acc_confidence acc + ?c * ?w)" "is_double (acc_confidence acc + ?c * ?w)"
    "0 \<le> val (acc_confidence acc + ?c * ?w)" "val (acc_confidence acc + ?c * ?w) \<le> of_nat (Suc k)"
    using a c assms(3) by (auto simp: unit_double_def binary64.R_nonneg abs_le_iff)
  have "0 \<le> val (acc_score acc + vote t n i)" if "\<not> has_sell acc" "bi_signal i \<noteq> ALPHA_SIGNAL_SELL"
    unfolding s(4) using assms(1) sg(1) that by (intro binary64.R_nonneg) (simp add: acc_ok_def)
  moreover have "val (acc_score acc + vote t n i) \<le> 0" if "\<not> has_buy acc" "bi_signal i \<noteq> ALPHA_SIGNAL_BUY"
    unfolding s(4) using assms(1) sg(2) that by (intro binary64.R_nonpos) (simp add: acc_ok_def)
  ultimately show ?thesis
    using s conf by (simp add: acc_ok_def blend_step_eq vote_def [symmetric])
qed

lemma blend_fold_ok:
  assumes "acc_ok k acc" "k + length is \<le> 2 ^ 53" "\<forall>i\<in>set is. sound_input i \<and> unit_double (norm_weight t n i)"
  shows "acc_ok (k + length is) (foldl (blend_step t n) acc is)"
  using assms
proof (induction "is" arbitrary: k acc)
  case (Cons i "is")
  have "acc_ok (Suc k) (blend_step t n acc i)" using Cons.prems by (intro blend_step_ok) auto
  then show ?case using Cons.IH [of "Suc k"] Cons.prems by simp
qed simp

lemma blend_fold_flags:
  "has_buy (foldl (blend_step t n) acc is) \<longleftrightarrow> has_buy acc \<or> (\<exists>i\<in>set is. bi_signal i = ALPHA_SIGNAL_BUY)"
  "has_sell (foldl (blend_step t n) acc is) \<longleftrightarrow> has_sell acc \<or> (\<exists>i\<in>set is. bi_signal i = ALPHA_SIGNAL_SELL)"
  by (induction "is" arbitrary: acc) (auto simp: blend_step_eq)

lemma blend_acc_ok:
  assumes "\<forall>i\<in>set inputs. sound_input i" "length inputs \<le> 2 ^ 53"
  shows "acc_ok (length inputs) (blend_acc inputs)"
  unfolding blend_acc_def
  using blend_fold_ok [of 0 _ inputs "total_weight_of inputs" "length inputs"] norm_weight_unit [OF assms(1)] assms
  by (simp add: acc_ok_def)

section \<open>Mirrored inputs\<close>

fun flip_signal :: "alpha_signal_t \<Rightarrow> alpha_signal_t" where
  "flip_signal ALPHA_SIGNAL_BUY = ALPHA_SIGNAL_SELL"
| "flip_signal ALPHA_SIGNAL_SELL = ALPHA_SIGNAL_BUY"
| "flip_signal s = s"

definition flip_input :: "alpha_blend_input_t \<Rightarrow> alpha_blend_input_t" where
  "flip_input i = i\<lparr>bi_signal := flip_signal (bi_signal i)\<rparr>"

lemma flip_input_simps [simp]:
  "bi_signal (flip_input i) = flip_signal (bi_signal i)" "bi_confidence (flip_input i) = bi_confidence i"
  "raw_weight (flip_input i) = raw_weight i" "norm_weight t n (flip_input i) = norm_weight t n i"
  "sound_input (flip_input i) = sound_input i"
  by (simp_all add: flip_input_def raw_weight_def norm_weight_def sound_input_def)

lemma flip_signal_iff [simp]:
  "flip_signal s = ALPHA_SIGNAL_BUY \<longleftrightarrow> s = ALPHA_SIGNAL_SELL" "flip_signal s = ALPHA_SIGNAL_SELL \<longleftrightarrow> s = ALPHA_SIGNAL_BUY"
  by (cases s; simp)+

lemma total_weight_flip: "total_weight_of (map flip_input inputs) = total_weight_of inputs"
  by (simp add: total_weight_of_def foldl_map)

lemma vote_flip:
  "unit_double (norm_weight t n i) \<Longrightarrow> sound_input i \<Longrightarrow> val (vote t n (flip_input i)) = - val (vote t n i)"
  using vote_bounds(3) [of t n i] vote_bounds(3) [of t n "flip_input i"]
  by (cases "bi_signal i") (simp_all add: signal_score_def binary64.R_zero)

definition mirrored :: "blend_acc_t \<Rightarrow> blend_acc_t \<Rightarrow> bool" where
  "mirrored a b \<longleftrightarrow> val (acc_score b) = - val (acc_score a) \<and> acc_confidence b = acc_confidence a
     \<and> has_buy b = has_sell a \<and> has_sell b = has_buy a"

lemma blend_step_mirrored:
  assumes "mirrored a b" "acc_ok k a" "acc_ok k b" "Suc k \<le> 2 ^ 53" "unit_double (norm_weight t n i)" "sound_input i"
  shows "mirrored (blend_step t n a i) (blend_step t n b (flip_input i))"
proof -
  have a: "isfinite (acc_score a)" "\<bar>val (acc_score a)\<bar> \<le> of_nat k" "isfinite (acc_score b)" "\<bar>val (acc_score b)\<bar> \<le> of_nat k"
    using assms(2,3) by (simp_all add: acc_ok_def)
  note v = vote_bounds [OF assms(5,6)]
  have w: "isfinite (vote t n (flip_input i))" "\<bar>val (vote t n (flip_input i))\<bar> \<le> 1"
    using vote_bounds [of t n "flip_input i"] assms(5,6) by simp_all
  have "val (acc_score b + vote t n (flip_input i)) = - val (acc_score a + vote t n i)"
    using assms(1) plus_bounded(4) [OF a(1) v(1) a(2) v(2) assms(4)] plus_bounded(4) [OF a(3) w(1) a(4) w(2) assms(4)]
      binary64.R_uminus [of "val (acc_score a) + val (vote t n i)"] vote_flip [OF assms(5,6)]
    by (simp add: mirrored_def)
  then show ?thesis using assms(1) by (simp add: mirrored_def blend_step_eq vote_def [symmetric]) (simp add: vote_def)
qed

lemma blend_fold_mirrored:
  assumes "mirrored a b" "acc_ok k a" "acc_ok k b" "k + length is \<le> 2 ^ 53"
    "\<forall>i\<in>set is. sound_input i \<and> unit_double (norm_weight t n i)"
  shows "mirrored (foldl (blend_step t n) a is) (foldl (blend_step t n) b (map flip_input is))"
  using assms
proof (induction "is" arbitrary: k a b)
  case (Cons i "is")
  then have "mirrored (blend_step t n a i) (blend_step t n b (flip_input i))"
    "acc_ok (Suc k) (blend_step t n a i)" "acc_ok (Suc k) (blend_step t n b (flip_input i))"
    by (auto intro!: blend_step_mirrored [of a b k] blend_step_ok)
  then show ?case using Cons.IH [of _ _ "Suc k"] Cons.prems by simp
qed simp

lemma blend_acc_mirrored:
  assumes "\<forall>i\<in>set inputs. sound_input i" "length inputs \<le> 2 ^ 53"
  shows "mirrored (blend_acc inputs) (blend_acc (map flip_input inputs))"
  unfolding blend_acc_def total_weight_flip length_map
  using assms norm_weight_unit [OF assms(1)]
  by (intro blend_fold_mirrored [of _ _ 0]) (auto simp: mirrored_def acc_ok_def)

section \<open>The result\<close>

lemma blend_signals_eq:
  "inputs \<noteq> [] \<Longrightarrow> alpha_blend_signals (Some inputs) =
     (let acc = blend_acc inputs
      in \<lparr>br_signal = (if acc_score acc > ALPHA_BLEND_THRESHOLD then ALPHA_SIGNAL_BUY
                       else if acc_score acc < - ALPHA_BLEND_THRESHOLD then ALPHA_SIGNAL_SELL
                       else ALPHA_SIGNAL_HOLD),
          br_confidence = alpha_round_dp (clamp01 (acc_confidence acc)) 4,
          br_weighted_score = alpha_round_dp (acc_score acc) 6,
          br_conflict = (has_buy acc \<and> has_sell acc)\<rparr>)"
  by (cases inputs) (simp_all add: alpha_blend_signals_def)

lemma threshold_pos: "isfinite ALPHA_BLEND_THRESHOLD" "0 < val ALPHA_BLEND_THRESHOLD"
  by code_simp+

lemma round_score:
  assumes "isfinite d" "\<bar>val d\<bar> \<le> of_nat n" "n \<le> 2 ^ 53"
  shows "isfinite (alpha_round_dp d 6)" "val (alpha_round_dp d 6) = rnd53 (dec 6 (val d))"
    "\<bar>val (alpha_round_dp d 6)\<bar> \<le> of_nat n"
proof -
  have n: "(of_nat n :: rat) \<le> of_nat (2 ^ 53)" using assms(3) unfolding of_nat_le_iff .
  then have "\<bar>val d\<bar> \<le> of_nat (2 ^ 53)" using assms(2) by linarith
  then have "room d 6" using assms(1) by (simp add: room_def)
  note r = alpha_round_dp_room [OF this, simplified]
  have "dec 6 (of_nat n) = of_nat n" using dec_int [of 6 "int n * 10 ^ 6"] by simp
  note db = decimal.R_abs_le_fixed [OF this assms(2)]
  have k: "fits (of_nat n)" "fits (- of_nat n)" "rnd53 (of_nat n) = of_nat n"
    using fits_int53 [of "int n"] fits_int53 [of "- int n"] rnd53_int [of "int n"] assms(3) by simp_all
  have f: "fits (dec 6 (val d))" using fits_between [OF k(2,1)] db by (simp add: abs_le_iff)
  show "isfinite (alpha_round_dp d 6)" "val (alpha_round_dp d 6) = rnd53 (dec 6 (val d))"
    "\<bar>val (alpha_round_dp d 6)\<bar> \<le> of_nat n"
    using f binary64.R_abs_le_fixed [OF k(3) db] by (simp_all add: r isfinite_mk val_mk)
qed

section \<open>Properties\<close>

definition example_inputs :: "alpha_blend_input_t list" where
  "example_inputs =
     [\<lparr>bi_signal = ALPHA_SIGNAL_BUY, bi_confidence = 1, bi_weight = lit 2\<rparr>,
      \<lparr>bi_signal = ALPHA_SIGNAL_HOLD, bi_confidence = 1, bi_weight = lit 2\<rparr>]"

lemma example_inputs_sound: "\<forall>i\<in>set example_inputs. sound_input i" "length example_inputs \<le> 2 ^ 53" "example_inputs \<noteq> []"
  by (simp_all add: example_inputs_def sound_input_def)

text \<open>
  C21. A vote over inputs with finite weights and confidences that are not NaN is sound after every
  rounding: the confidence lies in \<open>[0, 1]\<close> and the score is finite and at most the number of
  inputs, a BUY or a SELL is only returned when some input asked for it, CLOSE never is, the score has no
  sign that no input asked for, and the conflict flag is set exactly when both sides voted.
\<close>

theorem blend_sound:
  assumes "\<forall>i\<in>set inputs. sound_input i" "length inputs \<le> 2 ^ 53" "inputs \<noteq> []"
    and "r = alpha_blend_signals (Some inputs)"
    and "buys \<longleftrightarrow> (\<exists>i\<in>set inputs. bi_signal i = ALPHA_SIGNAL_BUY)"
    and "sells \<longleftrightarrow> (\<exists>i\<in>set inputs. bi_signal i = ALPHA_SIGNAL_SELL)"
  shows "0 \<le> br_confidence r \<and> br_confidence r \<le> 1
    \<and> isfinite (br_weighted_score r) \<and> \<bar>val (br_weighted_score r)\<bar> \<le> of_nat (length inputs)
    \<and> (br_signal r = ALPHA_SIGNAL_BUY \<longrightarrow> buys) \<and> (br_signal r = ALPHA_SIGNAL_SELL \<longrightarrow> sells)
    \<and> br_signal r \<noteq> ALPHA_SIGNAL_CLOSE
    \<and> (\<not> sells \<longrightarrow> 0 \<le> val (br_weighted_score r)) \<and> (\<not> buys \<longrightarrow> val (br_weighted_score r) \<le> 0)
    \<and> (br_conflict r \<longleftrightarrow> buys \<and> sells)"
proof -
  let ?acc = "blend_acc inputs"
  have ok: "acc_ok (length inputs) ?acc" using blend_acc_ok assms(1,2) .
  have fl: "has_buy ?acc = buys" "has_sell ?acc = sells"
    by (simp_all add: blend_acc_def blend_fold_flags assms(5,6))
  have sc: "isfinite (acc_score ?acc)" "\<bar>val (acc_score ?acc)\<bar> \<le> of_nat (length inputs)"
    and c: "unit_double (clamp01 (acc_confidence ?acc))"
    using ok by (auto simp: acc_ok_def intro!: clamp01_unit isfinite_not_nan)
  have "\<bar>clamp01 (acc_confidence ?acc)\<bar> \<le> lit (of_int 10000 / 10 ^ 4)"
    using c by (simp add: unit_double_def le_finite)
  then have "\<bar>alpha_round_dp (clamp01 (acc_confidence ?acc)) 4\<bar> \<le> 1"
    using alpha_round_dp_abs_le [of "clamp01 (acc_confidence ?acc)" 4 10000] c by (simp add: unit_double_def)
  moreover have "0 \<le> alpha_round_dp (clamp01 (acc_confidence ?acc)) 4"
    using alpha_round_dp_nonneg [of "clamp01 (acc_confidence ?acc)" 4] c by (simp add: unit_double_def le_finite)
  ultimately have conf: "0 \<le> br_confidence r" "br_confidence r \<le> 1"
    using assms(3,4) by (auto simp: blend_signals_eq Let_def intro: le_abs_double)
  note s = round_score [OF sc assms(2)]
  have "0 \<le> val (acc_score ?acc) \<Longrightarrow> 0 \<le> val (alpha_round_dp (acc_score ?acc) 6)"
    "val (acc_score ?acc) \<le> 0 \<Longrightarrow> val (alpha_round_dp (acc_score ?acc) 6) \<le> 0"
    by (simp_all add: s(2) binary64.R_nonneg binary64.R_nonpos decimal.R_nonneg decimal.R_nonpos)
  with s conf ok show ?thesis
    using assms(3,4) threshold_pos
    by (auto simp: blend_signals_eq Let_def acc_ok_def fl less_finite sc(1))
qed

theorem blend_sound_witness:
  "0 \<le> br_confidence (alpha_blend_signals (Some example_inputs)) \<and> br_confidence (alpha_blend_signals (Some example_inputs)) \<le> 1
   \<and> \<not> br_conflict (alpha_blend_signals (Some example_inputs))"
  using blend_sound [OF example_inputs_sound refl refl refl] by (simp add: example_inputs_def)

text \<open>
  C22. The vote is antisymmetric: exchanging BUY and SELL in every input negates the score,
  exchanges BUY and SELL in the result and leaves the confidence and the conflict flag as they are. The
  decision thresholds and every rounding treat the two sides alike.
\<close>

theorem blend_antisymmetric:
  assumes "\<forall>i\<in>set inputs. sound_input i" "length inputs \<le> 2 ^ 53" "inputs \<noteq> []"
    and "r = alpha_blend_signals (Some inputs)" "r' = alpha_blend_signals (Some (map flip_input inputs))"
  shows "val (br_weighted_score r') = - val (br_weighted_score r) \<and> br_signal r' = flip_signal (br_signal r)
    \<and> br_confidence r' = br_confidence r \<and> br_conflict r' = br_conflict r"
proof -
  let ?a = "blend_acc inputs" and ?b = "blend_acc (map flip_input inputs)"
  have m: "mirrored ?a ?b" using blend_acc_mirrored assms(1,2) .
  have "acc_ok (length (map flip_input inputs)) ?b" using assms(1,2) by (intro blend_acc_ok) auto
  then have sc: "isfinite (acc_score ?a)" "\<bar>val (acc_score ?a)\<bar> \<le> of_nat (length inputs)"
    "isfinite (acc_score ?b)" "\<bar>val (acc_score ?b)\<bar> \<le> of_nat (length inputs)"
    using blend_acc_ok [OF assms(1,2)] by (simp_all add: acc_ok_def)
  have "val (alpha_round_dp (acc_score ?b) 6) = - val (alpha_round_dp (acc_score ?a) 6)"
    using m round_score(2) [OF sc(1,2) assms(2)] round_score(2) [OF sc(3,4) assms(2)]
    by (simp add: mirrored_def decimal.R_uminus)
  then show ?thesis using m sc threshold_pos assms(3-5)
    by (auto simp: blend_signals_eq Let_def mirrored_def less_finite)
qed

theorem blend_antisymmetric_witness:
  "br_signal (alpha_blend_signals (Some (map flip_input example_inputs)))
     = flip_signal (br_signal (alpha_blend_signals (Some example_inputs)))"
  using blend_antisymmetric [OF example_inputs_sound refl refl] by simp

text \<open>The normalised weight of a single input is 1, also when its weight is 0, negative or NaN.\<close>

lemma single_weight:
  assumes "is_double (bi_weight i)" "bi_weight i \<noteq> PInf"
  shows "norm_weight (0 + raw_weight i) (Suc 0) i = 1"
proof (cases "bi_weight i > 0")
  case True
  then obtain x where x: "bi_weight i = Fin x" "0 < x" using assms(2) by (cases "bi_weight i") (auto simp: double_eval)
  have "0 + Fin x = Fin x" using x assms(1) mk_val [of "Fin x"] by (simp add: plus_double_def zero_double_def)
  moreover have "Fin x / Fin x = 1" using x by (simp add: divide_double_def mk_eval one_double_def)
  ultimately show ?thesis using True x by (simp add: norm_weight_def raw_weight_def)
next
  case False
  then have "raw_weight i = 0" by (simp add: raw_weight_def)
  then show ?thesis by (simp add: norm_weight_def double_eval)
qed

lemma blend_single:
  assumes "is_double w" "w \<noteq> PInf"
  shows "alpha_blend_signals (Some [\<lparr>bi_signal = s, bi_confidence = c, bi_weight = w\<rparr>])
    = alpha_blend_signals (Some [\<lparr>bi_signal = s, bi_confidence = c, bi_weight = 1\<rparr>])"
proof -
  let ?i = "\<lambda>w. \<lparr>bi_signal = s, bi_confidence = c, bi_weight = w\<rparr>"
  have "(1 :: double) \<noteq> PInf" by (simp add: one_double_def)
  then have "blend_acc [?i w] = blend_acc [?i 1]"
    using single_weight [of "?i w"] single_weight [of "?i 1"] assms
    by (simp add: blend_acc_def total_weight_of_def blend_step_eq)
  then show ?thesis by (simp add: blend_signals_eq)
qed

lemma clamp01_ratio: "is_double r \<Longrightarrow> is_double (clamp01 r) \<and> clamp01 r \<noteq> PInf \<and> 1 - clamp01 r \<noteq> PInf"
proof (cases "is_nan r")
  case True
  then have "r = NaN" by (cases r) simp_all
  then show ?thesis by (simp add: clamp01_def less_double_def minus_double_def plus_double_def)
next
  case False
  assume "is_double r"
  with False have u: "unit_double (clamp01 r)" by (simp add: clamp01_unit)
  then obtain s where m: "1 - clamp01 r = mk s (1 - val (clamp01 r))" using minus_mk [of 1 "clamp01 r"] by (auto simp: unit_double_def)
  have "isfinite (1 - clamp01 r)" using mk_between(1) [OF m, of 0 1] u by (simp add: unit_double_def)
  then show ?thesis using u by (auto simp: unit_double_def)
qed

text \<open>
  With one strategy only, the A/B wrapper ignores the blend ratio: whatever the ratio, even 0,
  1, out of range or NaN, the result is that of the one strategy with the full weight.
\<close>

lemma blend_ab_single:
  assumes "is_double ratio"
  shows "alpha_blend_ab True s c False s' c' ratio = alpha_blend_signals (Some [\<lparr>bi_signal = s, bi_confidence = c, bi_weight = 1\<rparr>])
   \<and> alpha_blend_ab False s' c' True s c ratio = alpha_blend_signals (Some [\<lparr>bi_signal = s, bi_confidence = c, bi_weight = 1\<rparr>])"
  using clamp01_ratio [OF assms] by (simp add: alpha_blend_ab_def Let_def blend_single)

end
