(* ===== verification/C_Text.thy ===== *)
theory C_Text
  imports Decimal_Rounding
begin

text \<open>
  The text functions of the C library that the drivers and the applications use: strings that end at
  their first zero byte, \<^verbatim>\<open>isspace\<close>, \<^verbatim>\<open>strtoll\<close> with base ten, and the integer
  conversions of \<^verbatim>\<open>printf\<close>.
\<close>

section \<open>Strings\<close>

text \<open>A C string is the list of its bytes before the terminating zero; \<open>c_str\<close> reads a byte
  buffer as one. \<open>char_at\<close> is what the cursor points at: the end of the string is the zero byte.\<close>

definition c_str :: "string \<Rightarrow> string" where
  "c_str s = takeWhile (\<lambda>c. c \<noteq> CHR 0x00) s"

definition char_at :: "string \<Rightarrow> char" where
  "char_at s = (case s of [] \<Rightarrow> CHR 0x00 | c # _ \<Rightarrow> c)"

definition is_space :: "char \<Rightarrow> bool" where
  "is_space c \<longleftrightarrow> c = CHR '' '' \<or> (9 \<le> (of_char c :: nat) \<and> (of_char c :: nat) \<le> 13)"

lemma char_at_simps [simp]: "char_at [] = CHR 0x00" "char_at (c # s) = c"
  by (simp_all add: char_at_def)

lemma c_str_id: "CHR 0x00 \<notin> set s \<Longrightarrow> c_str s = s"
  by (simp add: c_str_def takeWhile_eq_all_conv) metis

lemma digit_not_special:
  "is_digit c \<Longrightarrow> c \<noteq> CHR 0x00 \<and> c \<noteq> CHR ''-'' \<and> c \<noteq> CHR ''+'' \<and> \<not> is_space c"
  by (auto simp: is_digit_def is_space_def)

section \<open>Integers\<close>

definition LLONG_MAX :: int where "LLONG_MAX = 2 ^ 63 - 1"

definition LLONG_MIN :: int where "LLONG_MIN = - (2 ^ 63)"

text \<open>The value, whether \<^verbatim>\<open>errno\<close> is set, and what is left of the text; the whole text is
  left when there is no number.\<close>

definition strtoll :: "string \<Rightarrow> int \<times> bool \<times> string" where
  "strtoll s =
     (let t = dropWhile is_space s;
          neg = (char_at t = CHR ''-'');
          u = (if neg \<or> char_at t = CHR ''+'' then tl t else t);
          ds = takeWhile is_digit u;
          v = (if neg then - digits_val ds else digits_val ds)
      in if ds = [] then (0, False, s)
         else if v > LLONG_MAX then (LLONG_MAX, True, dropWhile is_digit u)
         else if v < LLONG_MIN then (LLONG_MIN, True, dropWhile is_digit u)
         else (v, False, dropWhile is_digit u))"

definition fmt_int :: "int \<Rightarrow> string" where
  "fmt_int n = (if n < 0 then CHR ''-'' # dec_digits (- n) else dec_digits n)"

lemma dec_digits_cons:
  assumes "0 \<le> n"
  obtains c s where "dec_digits n = c # s" "is_digit c" "\<forall>d\<in>set (dec_digits n). is_digit d"
  using dec_digits_nonempty [of n] is_digit_dec_digits [OF assms]
  by (cases "dec_digits n") auto

lemma strtoll_fmt_int:
  assumes "LLONG_MIN \<le> n" "n \<le> LLONG_MAX"
  shows "strtoll (fmt_int n) = (n, False, [])"
proof -
  obtain c s where d: "dec_digits \<bar>n\<bar> = c # s" "is_digit c" "\<forall>d\<in>set (dec_digits \<bar>n\<bar>). is_digit d"
    using dec_digits_cons [of "\<bar>n\<bar>"] by auto
  have t: "takeWhile is_digit s = s" "dropWhile is_digit s = []"
    using d(1,3) by (simp_all add: takeWhile_eq_all_conv dropWhile_eq_Nil_conv)
  have v: "digits_val (c # s) = \<bar>n\<bar>" using digits_val_dec_digits [of "\<bar>n\<bar>"] d(1) by simp
  have sp: "\<not> is_space (CHR ''-'')" by (simp add: is_space_def)
  show ?thesis
  proof (cases "n < 0")
    case True
    then show ?thesis using assms v d(1,2) sp by (simp add: strtoll_def fmt_int_def Let_def t)
  next
    case False
    then show ?thesis using assms v d(1,2) digit_not_special [OF d(2)] by (simp add: strtoll_def fmt_int_def Let_def t)
  qed
qed

lemma fmt_int_no_zero: "CHR 0x00 \<notin> set (fmt_int n)"
  using is_digit_dec_digits [of "\<bar>n\<bar>" "CHR 0x00"] by (auto simp: fmt_int_def is_digit_def split: if_splits)

lemma c_str_fmt_int [simp]: "c_str (fmt_int n) = fmt_int n"
  by (simp add: c_str_id fmt_int_no_zero)

end
