(* ===== verification/Postgres_Client.thy ===== *)
theory Postgres_Client
  imports C_Text Fifo "HOL-Library.Monad_Syntax"
begin

text \<open>
  The PostgreSQL client (\<^verbatim>\<open>core/platform/db/postgres.c\<close>): a connection in pipeline mode, driven by the
  readiness of its socket, with a ring of the requests whose results are still to come. The libpq
  library is a parameter, a record of its functions on the state of a connection; the callbacks of
  the caller are the events that an operation emits, in their order.
\<close>

section \<open>The code\<close>

subsection \<open>Types\<close>

definition ALPHA_PG_TEXT_CAP :: nat where "ALPHA_PG_TEXT_CAP = 64"

definition ALPHA_PG_MIN_PIPELINE_DEPTH :: nat where "ALPHA_PG_MIN_PIPELINE_DEPTH = 1"

definition ALPHA_PG_MAX_PIPELINE_DEPTH :: nat where "ALPHA_PG_MAX_PIPELINE_DEPTH = 64"

datatype alpha_pg_state_t = ALPHA_PG_CONNECTING | ALPHA_PG_READY | ALPHA_PG_FAILED

record alpha_pg_position_t =
  pos_ticker :: string
  pos_name :: string
  pos_quantity :: int
  pos_avg_price :: int
  pos_current_price :: int
  pos_is_paper :: bool
  pos_account_scope :: string
  pos_strategy_id :: string

record alpha_pg_exposure_t =
  exp_ticker :: string
  exp_total_quantity :: int
  exp_total_market_value :: int
  exp_total_aum :: int
  exp_strategy_count :: int
  exp_exposure_pct :: double

datatype alpha_pg_result_kind_t = ALPHA_PG_RESULT_POSITION | ALPHA_PG_RESULT_EXPOSURE

text \<open>The union of a result; it is only meaningful when the status is a success.\<close>

datatype alpha_pg_value_t = PG_POSITION alpha_pg_position_t | PG_EXPOSURE alpha_pg_exposure_t | PG_UNSET

record alpha_pg_result_t =
  res_kind :: alpha_pg_result_kind_t
  res_status :: alpha_err_t
  res_value :: alpha_pg_value_t

record ('f, 'u) pending_request_t =
  req_kind :: alpha_pg_result_kind_t
  req_callback :: "'f option"
  req_user_data :: 'u

type_synonym ('f, 'u) pg_event = "'f \<times> 'u \<times> alpha_pg_result_t"

text \<open>What the client uses of libpq.\<close>

datatype polling_status = PGRES_POLLING_FAILED | PGRES_POLLING_READING | PGRES_POLLING_WRITING | PGRES_POLLING_OK

datatype exec_status = PGRES_TUPLES_OK | PGRES_PIPELINE_SYNC | PGRES_PIPELINE_ABORTED | PGRES_FATAL_ERROR | PGRES_OTHER

record pg_result =
  PQresultStatus :: exec_status
  PQntuples :: nat
  PQgetvalue :: "nat \<Rightarrow> nat \<Rightarrow> string"
  PQresultErrorMessage :: string

record 'c libpq =
  PQconnectStart :: "string \<Rightarrow> 'c option"
  PQstatus_bad :: "'c \<Rightarrow> bool"
  PQsetnonblocking :: "'c \<Rightarrow> int \<times> 'c"
  PQerrorMessage :: "'c \<Rightarrow> string"
  PQsocket :: "'c \<Rightarrow> int"
  PQconnectPoll :: "'c \<Rightarrow> polling_status \<times> 'c"
  PQenterPipelineMode :: "'c \<Rightarrow> int \<times> 'c"
  PQpipelineSync :: "'c \<Rightarrow> int \<times> 'c"
  PQflush :: "'c \<Rightarrow> int \<times> 'c"
  PQconsumeInput :: "'c \<Rightarrow> int \<times> 'c"
  PQisBusy :: "'c \<Rightarrow> bool \<times> 'c"
  PQgetResult :: "'c \<Rightarrow> pg_result option \<times> 'c"
  PQsendQueryParams :: "'c \<Rightarrow> string \<Rightarrow> string list \<Rightarrow> int \<times> 'c"

record ('c, 'f, 'u) alpha_pg_t =
  pg_conn :: 'c
  pg_state :: alpha_pg_state_t
  pg_connect_poll :: polling_status
  pg_flush_pending :: bool
  pg_sync_sent :: bool
  pg_fifo :: "('f, 'u) pending_request_t list"
  pg_capacity :: nat
  pg_head :: nat
  pg_count :: nat
  pg_error :: string

subsection \<open>Text\<close>

definition UPSERT_POSITION_SQL :: string where
  "UPSERT_POSITION_SQL =
    ''INSERT INTO portfolio_positions '' @
    ''(ticker,name,quantity,avg_price,current_price,is_paper,account_scope,strategy_id,opened_at,'' @
    ''updated_at) '' @
    ''VALUES ($1,$2,$3::integer,$4::integer,$5::integer,$6::boolean,$7,NULLIF($8,'' @ [CHR 0x27, CHR 0x27] @ ''),NOW(),NOW()) '' @
    ''ON CONFLICT (ticker,account_scope,COALESCE(strategy_id,'' @ [CHR 0x27, CHR 0x27] @ '')) DO UPDATE SET '' @
    ''name=EXCLUDED.name,quantity=EXCLUDED.quantity,avg_price=EXCLUDED.avg_price,'' @
    ''current_price=EXCLUDED.current_price,is_paper=EXCLUDED.is_paper,updated_at=NOW() '' @
    ''RETURNING '' @
    ''ticker,name,quantity,avg_price,current_price,is_paper,account_scope,COALESCE(strategy_id,'' @ [CHR 0x27, CHR 0x27] @ '')''"

definition EXPOSURE_SQL :: string where
  "EXPOSURE_SQL =
    ''SELECT $1::text AS ticker,COALESCE(SUM(quantity),0)::bigint AS total_quantity,'' @
    ''COALESCE(SUM(quantity*current_price),0)::bigint AS total_market_value,'' @
    ''(SELECT COALESCE(SUM(quantity*current_price),0)::bigint FROM portfolio_positions WHERE '' @
    ''quantity>0) AS total_aum,'' @
    ''COUNT(DISTINCT COALESCE(strategy_id,'' @ [CHR 0x27] @ ''default'' @ [CHR 0x27] @ ''))::integer AS strategy_count '' @
    ''FROM portfolio_positions WHERE ticker=$1 AND quantity>0''"

definition set_error :: "string option \<Rightarrow> ('c, 'f, 'u) alpha_pg_t \<Rightarrow> ('c, 'f, 'u) alpha_pg_t" where
  "set_error message db =
     db\<lparr>pg_error := snprintf 256 (case message of None \<Rightarrow> ''unknown libpq error'' | Some m \<Rightarrow> m)\<rparr>"

definition copy_text :: "nat \<Rightarrow> string \<Rightarrow> string option" where
  "copy_text cap src = (if length src \<ge> cap then None else Some (snprintf cap src))"

definition parse_i64 :: "string \<Rightarrow> int option" where
  "parse_i64 s =
     (case strtoll s of (value, err, rest) \<Rightarrow>
        if err \<or> rest = s \<or> char_at rest \<noteq> CHR 0x00 then None else Some value)"

definition parse_i32 :: "string \<Rightarrow> int option" where
  "parse_i32 s =
     (case parse_i64 s of None \<Rightarrow> None
      | Some value \<Rightarrow> if value < - (2 ^ 31) \<or> value > 2 ^ 31 - 1 then None else Some value)"

subsection \<open>Connecting and observing\<close>

text \<open>\<open>calloc_db\<close> and \<open>calloc_fifo\<close> say whether the two allocations succeed; the elements of the
  fresh ring are zero requests.\<close>

definition alpha_pg_connect_start ::
    "'c libpq \<Rightarrow> bool \<Rightarrow> bool \<Rightarrow> ('f, 'u) pending_request_t \<Rightarrow> string option \<Rightarrow> nat \<Rightarrow> bool \<Rightarrow>
     alpha_err_t \<times> ('c, 'f, 'u) alpha_pg_t option" where
  "alpha_pg_connect_start lib calloc_db calloc_fifo zero_request conninfo pipeline_depth out =
     (case conninfo of None \<Rightarrow> (ALPHA_ERR_INVALID_ARG, None)
      | Some info \<Rightarrow>
        if \<not> out \<or> pipeline_depth < ALPHA_PG_MIN_PIPELINE_DEPTH \<or> pipeline_depth > ALPHA_PG_MAX_PIPELINE_DEPTH
        then (ALPHA_ERR_INVALID_ARG, None)
        else if \<not> calloc_db then (ALPHA_ERR_IO, None)
        else if \<not> calloc_fifo then (ALPHA_ERR_IO, None)
        else case PQconnectStart lib info of
          None \<Rightarrow> (ALPHA_ERR_DB, None)
        | Some c \<Rightarrow>
            let db = \<lparr>pg_conn = c, pg_state = ALPHA_PG_CONNECTING, pg_connect_poll = PGRES_POLLING_WRITING,
                      pg_flush_pending = False, pg_sync_sent = False, pg_fifo = replicate pipeline_depth zero_request,
                      pg_capacity = pipeline_depth, pg_head = 0, pg_count = 0, pg_error = []\<rparr>;
                (bad, c) = (if PQstatus_bad lib c then (True, c)
                            else case PQsetnonblocking lib c of (r, c) \<Rightarrow> (r \<noteq> 0, c));
                db = db\<lparr>pg_conn := c\<rparr>;
                db = (if bad then (set_error (Some (PQerrorMessage lib c)) db)\<lparr>pg_state := ALPHA_PG_FAILED\<rparr> else db)
            in (if pg_state db = ALPHA_PG_FAILED then ALPHA_ERR_DB else ALPHA_OK, Some db))"

text \<open>The connections given to \<^verbatim>\<open>PQfinish\<close>.\<close>

definition alpha_pg_close :: "('c, 'f, 'u) alpha_pg_t option \<Rightarrow> 'c list" where
  "alpha_pg_close db = (case db of None \<Rightarrow> [] | Some db \<Rightarrow> [pg_conn db])"

definition alpha_pg_state :: "('c, 'f, 'u) alpha_pg_t option \<Rightarrow> alpha_pg_state_t" where
  "alpha_pg_state db = (case db of Some db \<Rightarrow> pg_state db | None \<Rightarrow> ALPHA_PG_FAILED)"

definition alpha_pg_socket :: "'c libpq \<Rightarrow> ('c, 'f, 'u) alpha_pg_t option \<Rightarrow> int" where
  "alpha_pg_socket lib db = (case db of Some db \<Rightarrow> PQsocket lib (pg_conn db) | None \<Rightarrow> - 1)"

definition alpha_pg_wants_read :: "('c, 'f, 'u) alpha_pg_t option \<Rightarrow> bool" where
  "alpha_pg_wants_read db =
     (case db of None \<Rightarrow> False
      | Some db \<Rightarrow>
          if pg_state db = ALPHA_PG_CONNECTING \<and> pg_connect_poll db = PGRES_POLLING_READING then True
          else if pg_state db = ALPHA_PG_READY \<and> (pg_count db > 0 \<or> pg_sync_sent db) then True
          else False)"

definition alpha_pg_wants_write :: "('c, 'f, 'u) alpha_pg_t option \<Rightarrow> bool" where
  "alpha_pg_wants_write db =
     (case db of None \<Rightarrow> False
      | Some db \<Rightarrow>
          if pg_state db = ALPHA_PG_CONNECTING \<and> pg_connect_poll db = PGRES_POLLING_WRITING then True
          else if pg_state db = ALPHA_PG_READY \<and> (pg_flush_pending db \<or> (pg_count db > 0 \<and> \<not> pg_sync_sent db)) then True
          else False)"

definition alpha_pg_pending :: "('c, 'f, 'u) alpha_pg_t option \<Rightarrow> nat" where
  "alpha_pg_pending db = (case db of Some db \<Rightarrow> pg_count db | None \<Rightarrow> 0)"

definition alpha_pg_capacity :: "('c, 'f, 'u) alpha_pg_t option \<Rightarrow> nat" where
  "alpha_pg_capacity db = (case db of Some db \<Rightarrow> pg_capacity db | None \<Rightarrow> 0)"

definition alpha_pg_is_idle :: "('c, 'f, 'u) alpha_pg_t option \<Rightarrow> bool" where
  "alpha_pg_is_idle db =
     (case db of None \<Rightarrow> False
      | Some db \<Rightarrow> if pg_count db \<noteq> 0 \<or> pg_sync_sent db \<or> pg_flush_pending db then False else True)"

definition alpha_pg_error :: "('c, 'f, 'u) alpha_pg_t option \<Rightarrow> string" where
  "alpha_pg_error db = (case db of Some db \<Rightarrow> pg_error db | None \<Rightarrow> ''invalid db'')"

subsection \<open>Results\<close>

definition complete_head ::
    "alpha_pg_result_t \<Rightarrow> ('c, 'f, 'u) alpha_pg_t \<Rightarrow> ('f, 'u) pg_event list \<times> ('c, 'f, 'u) alpha_pg_t" where
  "complete_head result db =
     (let request = pg_fifo db ! pg_head db;
          db = db\<lparr>pg_head := (pg_head db + 1) mod pg_capacity db, pg_count := pg_count db - 1\<rparr>
      in (case req_callback request of None \<Rightarrow> [] | Some f \<Rightarrow> [(f, req_user_data request, result)], db))"

text \<open>The columns of the two statements exist, so \<open>PQgetvalue\<close> is never a null pointer.\<close>

definition parse_position :: "pg_result \<Rightarrow> alpha_pg_position_t option" where
  "parse_position pg =
     (if PQntuples pg \<noteq> 1 then None
      else do {
        ticker \<leftarrow> copy_text ALPHA_PG_TEXT_CAP (PQgetvalue pg 0 0);
        name \<leftarrow> copy_text ALPHA_PG_TEXT_CAP (PQgetvalue pg 0 1);
        quantity \<leftarrow> parse_i32 (PQgetvalue pg 0 2);
        avg_price \<leftarrow> parse_i32 (PQgetvalue pg 0 3);
        current_price \<leftarrow> parse_i32 (PQgetvalue pg 0 4);
        account_scope \<leftarrow> copy_text ALPHA_PG_TEXT_CAP (PQgetvalue pg 0 6);
        strategy_id \<leftarrow> copy_text ALPHA_PG_TEXT_CAP (PQgetvalue pg 0 7);
        Some \<lparr>pos_ticker = ticker, pos_name = name, pos_quantity = quantity, pos_avg_price = avg_price,
              pos_current_price = current_price, pos_is_paper = (PQgetvalue pg 0 5 = ''t''),
              pos_account_scope = account_scope, pos_strategy_id = strategy_id\<rparr>
      })"

definition parse_exposure :: "pg_result \<Rightarrow> alpha_pg_exposure_t option" where
  "parse_exposure pg =
     (if PQntuples pg \<noteq> 1 then None
      else do {
        ticker \<leftarrow> copy_text ALPHA_PG_TEXT_CAP (PQgetvalue pg 0 0);
        total_quantity \<leftarrow> parse_i64 (PQgetvalue pg 0 1);
        total_market_value \<leftarrow> parse_i64 (PQgetvalue pg 0 2);
        total_aum \<leftarrow> parse_i64 (PQgetvalue pg 0 3);
        strategy_count \<leftarrow> parse_i32 (PQgetvalue pg 0 4);
        let unrounded = (if total_aum > 0 then of_i64 total_market_value / of_i64 total_aum * lit 100 else 0)
        in Some \<lparr>exp_ticker = ticker, exp_total_quantity = total_quantity, exp_total_market_value = total_market_value,
                 exp_total_aum = total_aum, exp_strategy_count = strategy_count,
                 exp_exposure_pct = alpha_round_dp unrounded 2\<rparr>
      })"

definition parse_value :: "alpha_pg_result_kind_t \<Rightarrow> pg_result \<Rightarrow> alpha_pg_value_t option" where
  "parse_value kind pg =
     (if PQresultStatus pg = PGRES_TUPLES_OK then
        case kind of
          ALPHA_PG_RESULT_POSITION \<Rightarrow> map_option PG_POSITION (parse_position pg)
        | ALPHA_PG_RESULT_EXPOSURE \<Rightarrow> map_option PG_EXPOSURE (parse_exposure pg)
      else None)"

text \<open>One round of the loop that takes the results out of the connection: it returns, or goes on after
  having emitted the events of a completed request.\<close>

datatype ('c, 'f, 'u) drain_next =
    Drain_Return alpha_err_t "('c, 'f, 'u) alpha_pg_t"
  | Drain_Continue "('f, 'u) pg_event list" "('c, 'f, 'u) alpha_pg_t"

definition drain_result ::
    "pg_result \<Rightarrow> ('c, 'f, 'u) alpha_pg_t \<Rightarrow> ('f, 'u) pg_event list \<times> ('c, 'f, 'u) alpha_pg_t" where
  "drain_result pg db =
     (let kind = req_kind (pg_fifo db ! pg_head db)
      in case parse_value kind pg of
           Some v \<Rightarrow> complete_head \<lparr>res_kind = kind, res_status = ALPHA_OK, res_value = v\<rparr> db
         | None \<Rightarrow>
             complete_head \<lparr>res_kind = kind, res_status = ALPHA_ERR_DB, res_value = PG_UNSET\<rparr>
               (set_error (Some (if PQresultStatus pg = PGRES_PIPELINE_ABORTED
                                 then ''request aborted by an earlier pipeline statement''
                                 else PQresultErrorMessage pg)) db))"

definition drain_step :: "'c libpq \<Rightarrow> ('c, 'f, 'u) alpha_pg_t \<Rightarrow> ('c, 'f, 'u) drain_next" where
  "drain_step lib db =
     (case PQisBusy lib (pg_conn db) of (busy, c) \<Rightarrow>
        if busy then Drain_Return ALPHA_OK (db\<lparr>pg_conn := c\<rparr>)
        else case PQgetResult lib c of (pg, c) \<Rightarrow>
          let db = db\<lparr>pg_conn := c\<rparr>
          in case pg of
               None \<Rightarrow> if pg_count db > 0 \<or> pg_sync_sent db then Drain_Continue [] db else Drain_Return ALPHA_OK db
             | Some pg \<Rightarrow>
                 if PQresultStatus pg = PGRES_PIPELINE_SYNC then Drain_Continue [] (db\<lparr>pg_sync_sent := False\<rparr>)
                 else if pg_count db = 0 then
                   Drain_Return ALPHA_ERR_DB
                     ((set_error (Some ''libpq result arrived without a queued request'') db)\<lparr>pg_state := ALPHA_PG_FAILED\<rparr>)
                 else case drain_result pg db of (evs, db) \<Rightarrow> Drain_Continue evs db)"

partial_function (option) drain_results ::
    "'c libpq \<Rightarrow> ('c, 'f, 'u) alpha_pg_t \<Rightarrow> (alpha_err_t \<times> ('f, 'u) pg_event list \<times> ('c, 'f, 'u) alpha_pg_t) option" where
  "drain_results lib db =
     (case drain_step lib db of
        Drain_Return st db' \<Rightarrow> Some (st, [], db')
      | Drain_Continue evs db' \<Rightarrow>
          Option.bind (drain_results lib db') (\<lambda>(st, evs', db''). Some (st, evs @ evs', db'')))"

declare drain_results.simps [code]

subsection \<open>Servicing the socket\<close>

definition service_connect ::
    "'c libpq \<Rightarrow> ('c, 'f, 'u) alpha_pg_t \<Rightarrow> bool \<Rightarrow> bool \<Rightarrow> alpha_err_t \<times> ('c, 'f, 'u) alpha_pg_t" where
  "service_connect lib db readable writable =
     (let expected = (pg_connect_poll db = PGRES_POLLING_READING \<and> readable)
                     \<or> (pg_connect_poll db = PGRES_POLLING_WRITING \<and> writable)
      in if \<not> expected then (ALPHA_OK, db)
         else case PQconnectPoll lib (pg_conn db) of (poll, c) \<Rightarrow>
           let db = db\<lparr>pg_conn := c, pg_connect_poll := poll\<rparr>
           in if poll = PGRES_POLLING_FAILED then
                (ALPHA_ERR_DB, (set_error (Some (PQerrorMessage lib c)) db)\<lparr>pg_state := ALPHA_PG_FAILED\<rparr>)
              else if poll = PGRES_POLLING_OK then
                case PQenterPipelineMode lib c of (r, c) \<Rightarrow>
                  let db = db\<lparr>pg_conn := c\<rparr>
                  in if r \<noteq> 1 then (ALPHA_ERR_DB, (set_error (Some (PQerrorMessage lib c)) db)\<lparr>pg_state := ALPHA_PG_FAILED\<rparr>)
                     else (ALPHA_OK, db\<lparr>pg_state := ALPHA_PG_READY\<rparr>)
              else (ALPHA_OK, db))"

text \<open>The two output stages of a ready connection: a failure is \<open>Inl\<close> with the state it leaves.\<close>

definition service_sync ::
    "'c libpq \<Rightarrow> ('c, 'f, 'u) alpha_pg_t \<Rightarrow> bool \<Rightarrow> ('c, 'f, 'u) alpha_pg_t + ('c, 'f, 'u) alpha_pg_t" where
  "service_sync lib db writable =
     (if writable \<and> pg_count db > 0 \<and> \<not> pg_sync_sent db then
        case PQpipelineSync lib (pg_conn db) of (r, c) \<Rightarrow>
          let db = db\<lparr>pg_conn := c\<rparr>
          in if r \<noteq> 1 then Inl ((set_error (Some (PQerrorMessage lib c)) db)\<lparr>pg_state := ALPHA_PG_FAILED\<rparr>)
             else Inr (db\<lparr>pg_sync_sent := True, pg_flush_pending := True\<rparr>)
      else Inr db)"

definition service_flush ::
    "'c libpq \<Rightarrow> ('c, 'f, 'u) alpha_pg_t \<Rightarrow> bool \<Rightarrow> ('c, 'f, 'u) alpha_pg_t + ('c, 'f, 'u) alpha_pg_t" where
  "service_flush lib db writable =
     (if writable \<and> pg_flush_pending db then
        case PQflush lib (pg_conn db) of (flushed, c) \<Rightarrow>
          let db = db\<lparr>pg_conn := c\<rparr>
          in if flushed < 0 then Inl (set_error (Some (PQerrorMessage lib c)) db)
             else Inr (db\<lparr>pg_flush_pending := (flushed \<noteq> 0)\<rparr>)
      else Inr db)"

text \<open>\<open>None\<close> is a call that does not return.\<close>

definition alpha_pg_service ::
    "'c libpq \<Rightarrow> ('c, 'f, 'u) alpha_pg_t option \<Rightarrow> bool \<Rightarrow> bool \<Rightarrow>
     (alpha_err_t \<times> ('f, 'u) pg_event list \<times> ('c, 'f, 'u) alpha_pg_t option) option" where
  "alpha_pg_service lib db readable writable =
     (case db of None \<Rightarrow> Some (ALPHA_ERR_INVALID_ARG, [], None)
      | Some db \<Rightarrow>
        if pg_state db = ALPHA_PG_FAILED then Some (ALPHA_ERR_INVALID_ARG, [], Some db)
        else if pg_state db = ALPHA_PG_CONNECTING then
          case service_connect lib db readable writable of (st, db) \<Rightarrow> Some (st, [], Some db)
        else case service_sync lib db writable of
          Inl db \<Rightarrow> Some (ALPHA_ERR_DB, [], Some db)
        | Inr db \<Rightarrow>
            (case service_flush lib db writable of
               Inl db \<Rightarrow> Some (ALPHA_ERR_DB, [], Some db)
             | Inr db \<Rightarrow>
                 if readable then
                   case PQconsumeInput lib (pg_conn db) of (r, c) \<Rightarrow>
                     let db = db\<lparr>pg_conn := c\<rparr>
                     in if r \<noteq> 1 then Some (ALPHA_ERR_DB, [], Some (set_error (Some (PQerrorMessage lib c)) db))
                        else map_option (\<lambda>(st, evs, db). (st, evs, Some db)) (drain_results lib db)
                 else Some (ALPHA_OK, [], Some db)))"

subsection \<open>Requests\<close>

definition ring_push :: "('f, 'u) pending_request_t \<Rightarrow> ('c, 'f, 'u) alpha_pg_t \<Rightarrow> ('c, 'f, 'u) alpha_pg_t" where
  "ring_push request db =
     (let tail = (pg_head db + pg_count db) mod pg_capacity db
      in db\<lparr>pg_fifo := (pg_fifo db)[tail := request], pg_count := pg_count db + 1\<rparr>)"

definition send_request ::
    "'c libpq \<Rightarrow> ('c, 'f, 'u) alpha_pg_t option \<Rightarrow> alpha_pg_result_kind_t \<Rightarrow> string \<Rightarrow> string list \<Rightarrow> 'f option \<Rightarrow> 'u \<Rightarrow>
     alpha_err_t \<times> ('c, 'f, 'u) alpha_pg_t option" where
  "send_request lib db kind sql params callback user_data =
     (case db of None \<Rightarrow> (ALPHA_ERR_INVALID_ARG, None)
      | Some d \<Rightarrow>
        if pg_state d \<noteq> ALPHA_PG_READY then (ALPHA_ERR_INVALID_ARG, db)
        else if pg_count d = pg_capacity d then (ALPHA_ERR_RANGE, db)
        else if pg_sync_sent d then (ALPHA_ERR_RANGE, db)
        else case PQsendQueryParams lib (pg_conn d) sql params of (r, c) \<Rightarrow>
          let d = d\<lparr>pg_conn := c\<rparr>
          in if r \<noteq> 1 then (ALPHA_ERR_DB, Some (set_error (Some (PQerrorMessage lib c)) d))
             else
               let d = ring_push \<lparr>req_kind = kind, req_callback = callback, req_user_data = user_data\<rparr> d
               in case PQflush lib (pg_conn d) of (flushed, c) \<Rightarrow>
                 (ALPHA_OK, Some (d\<lparr>pg_conn := c, pg_flush_pending := (flushed \<noteq> 0)\<rparr>)))"

definition upsert_params :: "alpha_pg_position_t \<Rightarrow> string list" where
  "upsert_params p =
     [pos_ticker p, pos_name p, snprintf 16 (fmt_int (pos_quantity p)), snprintf 16 (fmt_int (pos_avg_price p)),
      snprintf 16 (fmt_int (pos_current_price p)), if pos_is_paper p then ''true'' else ''false'',
      pos_account_scope p, pos_strategy_id p]"

definition alpha_pg_upsert_position ::
    "'c libpq \<Rightarrow> ('c, 'f, 'u) alpha_pg_t option \<Rightarrow> alpha_pg_position_t option \<Rightarrow> 'f option \<Rightarrow> 'u \<Rightarrow>
     alpha_err_t \<times> ('c, 'f, 'u) alpha_pg_t option" where
  "alpha_pg_upsert_position lib db position callback user_data =
     (case position of None \<Rightarrow> (ALPHA_ERR_INVALID_ARG, db)
      | Some p \<Rightarrow>
        if pos_ticker p = [] \<or> pos_name p = [] \<or> pos_quantity p \<le> 0 \<or> pos_account_scope p = []
        then (ALPHA_ERR_INVALID_ARG, db)
        else send_request lib db ALPHA_PG_RESULT_POSITION UPSERT_POSITION_SQL (upsert_params p) callback user_data)"

definition alpha_pg_query_exposure ::
    "'c libpq \<Rightarrow> ('c, 'f, 'u) alpha_pg_t option \<Rightarrow> string option \<Rightarrow> 'f option \<Rightarrow> 'u \<Rightarrow>
     alpha_err_t \<times> ('c, 'f, 'u) alpha_pg_t option" where
  "alpha_pg_query_exposure lib db ticker callback user_data =
     (case ticker of None \<Rightarrow> (ALPHA_ERR_INVALID_ARG, db)
      | Some t \<Rightarrow>
        if t = [] \<or> length t \<ge> ALPHA_PG_TEXT_CAP then (ALPHA_ERR_INVALID_ARG, db)
        else send_request lib db ALPHA_PG_RESULT_EXPOSURE EXPOSURE_SQL [t] callback user_data)"

section \<open>The ring is a queue\<close>

definition pg_inv :: "('c, 'f, 'u) alpha_pg_t \<Rightarrow> bool" where
  "pg_inv db \<longleftrightarrow> 0 < pg_capacity db \<and> pg_capacity db \<le> ALPHA_PG_MAX_PIPELINE_DEPTH \<and> length (pg_fifo db) = pg_capacity db
     \<and> pg_head db < pg_capacity db \<and> pg_count db \<le> pg_capacity db"

definition pg_items :: "('c, 'f, 'u) alpha_pg_t \<Rightarrow> ('f, 'u) pending_request_t list" where
  "pg_items db = map (\<lambda>i. pg_fifo db ! ((pg_head db + i) mod pg_capacity db)) [0..<pg_count db]"

definition ring_pop :: "('c, 'f, 'u) alpha_pg_t \<Rightarrow> (('f, 'u) pending_request_t \<times> ('c, 'f, 'u) alpha_pg_t) option" where
  "ring_pop db =
     (if pg_count db = 0 then None
      else Some (pg_fifo db ! pg_head db,
                 db\<lparr>pg_head := (pg_head db + 1) mod pg_capacity db, pg_count := pg_count db - 1\<rparr>))"

lemma ring_index_inj:
  assumes "i < n" "h < n" "(h + i) mod n = (h + j) mod n" "j < n"
  shows "i = (j :: nat)"
proof -
  have "(h + k) mod n = (if h + k < n then h + k else h + k - n)" if "k < n" for k
    using that assms(2) by (simp add: mod_if)
  then show ?thesis using assms by (simp split: if_splits)
qed

interpretation pg_queue: fifo pg_inv pg_items "\<lambda>db. pg_capacity db - pg_count db" ring_push ring_pop
proof
  fix db :: "('a, 'b, 'c) alpha_pg_t" and x
  assume inv: "pg_inv db" and sp: "0 < pg_capacity db - pg_count db"
  let ?n = "pg_capacity db"
  show "pg_inv (ring_push x db)" using inv sp by (auto simp: pg_inv_def ring_push_def Let_def)
  have t: "(pg_head db + pg_count db) mod ?n < length (pg_fifo db)" using inv by (simp add: pg_inv_def)
  have "(pg_fifo db)[(pg_head db + pg_count db) mod ?n := x] ! ((pg_head db + i) mod ?n) = pg_fifo db ! ((pg_head db + i) mod ?n)"
    if "i < pg_count db" for i
  proof -
    have "(pg_head db + pg_count db) mod ?n \<noteq> (pg_head db + i) mod ?n"
      using that sp inv ring_index_inj [of i ?n "pg_head db" "pg_count db"] by (auto simp: pg_inv_def)
    then show ?thesis by simp
  qed
  then show "pg_items (ring_push x db) = pg_items db @ [x]" using t by (simp add: pg_items_def ring_push_def Let_def)
  show "pg_capacity db - pg_count db \<le> Suc (pg_capacity (ring_push x db) - pg_count (ring_push x db))"
    by (simp add: ring_push_def Let_def)
next
  fix db :: "('a, 'b, 'c) alpha_pg_t"
  show "ring_pop db = None \<longleftrightarrow> pg_items db = []" by (simp add: ring_pop_def pg_items_def)
next
  fix db db' :: "('a, 'b, 'c) alpha_pg_t" and x
  assume inv: "pg_inv db" and p: "ring_pop db = Some (x, db')"
  have c: "0 < pg_count db" and x: "x = pg_fifo db ! pg_head db"
    and db': "db' = db\<lparr>pg_head := (pg_head db + 1) mod pg_capacity db, pg_count := pg_count db - 1\<rparr>"
    using p by (auto simp: ring_pop_def split: if_splits)
  have "[0..<pg_count db] = 0 # map Suc [0..<pg_count db - 1]"
    using c by (simp add: map_Suc_upt upt_conv_Cons)
  then have "pg_items db = x # pg_items db'"
    using inv by (simp add: pg_items_def x db' pg_inv_def mod_simps)
  then show "pg_inv db' \<and> pg_items db = x # pg_items db' \<and> pg_capacity db - pg_count db \<le> pg_capacity db' - pg_count db'"
    using inv by (auto simp: pg_inv_def db')
qed

section \<open>Completion in order\<close>

text \<open>The caller of a request and what it is called with.\<close>

definition requested :: "('f, 'u) pending_request_t \<Rightarrow> ('f \<times> 'u \<times> alpha_pg_result_kind_t) option" where
  "requested req = map_option (\<lambda>f. (f, req_user_data req, req_kind req)) (req_callback req)"

definition call_of :: "('f, 'u) pg_event \<Rightarrow> 'f \<times> 'u \<times> alpha_pg_result_kind_t" where
  "call_of = (\<lambda>(f, u, r). (f, u, res_kind r))"

text \<open>A step that completes the oldest requests and calls back for them in their order.\<close>

definition completes :: "('c, 'f, 'u) alpha_pg_t \<Rightarrow> ('f, 'u) pg_event list \<Rightarrow> ('c, 'f, 'u) alpha_pg_t \<Rightarrow> bool" where
  "completes db evs db' \<longleftrightarrow> pg_inv db' \<and> pg_capacity db' = pg_capacity db \<and>
     (\<exists>finished. pg_items db = finished @ pg_items db' \<and> map call_of evs = List.map_filter requested finished)"

lemma completes_nil:
  assumes "pg_inv db" "pg_fifo db' = pg_fifo db" "pg_capacity db' = pg_capacity db" "pg_head db' = pg_head db" "pg_count db' = pg_count db"
  shows "completes db [] db'"
  using assms by (simp add: completes_def pg_inv_def pg_items_def List.map_filter_def)

lemma completes_trans:
  assumes "completes db evs db1" "completes db1 evs' db2"
  shows "completes db (evs @ evs') db2"
proof -
  obtain f f' where "pg_items db = f @ pg_items db1" "map call_of evs = List.map_filter requested f"
    "pg_items db1 = f' @ pg_items db2" "map call_of evs' = List.map_filter requested f'"
    using assms by (auto simp: completes_def)
  then show ?thesis using assms unfolding completes_def
    by (intro conjI exI [of _ "f @ f'"]) (simp_all add: List.map_filter_def)
qed

lemma complete_head_completes:
  assumes "pg_inv db" "0 < pg_count db" "res_kind result = req_kind (pg_fifo db ! pg_head db)"
    and "complete_head result db = (evs, db')"
  shows "completes db evs db'"
proof -
  let ?x = "pg_fifo db ! pg_head db"
  have "ring_pop db = Some (?x, db')" using assms(2,4) by (auto simp: ring_pop_def complete_head_def Let_def)
  from pg_queue.pop_Some [OF assms(1) this] have "pg_inv db'" "pg_items db = [?x] @ pg_items db'" by simp_all
  moreover have "pg_capacity db' = pg_capacity db" "map call_of evs = List.map_filter requested [?x]"
    using assms(3,4) by (auto simp: complete_head_def Let_def call_of_def requested_def List.map_filter_def split: option.splits)
  ultimately show ?thesis unfolding completes_def by blast
qed

lemma set_error_simps [simp]:
  "pg_conn (set_error m db) = pg_conn db" "pg_state (set_error m db) = pg_state db" "pg_fifo (set_error m db) = pg_fifo db"
  "pg_capacity (set_error m db) = pg_capacity db" "pg_head (set_error m db) = pg_head db" "pg_count (set_error m db) = pg_count db"
  "pg_sync_sent (set_error m db) = pg_sync_sent db" "pg_flush_pending (set_error m db) = pg_flush_pending db"
  by (simp_all add: set_error_def)

lemma pg_inv_cong:
  "pg_fifo db' = pg_fifo db \<Longrightarrow> pg_capacity db' = pg_capacity db \<Longrightarrow> pg_head db' = pg_head db \<Longrightarrow> pg_count db' = pg_count db \<Longrightarrow> pg_inv db' = pg_inv db"
  by (simp add: pg_inv_def)

lemma drain_result_completes:
  assumes "pg_inv db" "0 < pg_count db" "drain_result pg db = (evs, db')"
  shows "completes db evs db'"
proof (cases "parse_value (req_kind (pg_fifo db ! pg_head db)) pg")
  case None
  obtain m r where "complete_head r (set_error m db) = (evs, db')" "res_kind r = req_kind (pg_fifo db ! pg_head db)"
    using assms(3) None by (auto simp: drain_result_def Let_def)
  then have "completes (set_error m db) evs db'"
    using assms(1,2) pg_inv_cong [of "set_error m db" db] by (intro complete_head_completes) simp_all
  then show ?thesis using completes_trans completes_nil [of db "set_error m db"] assms(1) by fastforce
next
  case (Some v)
  then have "complete_head \<lparr>res_kind = req_kind (pg_fifo db ! pg_head db), res_status = ALPHA_OK, res_value = v\<rparr> db = (evs, db')"
    using assms(3) by (simp add: drain_result_def Let_def)
  from complete_head_completes [OF assms(1,2) _ this] show ?thesis by simp
qed

lemma drain_step_completes:
  assumes "pg_inv db" "drain_step lib db = Drain_Continue evs db' \<or> (drain_step lib db = Drain_Return st db' \<and> evs = [])"
  shows "completes db evs db'"
proof -
  obtain b c where c: "PQisBusy lib (pg_conn db) = (b, c)" by force
  obtain pg c' where g: "PQgetResult lib c = (pg, c')" by force
  let ?db = "db\<lparr>pg_conn := c'\<rparr>"
  have nil: "completes db [] ?db" using assms(1) by (intro completes_nil) simp_all
  show ?thesis
  proof (cases "\<not> b \<and> (\<exists>r. pg = Some r \<and> PQresultStatus r \<noteq> PGRES_PIPELINE_SYNC) \<and> 0 < pg_count db")
    case True
    then obtain r where "drain_result r ?db = (evs, db')"
      using assms(2) c g by (auto simp: drain_step_def Let_def split: prod.splits)
    then have "completes ?db evs db'"
      using True assms(1) pg_inv_cong [of ?db db] by (intro drain_result_completes) simp_all
    then show ?thesis using completes_trans [OF nil] by simp
  next
    case False
    then show ?thesis using assms c g
      by (auto simp: drain_step_def Let_def split: prod.splits option.splits if_splits intro!: completes_nil)
  qed
qed

lemma drain_results_completes:
  fixes db :: "('c, 'f, 'u) alpha_pg_t"
  assumes "drain_results lib db = Some (st, evs, db')" "pg_inv db"
  shows "completes db evs db'"
proof -
  define P where "P = (\<lambda>(lib :: 'c libpq) db (y :: alpha_err_t \<times> ('f, 'u) pg_event list \<times> ('c, 'f, 'u) alpha_pg_t).
    pg_inv db \<longrightarrow> completes db (fst (snd y)) (snd (snd y)))"
  have "P lib db (st, evs, db')"
  proof (rule drain_results.raw_induct [OF _ assms(1)])
    fix drain lib db y
    assume ih: "\<And>lib db y. drain lib db = Some y \<Longrightarrow> P lib db y"
      and y: "(case drain_step lib db of Drain_Return st db' \<Rightarrow> Some (st, [], db')
        | Drain_Continue evs db' \<Rightarrow> Option.bind (drain lib db') (\<lambda>(st, evs', db''). Some (st, evs @ evs', db''))) = Some y"
    show "P lib db y"
    proof (cases "drain_step lib db")
      case (Drain_Return st db1)
      then show ?thesis using y drain_step_completes [of db lib] by (auto simp: P_def)
    next
      case (Drain_Continue evs1 db1)
      then obtain st evs2 db2 where d: "drain lib db1 = Some (st, evs2, db2)" "y = (st, evs1 @ evs2, db2)"
        using y by (auto simp: bind_eq_Some_conv)
      have "completes db evs1 db1 \<and> completes db1 evs2 db2" if "pg_inv db"
        using that drain_step_completes [of db lib evs1 db1] Drain_Continue ih [OF d(1)] by (auto simp: P_def completes_def)
      then show ?thesis using completes_trans d(2) by (auto simp: P_def)
    qed
  qed
  then show ?thesis using assms(2) by (simp add: P_def)
qed

lemma service_connect_ring:
  "service_connect lib db r w = (st, db') \<Longrightarrow> pg_inv db \<Longrightarrow> completes db [] db'"
  by (auto simp: service_connect_def Let_def split: prod.splits if_splits intro!: completes_nil)

lemma service_sync_ring:
  "service_sync lib db w = Inl db' \<or> service_sync lib db w = Inr db' \<Longrightarrow> pg_inv db \<Longrightarrow> completes db [] db'"
  by (auto simp: service_sync_def Let_def split: prod.splits if_splits intro!: completes_nil)

lemma service_flush_ring:
  "service_flush lib db w = Inl db' \<or> service_flush lib db w = Inr db' \<Longrightarrow> pg_inv db \<Longrightarrow> completes db [] db'"
  by (auto simp: service_flush_def Let_def split: prod.splits if_splits intro!: completes_nil)

lemma service_completes:
  assumes "alpha_pg_service lib (Some db) readable writable = Some (st, evs, db')" "pg_inv db"
  obtains db1 where "db' = Some db1" "completes db evs db1"
proof (cases "pg_state db = ALPHA_PG_READY")
  case False
  then show thesis
    using assms service_connect_ring [of lib db readable writable] completes_nil [of db db] that
    by (cases "pg_state db") (auto simp: alpha_pg_service_def split: prod.splits)
next
  case True
  then have ready: "pg_state db \<noteq> ALPHA_PG_FAILED" "pg_state db \<noteq> ALPHA_PG_CONNECTING" by simp_all
  show thesis
  proof (cases "service_sync lib db writable")
    case (Inl db1)
    then show thesis using assms ready service_sync_ring [of lib db writable db1] that by (auto simp: alpha_pg_service_def)
  next
    case sync: (Inr db1)
    then have c1: "completes db [] db1" using service_sync_ring assms(2) by blast
    then have i1: "pg_inv db1" by (simp add: completes_def)
    show thesis
    proof (cases "service_flush lib db1 writable")
      case (Inl db2)
      then have "completes db1 [] db2" using service_flush_ring i1 by blast
      then show thesis using assms(1) ready sync Inl completes_trans [OF c1] that by (auto simp: alpha_pg_service_def)
    next
      case flush: (Inr db2)
      then have "completes db1 [] db2" using service_flush_ring i1 by blast
      then have c2: "completes db [] db2" using completes_trans [OF c1] by fastforce
      then have i2: "pg_inv db2" by (simp add: completes_def)
      obtain r c where cons: "PQconsumeInput lib (pg_conn db2) = (r, c)" by force
      let ?db3 = "db2\<lparr>pg_conn := c\<rparr>"
      have c3: "completes db [] ?db3" "completes db [] (set_error m ?db3)" for m
        using completes_trans [OF c2 completes_nil [OF i2, of ?db3]] completes_trans [OF c2 completes_nil [OF i2, of "set_error m ?db3"]]
        by simp_all
      then have i3: "pg_inv ?db3" by (simp add: completes_def)
      show thesis
      proof (cases "readable \<and> r = 1")
        case True
        then obtain db4 where "drain_results lib ?db3 = Some (st, evs, db4)" "db' = Some db4"
          using assms(1) ready sync flush cons by (auto simp: alpha_pg_service_def Let_def)
        then show thesis using drain_results_completes [OF _ i3] completes_trans [OF c3(1)] that by fastforce
      next
        case False
        then show thesis using assms(1) ready sync flush cons c2 c3 that
          by (auto simp: alpha_pg_service_def Let_def split: if_splits)
      qed
    qed
  qed
qed

text \<open>The request a call has had accepted, if any: sending pushes exactly that one, and leaves the ring alone when it
  fails.\<close>

definition accepted :: "alpha_err_t \<Rightarrow> alpha_pg_result_kind_t \<Rightarrow> 'f option \<Rightarrow> 'u \<Rightarrow> ('f, 'u) pending_request_t list" where
  "accepted st kind callback user_data =
     (if st = ALPHA_OK then [\<lparr>req_kind = kind, req_callback = callback, req_user_data = user_data\<rparr>] else [])"

lemma send_request_pushes:
  assumes "send_request lib (Some db) kind sql params callback user_data = (st, Some db')" "pg_inv db"
  shows "pg_inv db' \<and> pg_capacity db' = pg_capacity db \<and> pg_items db' = pg_items db @ accepted st kind callback user_data"
proof -
  let ?q = "\<lparr>req_kind = kind, req_callback = callback, req_user_data = user_data\<rparr>"
  obtain r c where snd: "PQsendQueryParams lib (pg_conn db) sql params = (r, c)" by force
  show ?thesis
  proof (cases "pg_state db = ALPHA_PG_READY \<and> pg_count db \<noteq> pg_capacity db \<and> \<not> pg_sync_sent db \<and> r = 1")
    case False
    then have "st \<noteq> ALPHA_OK \<and> pg_fifo db' = pg_fifo db \<and> pg_capacity db' = pg_capacity db \<and> pg_head db' = pg_head db \<and> pg_count db' = pg_count db"
      using assms(1) snd by (auto simp: send_request_def Let_def split: if_splits)
    then show ?thesis using assms(2) by (simp add: pg_inv_def pg_items_def accepted_def)
  next
    case True
    let ?d = "ring_push ?q (db\<lparr>pg_conn := c\<rparr>)"
    obtain flushed c' where fl: "PQflush lib (pg_conn ?d) = (flushed, c')" by force
    have i: "pg_inv (db\<lparr>pg_conn := c\<rparr>)" "0 < pg_capacity (db\<lparr>pg_conn := c\<rparr>) - pg_count (db\<lparr>pg_conn := c\<rparr>)"
      using assms(2) True by (auto simp: pg_inv_def)
    have "pg_items (db\<lparr>pg_conn := c\<rparr>) = pg_items db" by (simp add: pg_items_def)
    then have d: "pg_inv ?d" "pg_items ?d = pg_items db @ [?q]"
      using pg_queue.push_inv [OF i] pg_queue.push_items [OF i] by simp_all
    let ?e = "?d\<lparr>pg_conn := c', pg_flush_pending := (flushed \<noteq> 0)\<rparr>"
    have "db' = ?e" "st = ALPHA_OK" using assms(1) True snd fl by (auto simp: send_request_def Let_def)
    moreover have "pg_inv ?e" "pg_items ?e = pg_items ?d" "pg_capacity ?e = pg_capacity db"
      using d(1) pg_inv_cong [of ?e ?d] by (simp_all add: pg_items_def ring_push_def Let_def)
    ultimately show ?thesis using d(2) by (simp add: accepted_def)
  qed
qed

lemma upsert_pushes:
  assumes "alpha_pg_upsert_position lib (Some db) position callback user_data = (st, Some db')" "pg_inv db"
  shows "pg_inv db' \<and> pg_capacity db' = pg_capacity db \<and> pg_items db' = pg_items db @ accepted st ALPHA_PG_RESULT_POSITION callback user_data"
proof (cases "\<exists>p. position = Some p \<and> pos_ticker p \<noteq> [] \<and> pos_name p \<noteq> [] \<and> 0 < pos_quantity p \<and> pos_account_scope p \<noteq> []")
  case True
  then have "send_request lib (Some db) ALPHA_PG_RESULT_POSITION UPSERT_POSITION_SQL (upsert_params (the position)) callback user_data = (st, Some db')"
    using assms(1) by (auto simp: alpha_pg_upsert_position_def)
  then show ?thesis by (rule send_request_pushes [OF _ assms(2)])
next
  case False
  then have "db' = db" "st = ALPHA_ERR_INVALID_ARG"
    using assms(1) by (auto simp: alpha_pg_upsert_position_def not_le split: option.splits if_splits)
  then show ?thesis using assms(2) by (simp add: accepted_def)
qed

lemma exposure_pushes:
  assumes "alpha_pg_query_exposure lib (Some db) ticker callback user_data = (st, Some db')" "pg_inv db"
  shows "pg_inv db' \<and> pg_capacity db' = pg_capacity db \<and> pg_items db' = pg_items db @ accepted st ALPHA_PG_RESULT_EXPOSURE callback user_data"
proof (cases "\<exists>t. ticker = Some t \<and> t \<noteq> [] \<and> length t < ALPHA_PG_TEXT_CAP")
  case True
  then have "send_request lib (Some db) ALPHA_PG_RESULT_EXPOSURE EXPOSURE_SQL [the ticker] callback user_data = (st, Some db')"
    using assms(1) by (auto simp: alpha_pg_query_exposure_def)
  then show ?thesis by (rule send_request_pushes [OF _ assms(2)])
next
  case False
  then have "db' = db" "st = ALPHA_ERR_INVALID_ARG"
    using assms(1) by (auto simp: alpha_pg_query_exposure_def not_le split: option.splits if_splits)
  then show ?thesis using assms(2) by (simp add: accepted_def)
qed

section \<open>Runs of the client\<close>

datatype ('f, 'u) pg_op =
    Pg_Service bool bool
  | Pg_Upsert "alpha_pg_position_t option" "'f option" 'u
  | Pg_Exposure "string option" "'f option" 'u

text \<open>An operation with its status, the request it has had accepted, if any, and its events.\<close>

fun pg_exec ::
    "'c libpq \<Rightarrow> ('f, 'u) pg_op \<Rightarrow> ('c, 'f, 'u) alpha_pg_t option \<Rightarrow>
     (alpha_err_t \<times> ('f, 'u) pending_request_t list \<times> ('f, 'u) pg_event list \<times> ('c, 'f, 'u) alpha_pg_t option) option" where
  "pg_exec lib (Pg_Service readable writable) db =
     map_option (\<lambda>(st, evs, db'). (st, [], evs, db')) (alpha_pg_service lib db readable writable)"
| "pg_exec lib (Pg_Upsert position callback user_data) db =
     (case alpha_pg_upsert_position lib db position callback user_data of
        (st, db') \<Rightarrow> Some (st, accepted st ALPHA_PG_RESULT_POSITION callback user_data, [], db'))"
| "pg_exec lib (Pg_Exposure ticker callback user_data) db =
     (case alpha_pg_query_exposure lib db ticker callback user_data of
        (st, db') \<Rightarrow> Some (st, accepted st ALPHA_PG_RESULT_EXPOSURE callback user_data, [], db'))"

inductive pg_run ::
    "'c libpq \<Rightarrow> ('c, 'f, 'u) alpha_pg_t \<Rightarrow> ('f, 'u) pending_request_t list \<Rightarrow> ('f, 'u) pg_event list \<Rightarrow> ('c, 'f, 'u) alpha_pg_t \<Rightarrow> bool"
  for lib db0 where
  pg_start: "pg_run lib db0 [] [] db0"
| pg_step: "pg_run lib db0 reqs evs db \<Longrightarrow> pg_exec lib oper (Some db) = Some (st, req, ev, Some db') \<Longrightarrow>
    pg_run lib db0 (reqs @ req) (evs @ ev) db'"

lemma pg_exec_step:
  assumes "pg_exec lib oper (Some db) = Some (st, req, ev, Some db')" "pg_inv db"
  shows "pg_inv db' \<and> pg_capacity db' = pg_capacity db \<and>
    (\<exists>finished. pg_items db @ req = finished @ pg_items db' \<and> map call_of ev = List.map_filter requested finished)"
proof (cases oper)
  case (Pg_Service r w)
  then have "alpha_pg_service lib (Some db) r w = Some (st, ev, Some db')" "req = []" using assms(1) by auto
  then show ?thesis using service_completes [of lib db r w st ev "Some db'"] assms(2) by (auto simp: completes_def)
next
  case (Pg_Upsert p f u)
  then show ?thesis using upsert_pushes [OF _ assms(2)] assms(1)
    by (auto simp: List.map_filter_def split: prod.splits intro!: exI [of _ "[]"])
next
  case (Pg_Exposure t f u)
  then show ?thesis using exposure_pushes [OF _ assms(2)] assms(1)
    by (auto simp: List.map_filter_def split: prod.splits intro!: exI [of _ "[]"])
qed

lemma pg_run_order:
  assumes "pg_run lib db0 reqs evs db" "pg_inv db0"
  shows "pg_inv db \<and> pg_capacity db = pg_capacity db0 \<and>
    (\<exists>finished. pg_items db0 @ reqs = finished @ pg_items db \<and> map call_of evs = List.map_filter requested finished)"
  using assms
proof induction
  case pg_start
  then show ?case by (auto simp: List.map_filter_def intro!: exI [of _ "[]"])
next
  case (pg_step reqs evs db oper st req ev db')
  then obtain f where f: "pg_inv db" "pg_capacity db = pg_capacity db0" "pg_items db0 @ reqs = f @ pg_items db" "map call_of evs = List.map_filter requested f"
    by blast
  obtain g where g: "pg_inv db'" "pg_capacity db' = pg_capacity db" "pg_items db @ req = g @ pg_items db'" "map call_of ev = List.map_filter requested g"
    using pg_exec_step [OF pg_step.hyps(2) f(1)] by blast
  have "pg_items db0 @ (reqs @ req) = (f @ g) @ pg_items db'" using f(3) g(3) by (metis append.assoc)
  then show ?case using f g by (intro conjI exI [of _ "f @ g"]) (simp_all add: List.map_filter_def)
qed

section \<open>Returning from the drain loop\<close>

text \<open>The connection has to wait for the server after at most \<open>n\<close> rounds.\<close>

fun quiet_within :: "'c libpq \<Rightarrow> nat \<Rightarrow> 'c \<Rightarrow> bool" where
  "quiet_within lib 0 c = False"
| "quiet_within lib (Suc n) c =
     (case PQisBusy lib c of (busy, c1) \<Rightarrow> busy \<or> quiet_within lib n (snd (PQgetResult lib c1)))"

text \<open>A connection that is never busy and has no results, as an idle or a closed one.\<close>

definition dry :: "'c libpq \<Rightarrow> bool" where
  "dry lib \<longleftrightarrow> (\<forall>c. \<not> fst (PQisBusy lib c) \<and> fst (PQgetResult lib (snd (PQisBusy lib c))) = None)"

lemma drain_step_conn:
  assumes "drain_step lib db = Drain_Continue evs db'"
  shows "\<not> fst (PQisBusy lib (pg_conn db))" "pg_conn db' = snd (PQgetResult lib (snd (PQisBusy lib (pg_conn db))))"
  using assms
  by (auto simp: drain_step_def drain_result_def complete_head_def Let_def split: prod.splits option.splits if_splits)

lemma drain_returns:
  "quiet_within lib n (pg_conn db) \<Longrightarrow> \<exists>st evs db'. drain_results lib db = Some (st, evs, db') \<and> length evs \<le> n"
proof (induction n arbitrary: db)
  case (Suc n)
  show ?case
  proof (cases "drain_step lib db")
    case (Drain_Return st db')
    then show ?thesis by (simp add: drain_results.simps [of lib db])
  next
    case (Drain_Continue evs db')
    have "quiet_within lib n (pg_conn db')" using Suc.prems drain_step_conn [OF Drain_Continue] by (auto split: prod.splits)
    then obtain st evs' db'' where "drain_results lib db' = Some (st, evs', db'')" "length evs' \<le> n" using Suc.IH by blast
    moreover have "length evs \<le> 1" using Drain_Continue
      by (auto simp: drain_step_def drain_result_def complete_head_def Let_def split: prod.splits option.splits if_splits)
    ultimately show ?thesis using Drain_Continue by (simp add: drain_results.simps [of lib db])
  qed
qed simp

lemma dry_step:
  assumes "dry lib" "0 < pg_count db \<or> pg_sync_sent db"
  obtains db' where "drain_step lib db = Drain_Continue [] db'" "pg_count db' = pg_count db" "pg_sync_sent db' = pg_sync_sent db"
proof -
  obtain b c where c: "PQisBusy lib (pg_conn db) = (b, c)" by force
  obtain r c' where r: "PQgetResult lib c = (r, c')" by force
  have "\<not> b" "r = None" using assms(1) c r unfolding dry_def by (metis fst_conv snd_conv)+
  then show thesis using that assms(2) c r by (simp add: drain_step_def)
qed

lemma drain_spins:
  fixes db :: "('c, 'f, 'u) alpha_pg_t"
  assumes "dry lib" "0 < pg_count db \<or> pg_sync_sent db"
  shows "drain_results lib db = None"
proof -
  define P where "P = (\<lambda>(l :: 'c libpq) (db :: ('c, 'f, 'u) alpha_pg_t) (y :: alpha_err_t \<times> ('f, 'u) pg_event list \<times> ('c, 'f, 'u) alpha_pg_t). \<not> (dry l \<and> (0 < pg_count db \<or> pg_sync_sent db)))"
  have "P lib db y" if "drain_results lib db = Some y" for y
  proof (rule drain_results.raw_induct [OF _ that])
    fix drain l db y
    assume ih: "\<And>l db y. drain l db = Some y \<Longrightarrow> P l db y"
      and y: "(case drain_step l db of Drain_Return st db' \<Rightarrow> Some (st, [], db')
        | Drain_Continue evs db' \<Rightarrow> Option.bind (drain l db') (\<lambda>(st, evs', db''). Some (st, evs @ evs', db''))) = Some y"
    show "P l db y"
    proof (rule ccontr)
      assume "\<not> P l db y"
      then have dry: "dry l" "0 < pg_count db \<or> pg_sync_sent db" by (simp_all add: P_def)
      then obtain db' where "drain_step l db = Drain_Continue [] db'" "pg_count db' = pg_count db" "pg_sync_sent db' = pg_sync_sent db"
        by (rule dry_step)
      then show False using y ih dry by (auto simp: bind_eq_Some_conv P_def)
    qed
  qed
  then show ?thesis using assms by (cases "drain_results lib db") (simp_all add: P_def)
qed

lemma drain_idle:
  assumes "PQisBusy lib (pg_conn db) = (False, c1)" "PQgetResult lib c1 = (None, c2)" "pg_count db = 0" "\<not> pg_sync_sent db"
  shows "drain_results lib db = Some (ALPHA_OK, [], db\<lparr>pg_conn := c2\<rparr>)"
  using assms by (simp add: drain_results.simps [of lib db] drain_step_def)

lemma drain_dry:
  assumes "dry lib"
  shows "drain_results lib db =
    (if pg_count db = 0 \<and> \<not> pg_sync_sent db
     then Some (ALPHA_OK, [], db\<lparr>pg_conn := snd (PQgetResult lib (snd (PQisBusy lib (pg_conn db))))\<rparr>) else None)"
proof -
  obtain c1 c2 where "PQisBusy lib (pg_conn db) = (False, c1)" "PQgetResult lib c1 = (None, c2)"
    using assms unfolding dry_def by (metis prod.collapse)
  then show ?thesis using drain_idle [of lib db c1 c2] drain_spins [OF assms, of db] by auto
qed

section \<open>Numbers and rows\<close>

lemma parse_i64_fmt: "LLONG_MIN \<le> n \<Longrightarrow> n \<le> LLONG_MAX \<Longrightarrow> parse_i64 (fmt_int n) = Some n"
proof -
  assume n: "LLONG_MIN \<le> n" "n \<le> LLONG_MAX"
  have "fmt_int n \<noteq> []" using dec_digits_nonempty by (simp add: fmt_int_def)
  then show ?thesis using strtoll_fmt_int [OF n] by (simp add: parse_i64_def)
qed

lemma parse_i32_fmt: "- (2 ^ 31) \<le> n \<Longrightarrow> n \<le> 2 ^ 31 - 1 \<Longrightarrow> parse_i32 (fmt_int n) = Some n"
  using parse_i64_fmt [of n] by (simp add: parse_i32_def LLONG_MIN_def LLONG_MAX_def)

lemma length_fmt_int32: "- (2 ^ 31) \<le> n \<Longrightarrow> n \<le> 2 ^ 31 - 1 \<Longrightarrow> length (fmt_int n) \<le> 11"
  using length_dec_digits [of "\<bar>n\<bar>" 10] by (auto simp: fmt_int_def split: if_splits)

lemma snprintf_16_int32: "- (2 ^ 31) \<le> n \<Longrightarrow> n \<le> 2 ^ 31 - 1 \<Longrightarrow> snprintf 16 (fmt_int n) = fmt_int n"
  using length_fmt_int32 [of n] by (simp add: snprintf_def)

lemma copy_text_fits: "length s < cap \<Longrightarrow> copy_text cap s = Some s"
  by (simp add: copy_text_def snprintf_def)

lemma percentage_bounds:
  assumes "0 \<le> m" "m \<le> a" "0 < a" "a \<le> 2 ^ 63"
  defines "p \<equiv> alpha_round_dp (of_i64 m / of_i64 a * lit 100) 2"
  shows "0 \<le> p" "p \<le> lit 100"
proof -
  have fin: "isfinite (of_i64 m)" "isfinite (of_i64 a)" using assms by (auto intro!: isfinite_of_i64)
  have "(1 :: double) = of_i64 1" by (simp add: of_i64_def one_double_def mk_eval)
  moreover have "of_i64 1 \<le> of_i64 a" using assms(3) by (intro of_i64_mono) simp
  ultimately have pos: "0 < of_i64 a" using fin by (simp add: less_finite le_finite)
  let ?q = "of_i64 m / of_i64 a"
  have q: "unit_double ?q" using assms fin pos by (intro unit_quotient) (simp_all add: of_i64_nonneg of_i64_mono)
  have h: "isfinite (lit 100)" "val (lit 100) = 100" by simp_all
  obtain s where m: "?q * lit 100 = mk s (val ?q * 100)" using times_mk [of ?q "lit 100"] q h by (auto simp: unit_double_def)
  have b: "isfinite (?q * lit 100)" "0 \<le> val (?q * lit 100)" "val (?q * lit 100) \<le> 100"
    using mk_between [OF m, of 0 "lit 100"] q by (simp_all add: unit_double_def)
  have "\<bar>p\<bar> \<le> lit (of_int 10000 / 10 ^ 2)"
    unfolding p_def using alpha_round_dp_abs_le [of "?q * lit 100" 2 10000] b by (simp add: le_finite)
  then show "p \<le> lit 100" using le_abs_double by simp
  show "0 \<le> p" unfolding p_def using alpha_round_dp_nonneg [of "?q * lit 100" 2] b by (simp add: le_finite)
qed

section \<open>A pipeline that is answered\<close>

text \<open>The connection hands out the given results. After the last it is idle, so that it has no result and is not busy, or, when
  more is expected, it is busy.\<close>

fun delivers :: "'c libpq \<Rightarrow> 'c \<Rightarrow> pg_result option list \<Rightarrow> bool" where
  "delivers lib c [] = (case PQisBusy lib c of (busy, c1) \<Rightarrow> busy \<or> fst (PQgetResult lib c1) = None)"
| "delivers lib c (r # rs) =
     (case PQisBusy lib c of (busy, c1) \<Rightarrow> \<not> busy \<and> (case PQgetResult lib c1 of (r', c2) \<Rightarrow> r' = r \<and> delivers lib c2 rs))"

text \<open>What pipeline mode delivers: every result and the boundary after it, and the synchronisation point
  at the end.\<close>

definition pipeline_answer :: "pg_result list \<Rightarrow> pg_result option list" where
  "pipeline_answer rs = concat (map (\<lambda>r. [Some r, None]) rs)"

definition result_of :: "alpha_pg_result_kind_t \<Rightarrow> pg_result \<Rightarrow> alpha_pg_result_t" where
  "result_of kind pg =
     (case parse_value kind pg of
        Some v \<Rightarrow> \<lparr>res_kind = kind, res_status = ALPHA_OK, res_value = v\<rparr>
      | None \<Rightarrow> \<lparr>res_kind = kind, res_status = ALPHA_ERR_DB, res_value = PG_UNSET\<rparr>)"

definition callback_events :: "('f, 'u) pending_request_t \<Rightarrow> pg_result \<Rightarrow> ('f, 'u) pg_event list" where
  "callback_events req pg =
     (case req_callback req of None \<Rightarrow> [] | Some f \<Rightarrow> [(f, req_user_data req, result_of (req_kind req) pg)])"

lemma drain_result_events:
  assumes "pg_inv db" "pg_items db = req # reqs"
  obtains db' where "drain_result pg db = (callback_events req pg, db')" "pg_inv db'" "pg_items db' = reqs"
    "pg_sync_sent db' = pg_sync_sent db" "pg_conn db' = pg_conn db"
proof -
  obtain evs db' where d: "drain_result pg db = (evs, db')" by fastforce
  have c: "0 < pg_count db" using assms(2) by (cases "pg_count db") (simp_all add: pg_items_def)
  have pop: "ring_pop db = Some (pg_fifo db ! pg_head db, db\<lparr>pg_head := (pg_head db + 1) mod pg_capacity db, pg_count := pg_count db - 1\<rparr>)"
    using c by (simp add: ring_pop_def)
  note q = pg_queue.pop_Some [OF assms(1) pop]
  have req: "pg_fifo db ! pg_head db = req" using q assms(2) by simp
  have "evs = callback_events req pg \<and> pg_sync_sent db' = pg_sync_sent db \<and> pg_conn db' = pg_conn db
      \<and> pg_fifo db' = pg_fifo db \<and> pg_capacity db' = pg_capacity db \<and> pg_head db' = (pg_head db + 1) mod pg_capacity db \<and> pg_count db' = pg_count db - 1"
    using d req by (auto simp: drain_result_def complete_head_def callback_events_def result_of_def Let_def split: option.splits)
  moreover from this have "pg_inv db'" "pg_items db' = reqs" using q assms(2) by (simp_all add: pg_inv_def pg_items_def)
  ultimately show thesis using d that by blast
qed

lemma drain_null:
  assumes "PQisBusy lib (pg_conn db) = (False, c1)" "PQgetResult lib c1 = (None, c2)" "0 < pg_count db \<or> pg_sync_sent db"
  shows "drain_results lib db = drain_results lib (db\<lparr>pg_conn := c2\<rparr>)"
  using assms by (subst drain_results.simps) (auto simp: drain_step_def Let_def option.case_eq_if bind_eq_None_conv split: Option.bind_splits)

lemma drain_request:
  assumes "PQisBusy lib (pg_conn db) = (False, c1)" "PQgetResult lib c1 = (Some r, c2)" "PQresultStatus r \<noteq> PGRES_PIPELINE_SYNC"
    and "pg_inv db" "pg_items db = req # reqs"
  obtains db' where "drain_results lib db = map_option (\<lambda>(st, evs, d). (st, callback_events req r @ evs, d)) (drain_results lib db')"
    "pg_inv db'" "pg_items db' = reqs" "pg_sync_sent db' = pg_sync_sent db" "pg_conn db' = c2"
proof -
  let ?db = "db\<lparr>pg_conn := c2\<rparr>"
  have "pg_inv ?db" "pg_items ?db = req # reqs" using assms(4,5) by (simp_all add: pg_inv_def pg_items_def)
  then obtain db' where d: "drain_result r ?db = (callback_events req r, db')" "pg_inv db'" "pg_items db' = reqs"
    "pg_sync_sent db' = pg_sync_sent ?db" "pg_conn db' = pg_conn ?db" by (rule drain_result_events)
  have "0 < pg_count db" using assms(5) by (cases "pg_count db") (simp_all add: pg_items_def)
  then have "drain_step lib db = Drain_Continue (callback_events req r) db'"
    using assms(1-3) d(1) by (simp add: drain_step_def Let_def)
  then have "drain_results lib db = map_option (\<lambda>(st, evs, d). (st, callback_events req r @ evs, d)) (drain_results lib db')"
    by (subst drain_results.simps) (cases "drain_results lib db'"; auto)
  then show thesis using d that by simp
qed

lemma pipeline_drained:
  assumes "delivers lib (pg_conn db) (pipeline_answer rs @ [Some sync])" "PQresultStatus sync = PGRES_PIPELINE_SYNC"
    and "\<forall>r\<in>set rs. PQresultStatus r \<noteq> PGRES_PIPELINE_SYNC" "pg_inv db" "length rs = length (pg_items db)" "pg_sync_sent db"
  shows "\<exists>db'. drain_results lib db = Some (ALPHA_OK, concat (map2 callback_events (pg_items db) rs), db')
    \<and> pg_items db' = [] \<and> \<not> pg_sync_sent db' \<and> pg_inv db'"
  using assms
proof (induction rs arbitrary: db)
  case Nil
  obtain c1 c2 where c: "PQisBusy lib (pg_conn db) = (False, c1)" "PQgetResult lib c1 = (Some sync, c2)" "delivers lib c2 []"
    using Nil.prems(1) by (auto simp: pipeline_answer_def split: prod.splits)
  let ?db = "db\<lparr>pg_conn := c2, pg_sync_sent := False\<rparr>"
  have "pg_count db = 0" using Nil.prems(5) by (simp add: pg_items_def)
  then obtain c3 where "drain_results lib ?db = Some (ALPHA_OK, [], ?db\<lparr>pg_conn := c3\<rparr>)"
    using c(3) drain_idle [of lib ?db] by (cases "PQisBusy lib c2") (fastforce simp: drain_results.simps [of lib ?db] drain_step_def split: prod.splits)
  moreover have "drain_step lib db = Drain_Continue [] ?db" using c Nil.prems(2) by (simp add: drain_step_def)
  ultimately have "drain_results lib db = Some (ALPHA_OK, [], ?db\<lparr>pg_conn := c3\<rparr>)" by (simp add: drain_results.simps [of lib db])
  then show ?case using Nil.prems(4,5) by (simp add: pg_inv_def pg_items_def)
next
  case (Cons r rs)
  obtain req reqs where items: "pg_items db = req # reqs" using Cons.prems(5) by (cases "pg_items db") auto
  obtain c1 c2 c3 c4 where c: "PQisBusy lib (pg_conn db) = (False, c1)" "PQgetResult lib c1 = (Some r, c2)"
    "PQisBusy lib c2 = (False, c3)" "PQgetResult lib c3 = (None, c4)" "delivers lib c4 (pipeline_answer rs @ [Some sync])"
    using Cons.prems(1) by (auto simp: pipeline_answer_def split: prod.splits)
  have "PQresultStatus r \<noteq> PGRES_PIPELINE_SYNC" using Cons.prems(3) by simp
  from drain_request [OF c(1,2) this Cons.prems(4) items] obtain db1 where
    d: "drain_results lib db = map_option (\<lambda>(st, evs, d). (st, callback_events req r @ evs, d)) (drain_results lib db1)"
    "pg_inv db1" "pg_items db1 = reqs" "pg_sync_sent db1 = pg_sync_sent db" "pg_conn db1 = c2" .
  let ?db2 = "db1\<lparr>pg_conn := c4\<rparr>"
  have n: "drain_results lib db1 = drain_results lib ?db2" using c d Cons.prems(6) by (intro drain_null) simp_all
  have "pg_items ?db2 = reqs" "pg_inv ?db2" using d by (simp_all add: pg_items_def pg_inv_def)
  then show ?case using Cons.IH [of ?db2] Cons.prems c(5) d n items by auto
qed

section \<open>Examples\<close>

text \<open>A connection that hands out the results of a list, and a run on it, for the examples.\<close>

definition scripted_libpq :: "pg_result option list \<Rightarrow> (pg_result option list) libpq" where
  "scripted_libpq s =
     \<lparr>PQconnectStart = (\<lambda>_. Some s), PQstatus_bad = (\<lambda>_. False), PQsetnonblocking = (\<lambda>c. (0, c)), PQerrorMessage = (\<lambda>_. []),
      PQsocket = (\<lambda>_. 3), PQconnectPoll = (\<lambda>c. (PGRES_POLLING_OK, c)), PQenterPipelineMode = (\<lambda>c. (1, c)),
      PQpipelineSync = (\<lambda>c. (1, c)), PQflush = (\<lambda>c. (0, c)), PQconsumeInput = (\<lambda>c. (1, c)), PQisBusy = (\<lambda>c. (length c = 0, c)),
      PQgetResult = (\<lambda>c. case c of [] \<Rightarrow> (None, []) | r # rs \<Rightarrow> (r, rs)), PQsendQueryParams = (\<lambda>c _ _. (1, c))\<rparr>"

text \<open>The same results from a connection that is idle afterwards, and a connection that has none.\<close>

definition idle_libpq :: "pg_result option list \<Rightarrow> (pg_result option list) libpq" where
  "idle_libpq s = (scripted_libpq s)\<lparr>PQisBusy := (\<lambda>c. (False, c))\<rparr>"

definition dry_libpq :: "(pg_result option list) libpq" where
  "dry_libpq = (scripted_libpq [])\<lparr>PQisBusy := (\<lambda>c. (False, c)), PQgetResult := (\<lambda>c. (None, c))\<rparr>"

text \<open>Concrete data for the witnesses.\<close>

definition example_row :: "string list \<Rightarrow> pg_result" where
  "example_row vs = \<lparr>PQresultStatus = PGRES_TUPLES_OK, PQntuples = 1, PQgetvalue = (\<lambda>_ i. vs ! i), PQresultErrorMessage = []\<rparr>"

definition example_script :: "pg_result option list" where
  "example_script =
     [Some (example_row [''005930'', ''30'', ''34000'', ''68000'', ''2'']), None,
      Some \<lparr>PQresultStatus = PGRES_PIPELINE_SYNC, PQntuples = 0, PQgetvalue = (\<lambda>_ _. []), PQresultErrorMessage = []\<rparr>]"

fun pg_exec_all ::
    "'c libpq \<Rightarrow> ('f, 'u) pg_op list \<Rightarrow> ('c, 'f, 'u) alpha_pg_t \<Rightarrow>
     (('f, 'u) pending_request_t list \<times> ('f, 'u) pg_event list \<times> ('c, 'f, 'u) alpha_pg_t) option" where
  "pg_exec_all lib [] db = Some ([], [], db)"
| "pg_exec_all lib (oper # opers) db =
     (case pg_exec lib oper (Some db) of
        Some (st, req, ev, Some db') \<Rightarrow>
          (case pg_exec_all lib opers db' of None \<Rightarrow> None | Some (reqs, evs, db'') \<Rightarrow> Some (req @ reqs, ev @ evs, db''))
      | _ \<Rightarrow> None)"

definition example_db :: "(pg_result option list, string, nat) alpha_pg_t" where
  "example_db =
     the (snd (alpha_pg_connect_start (scripted_libpq example_script) True True
       \<lparr>req_kind = ALPHA_PG_RESULT_POSITION, req_callback = None, req_user_data = 0\<rparr> (Some ''host=localhost'') 2 True))"

definition example_run ::
    "((string, nat) pending_request_t list \<times> (string, nat) pg_event list \<times> (pg_result option list, string, nat) alpha_pg_t) option" where
  "example_run = pg_exec_all (scripted_libpq example_script)
     [Pg_Service False True, Pg_Exposure (Some ''005930'') (Some ''on_exposure'') 7, Pg_Service False True, Pg_Service True False] example_db"

definition example_pending :: "(pg_result option list, string, nat) alpha_pg_t" where
  "example_pending =
     (ring_push \<lparr>req_kind = ALPHA_PG_RESULT_EXPOSURE, req_callback = Some ''on_exposure'', req_user_data = 7\<rparr> example_db)\<lparr>pg_sync_sent := True\<rparr>"

definition example_position :: alpha_pg_position_t where
  "example_position = \<lparr>pos_ticker = ''005930'', pos_name = ''Samsung'', pos_quantity = 10, pos_avg_price = 1000, pos_current_price = - 5,
     pos_is_paper = True, pos_account_scope = ''paper'', pos_strategy_id = []\<rparr>"

section \<open>Properties\<close>

lemma pg_run_exec_all:
  "pg_run lib db0 reqs evs db \<Longrightarrow> pg_exec_all lib opers db = Some (reqs', evs', db') \<Longrightarrow> pg_run lib db0 (reqs @ reqs') (evs @ evs') db'"
proof (induction opers arbitrary: reqs evs db reqs' evs')
  case (Cons oper opers)
  then obtain st req ev db1 reqs1 evs1 where e: "pg_exec lib oper (Some db) = Some (st, req, ev, Some db1)"
    "pg_exec_all lib opers db1 = Some (reqs1, evs1, db')" "reqs' = req @ reqs1" "evs' = ev @ evs1"
    by (auto split: option.splits prod.splits)
  from Cons.IH [OF pg_step [OF Cons.prems(1) e(1)] e(2)] show ?case by (simp add: e(3,4))
qed simp

text \<open>
  C6. Every request is answered at most once and in the order of acceptance, whatever libpq does: in any run of
  service calls and requests from a fresh connection, the callbacks made so far are exactly those of the oldest accepted
  requests, each with its own user data and the kind of result it asked for, and the ring holds exactly the accepted
  requests that are left, never more than the pipeline depth.
\<close>

theorem pg_exactly_once:
  assumes "alpha_pg_connect_start lib True True zero (Some info) depth True = (ALPHA_OK, Some db0)"
    and "pg_run lib db0 accepted_requests evs db"
  shows "pg_count db \<le> depth \<and> depth \<le> 64 \<and> length (pg_items db) = pg_count db \<and>
    (\<exists>finished. accepted_requests = finished @ pg_items db \<and> map call_of evs = List.map_filter requested finished)"
proof -
  have i: "pg_inv db0" "pg_items db0 = []" "pg_capacity db0 = depth" "depth \<le> 64"
    using assms(1)
    by (auto simp: alpha_pg_connect_start_def pg_inv_def pg_items_def Let_def ALPHA_PG_MIN_PIPELINE_DEPTH_def
        ALPHA_PG_MAX_PIPELINE_DEPTH_def split: if_splits option.splits prod.splits)
  have "length (pg_items db) = pg_count db" by (simp add: pg_items_def)
  then show ?thesis using pg_run_order [OF assms(2) i(1)] i(2-4) by (auto simp: pg_inv_def)
qed

lemma example_run_result: "map_option (\<lambda>(reqs, evs, db). (map requested reqs, map call_of evs, pg_count db, pg_sync_sent db)) example_run
    = Some ([Some (''on_exposure'', 7, ALPHA_PG_RESULT_EXPOSURE)], [(''on_exposure'', 7, ALPHA_PG_RESULT_EXPOSURE)], 0, False)"
  by code_simp

theorem pg_exactly_once_witness:
  "\<exists>reqs evs db. pg_run (scripted_libpq example_script) example_db reqs evs db \<and> map call_of evs = [(''on_exposure'', 7, ALPHA_PG_RESULT_EXPOSURE)]
     \<and> pg_count db \<le> 2"
proof -
  obtain reqs evs db where r: "example_run = Some (reqs, evs, db)" "map call_of evs = [(''on_exposure'', 7, ALPHA_PG_RESULT_EXPOSURE)]"
    using example_run_result by auto
  have run: "pg_run (scripted_libpq example_script) example_db reqs evs db"
    using pg_run_exec_all [OF pg_start r(1) [unfolded example_run_def]] by simp
  have "alpha_pg_connect_start (scripted_libpq example_script) True True
      \<lparr>req_kind = ALPHA_PG_RESULT_POSITION, req_callback = None, req_user_data = 0\<rparr> (Some ''host=localhost'') 2 True = (ALPHA_OK, Some example_db)"
    by (simp add: example_db_def alpha_pg_connect_start_def scripted_libpq_def ALPHA_PG_MIN_PIPELINE_DEPTH_def ALPHA_PG_MAX_PIPELINE_DEPTH_def Let_def)
  from pg_exactly_once [OF this run] show ?thesis using run r(2) by (intro exI [of _ reqs] exI [of _ evs] exI [of _ db]) simp
qed

text \<open>
  C17. A pipeline that is answered is completed: when the connection delivers one result and one boundary for each pending
  request and then the synchronisation point, and after it is either busy or idle (not busy, and without a result), draining
  it returns with a success, calls every request back with the value
  parsed from its own result or with an error where the row does not parse, and leaves the client with nothing pending and
  the synchronisation point cleared, so that new requests are accepted again.
\<close>

theorem pipeline_completes:
  assumes "delivers lib (pg_conn db) (pipeline_answer rs @ [Some sync])" "PQresultStatus sync = PGRES_PIPELINE_SYNC"
    and "\<forall>r\<in>set rs. PQresultStatus r \<noteq> PGRES_PIPELINE_SYNC" "pg_inv db" "length rs = pg_count db" "pg_sync_sent db"
  shows "\<exists>db'. drain_results lib db = Some (ALPHA_OK, concat (map2 callback_events (pg_items db) rs), db')
    \<and> alpha_pg_pending (Some db') = 0 \<and> \<not> pg_sync_sent db'"
proof -
  have "length rs = length (pg_items db)" using assms(5) by (simp add: pg_items_def)
  from pipeline_drained [OF assms(1-4) this assms(6)] obtain db' where
    "drain_results lib db = Some (ALPHA_OK, concat (map2 callback_events (pg_items db) rs), db')" "pg_items db' = []" "\<not> pg_sync_sent db'"
    by blast
  moreover from this have "pg_count db' = 0" by (simp add: pg_items_def)
  ultimately show ?thesis by (simp add: alpha_pg_pending_def)
qed

theorem pipeline_completes_witness:
  "(\<exists>evs db'. drain_results (scripted_libpq example_script) example_pending = Some (ALPHA_OK, evs, db') \<and> alpha_pg_pending (Some db') = 0)
   \<and> (\<exists>evs db'. drain_results (idle_libpq example_script) example_pending = Some (ALPHA_OK, evs, db') \<and> alpha_pg_pending (Some db') = 0)"
proof -
  let ?r = "example_row [''005930'', ''30'', ''34000'', ''68000'', ''2'']"
  let ?s = "\<lparr>PQresultStatus = PGRES_PIPELINE_SYNC, PQntuples = 0, PQgetvalue = (\<lambda>_ _. []), PQresultErrorMessage = []\<rparr>"
  have "pg_conn example_pending = example_script" "pg_inv example_pending" "pg_count example_pending = 1" "pg_sync_sent example_pending"
    by (simp_all add: example_pending_def example_db_def ring_push_def alpha_pg_connect_start_def scripted_libpq_def pg_inv_def
        ALPHA_PG_MIN_PIPELINE_DEPTH_def ALPHA_PG_MAX_PIPELINE_DEPTH_def Let_def)
  moreover have "delivers (scripted_libpq example_script) example_script (pipeline_answer [?r] @ [Some ?s])"
    "delivers (idle_libpq example_script) example_script (pipeline_answer [?r] @ [Some ?s])"
    by (simp_all add: idle_libpq_def scripted_libpq_def pipeline_answer_def example_script_def)
  ultimately show ?thesis
    using pipeline_completes [of "scripted_libpq example_script" example_pending "[?r]" ?s]
      pipeline_completes [of "idle_libpq example_script" example_pending "[?r]" ?s] by (auto simp: example_row_def)
qed

text \<open>
  C33. When the drain loop returns. If the connection becomes busy within \<open>n\<close> rounds the loop returns, with at most
  \<open>n\<close> callbacks. On a connection that is never busy and has no results it returns exactly when no request is pending
  and no synchronisation point is outstanding: then it reports a success, calls nothing back and changes nothing but the state
  of the connection. With a request or a synchronisation point outstanding it does not return there: nothing in the code
  bounds it.
\<close>

theorem drain_returns_or_spins:
  "(quiet_within lib n (pg_conn db) \<longrightarrow> (\<exists>st evs db'. drain_results lib db = Some (st, evs, db') \<and> length evs \<le> n))
   \<and> (dry lib \<longrightarrow> drain_results lib db =
        (if pg_count db = 0 \<and> \<not> pg_sync_sent db
         then Some (ALPHA_OK, [], db\<lparr>pg_conn := snd (PQgetResult lib (snd (PQisBusy lib (pg_conn db))))\<rparr>) else None))"
  using drain_returns drain_dry by blast

theorem drain_returns_or_spins_witness:
  "(\<exists>st evs db'. drain_results (scripted_libpq []) example_pending = Some (st, evs, db') \<and> length evs \<le> 4)
   \<and> drain_results dry_libpq example_pending = None
   \<and> drain_results dry_libpq example_db = Some (ALPHA_OK, [], example_db)"
proof -
  have "pg_conn example_pending = example_script" "0 < pg_count example_pending" "pg_count example_db = 0" "\<not> pg_sync_sent example_db"
    by (simp_all add: example_pending_def example_db_def ring_push_def alpha_pg_connect_start_def scripted_libpq_def
        ALPHA_PG_MIN_PIPELINE_DEPTH_def ALPHA_PG_MAX_PIPELINE_DEPTH_def Let_def)
  moreover have "quiet_within (scripted_libpq []) 4 example_script"
    by (simp add: scripted_libpq_def example_script_def numeral_eq_Suc)
  moreover have "dry dry_libpq" "PQisBusy dry_libpq c = (False, c)" "PQgetResult dry_libpq c = (None, c)" for c
    by (simp_all add: dry_def dry_libpq_def scripted_libpq_def)
  ultimately show ?thesis
    using conjunct1 [OF drain_returns_or_spins [of "scripted_libpq []" 4 example_pending]]
      conjunct2 [OF drain_returns_or_spins [of dry_libpq 0 example_pending]] conjunct2 [OF drain_returns_or_spins [of dry_libpq 0 example_db]]
    by simp
qed

text \<open>
  C35. A position survives the database: the parameters an upsert sends, returned by the server as the row of its
  statement with the boolean in the server's spelling, parse to the very position that was sent, for all texts that fit
  their fields and all 32-bit numbers. The 16-byte number buffers never cut a digit.
\<close>

theorem position_roundtrip:
  assumes "length (pos_ticker p) < ALPHA_PG_TEXT_CAP" "length (pos_name p) < ALPHA_PG_TEXT_CAP"
    "length (pos_account_scope p) < ALPHA_PG_TEXT_CAP" "length (pos_strategy_id p) < ALPHA_PG_TEXT_CAP"
    and "list_all (\<lambda>n. - (2 ^ 31) \<le> n \<and> n \<le> 2 ^ 31 - 1) [pos_quantity p, pos_avg_price p, pos_current_price p]"
    and "PQntuples pg = 1" "map (PQgetvalue pg 0) [0, 1, 2, 3, 4, 5, 6, 7] = (upsert_params p)[5 := if pos_is_paper p then ''t'' else ''f'']"
  shows "parse_position pg = Some p"
proof -
  let ?v = "PQgetvalue pg 0"
  have "?v 0 = pos_ticker p" "?v 1 = pos_name p" "?v 2 = fmt_int (pos_quantity p)" "?v 3 = fmt_int (pos_avg_price p)"
    "?v 4 = fmt_int (pos_current_price p)" "?v 5 = (if pos_is_paper p then ''t'' else ''f'')"
    "?v 6 = pos_account_scope p" "?v 7 = pos_strategy_id p"
    using assms(5,7) by (simp_all add: upsert_params_def snprintf_16_int32)
  then show ?thesis using assms(1-6) by (simp add: parse_position_def copy_text_fits parse_i32_fmt)
qed

theorem position_roundtrip_witness:
  "parse_position (example_row [''005930'', ''Samsung'', ''10'', ''1000'', ''-5'', ''t'', ''paper'', []]) = Some example_position"
proof -
  have "upsert_params example_position = [''005930'', ''Samsung'', ''10'', ''1000'', ''-5'', ''true'', ''paper'', []]" by code_simp
  then show ?thesis
    using position_roundtrip [of example_position "example_row [''005930'', ''Samsung'', ''10'', ''1000'', ''-5'', ''t'', ''paper'', []]"]
    by (simp add: example_position_def example_row_def ALPHA_PG_TEXT_CAP_def)
qed

text \<open>
  The exposure row is read exactly and its percentage makes sense: the printed 64-bit totals are parsed to the numbers the
  server sent, and when the market value of a ticker is at most the total the exposure lies between 0 and 100 after
  the conversions to binary64, the division and the decimal rounding, however large the totals are.
\<close>

lemma exposure_percentage:
  assumes "length t < ALPHA_PG_TEXT_CAP" "list_all (\<lambda>n. LLONG_MIN \<le> n \<and> n \<le> LLONG_MAX) [q, m, a]" "0 \<le> n" "n < 2 ^ 31"
    and "0 \<le> m" "m \<le> a"
    and "PQntuples pg = 1" "map (PQgetvalue pg 0) [0, 1, 2, 3, 4] = [t, fmt_int q, fmt_int m, fmt_int a, fmt_int n]"
  shows "\<exists>pct. parse_exposure pg = Some \<lparr>exp_ticker = t, exp_total_quantity = q, exp_total_market_value = m, exp_total_aum = a,
      exp_strategy_count = n, exp_exposure_pct = pct\<rparr> \<and> 0 \<le> pct \<and> pct \<le> lit 100"
proof -
  let ?v = "PQgetvalue pg 0"
  let ?pct = "alpha_round_dp (if a > 0 then of_i64 m / of_i64 a * lit 100 else 0) 2"
  have "?v 0 = t" "?v 1 = fmt_int q" "?v 2 = fmt_int m" "?v 3 = fmt_int a" "?v 4 = fmt_int n"
    using assms(8) by (simp_all add:)
  then have "parse_exposure pg = Some \<lparr>exp_ticker = t, exp_total_quantity = q, exp_total_market_value = m, exp_total_aum = a,
      exp_strategy_count = n, exp_exposure_pct = ?pct\<rparr>"
    using assms(1-4,7) by (simp add: parse_exposure_def copy_text_fits parse_i64_fmt parse_i32_fmt Let_def)
  moreover have "alpha_round_dp 0 2 = 0" by code_simp
  then have "0 \<le> ?pct \<and> ?pct \<le> lit 100"
    using percentage_bounds [of m a] assms(2,5,6) by (cases "a > 0") (simp_all add: LLONG_MAX_def le_finite)
  ultimately show ?thesis by blast
qed

end
