(* ===== verification/Http_Client.thy ===== *)
theory Http_Client
  imports Alpha_Prelude "HOL-Library.Multiset" "HOL-Library.Monad_Syntax"
begin

unbundle bit_operations_syntax

text \<open>
  The HTTP client (\<^verbatim>\<open>core/platform/http/http_client.c\<close>): POST requests on a libcurl multi handle that the
  event loop of the caller drives. libcurl is a parameter, a record of functions on the state of the multi
  handle; a request is identified by its address, and the calls that libcurl makes back into the client during an
  action are part of what that function returns. The callbacks of the caller are emitted events.
\<close>

section \<open>The code\<close>

subsection \<open>Types\<close>

definition ALPHA_HTTP_MAX_PENDING :: nat where "ALPHA_HTTP_MAX_PENDING = 64"

definition ALPHA_HTTP_MAX_RESPONSE_BYTES :: "64 word" where "ALPHA_HTTP_MAX_RESPONSE_BYTES = 1024 * 1024"

text \<open>The last constructor stands for the values of the C type that are not in the enumeration.\<close>

datatype alpha_http_post_kind_t =
    ALPHA_HTTP_POST_GENERIC_JSON
  | ALPHA_HTTP_POST_TELEGRAM
  | ALPHA_HTTP_POST_LLM
  | ALPHA_HTTP_POST_OTHER int

definition ALPHA_HTTP_WATCH_NONE :: "32 word" where "ALPHA_HTTP_WATCH_NONE = 0"

definition ALPHA_HTTP_WATCH_READ :: "32 word" where "ALPHA_HTTP_WATCH_READ = 1"

definition ALPHA_HTTP_WATCH_WRITE :: "32 word" where "ALPHA_HTTP_WATCH_WRITE = 2"

record 'u alpha_http_post_t =
  po_kind :: alpha_http_post_kind_t
  po_url :: "string option"
  po_json_body :: "string option"
  po_authorization_header :: "string option"
  po_timeout_ms :: int
  po_user_data :: "'u option"

record 'u alpha_http_result_t =
  hr_kind :: alpha_http_post_kind_t
  hr_status_code :: int
  hr_transport_code :: int
  hr_response_body :: string
  hr_response_size :: "64 word"
  hr_user_data :: "'u option"

record ('e, 'u) alpha_http_request_t =
  rq_addr :: nat
  rq_easy :: 'e
  rq_headers :: "string list"
  rq_body :: string
  rq_response :: "string option"
  rq_response_size :: "64 word"
  rq_kind :: alpha_http_post_kind_t
  rq_user_data :: "'u option"

record ('m, 'e, 'u) alpha_http_multi_t =
  hm_multi :: 'm
  hm_requests :: "('e, 'u) alpha_http_request_t list"
  hm_pending :: nat

datatype 'u http_event =
    Http_Watch int "32 word"
  | Http_Timer int
  | Http_Complete "'u alpha_http_result_t"

text \<open>What the client uses of libcurl. The values of its constants are those of its public header.\<close>

definition CURL_POLL_IN :: int where "CURL_POLL_IN = 1"

definition CURL_POLL_INOUT :: int where "CURL_POLL_INOUT = 3"

definition CURL_CSELECT_IN :: "32 word" where "CURL_CSELECT_IN = 1"

definition CURL_CSELECT_OUT :: "32 word" where "CURL_CSELECT_OUT = 2"

definition CURL_SOCKET_TIMEOUT :: int where "CURL_SOCKET_TIMEOUT = - 1"

definition CURLE_ABORTED_BY_CALLBACK :: int where "CURLE_ABORTED_BY_CALLBACK = 42"

datatype curl_option =
    CURLOPT_URL string
  | CURLOPT_POST int
  | CURLOPT_POSTFIELDS string
  | CURLOPT_POSTFIELDSIZE int
  | CURLOPT_HTTPHEADER "string list"
  | CURLOPT_WRITEFUNCTION
  | CURLOPT_WRITEDATA nat
  | CURLOPT_PRIVATE nat
  | CURLOPT_TIMEOUT_MS int
  | CURLOPT_NOSIGNAL int

text \<open>A call from libcurl: a socket or the timer has changed, or a part of the response of the request at an
  address has arrived; the last argument says whether \<^verbatim>\<open>realloc\<close> succeeds.\<close>

datatype curl_call =
    Curl_Socket int int
  | Curl_Timer int
  | Curl_Write nat string "64 word" "64 word" bool

record 'e curl_msg =
  cm_done :: bool
  cm_easy :: 'e
  cm_result :: int

record ('m, 'e) libcurl =
  curl_easy_init :: "'m \<Rightarrow> 'e option \<times> 'm"
  curl_slist_append :: "string list \<Rightarrow> string \<Rightarrow> string list option"
  curl_easy_setopt :: "'m \<Rightarrow> 'e \<Rightarrow> curl_option \<Rightarrow> bool \<times> 'm"
  curl_multi_add_handle :: "'m \<Rightarrow> 'e \<Rightarrow> bool \<times> curl_call list \<times> 'm"
  curl_multi_remove_handle :: "'m \<Rightarrow> 'e \<Rightarrow> curl_call list \<times> 'm"
  curl_easy_cleanup :: "'m \<Rightarrow> 'e \<Rightarrow> 'm"
  curl_multi_cleanup :: "'m \<Rightarrow> curl_call list"
  curl_multi_socket_action :: "'m \<Rightarrow> int \<Rightarrow> 32 word \<Rightarrow> bool \<times> int \<times> curl_call list \<times> 'm"
  curl_multi_info_read :: "'m \<Rightarrow> 'e curl_msg option \<times> 'm"
  curl_info_private :: "'m \<Rightarrow> 'e \<Rightarrow> nat"
  curl_info_response_code :: "'m \<Rightarrow> 'e \<Rightarrow> int"

subsection \<open>Calls from libcurl\<close>

text \<open>The number of bytes taken, and the request after it.\<close>

definition receive_body ::
    "string \<Rightarrow> 64 word \<Rightarrow> 64 word \<Rightarrow> bool \<Rightarrow> ('e, 'u) alpha_http_request_t \<Rightarrow> 64 word \<times> ('e, 'u) alpha_http_request_t" where
  "receive_body data sz nmemb realloc_ok request =
     (let bytes = sz * nmemb
      in if bytes > ALPHA_HTTP_MAX_RESPONSE_BYTES - rq_response_size request
            \<or> bytes > (- 1) - rq_response_size request - 1 then (0, request)
         else if \<not> realloc_ok then (0, request)
         else (bytes, request\<lparr>
            rq_response := Some (take (unat (rq_response_size request)) (case rq_response request of None \<Rightarrow> [] | Some r \<Rightarrow> r)
                                 @ take (unat bytes) data),
            rq_response_size := rq_response_size request + bytes\<rparr>))"

definition curl_socket_changed :: "int \<Rightarrow> int \<Rightarrow> 'u http_event" where
  "curl_socket_changed socket_fd action =
     Http_Watch socket_fd (if action \<ge> CURL_POLL_IN \<and> action \<le> CURL_POLL_INOUT then word_of_int action else ALPHA_HTTP_WATCH_NONE)"

definition curl_timer_changed :: "int \<Rightarrow> 'u http_event" where
  "curl_timer_changed timeout_ms = Http_Timer timeout_ms"

fun curl_callback ::
    "curl_call \<Rightarrow> ('m, 'e, 'u) alpha_http_multi_t \<Rightarrow> 'u http_event list \<times> ('m, 'e, 'u) alpha_http_multi_t" where
  "curl_callback (Curl_Socket fd action) client = ([curl_socket_changed fd action], client)"
| "curl_callback (Curl_Timer timeout_ms) client = ([curl_timer_changed timeout_ms], client)"
| "curl_callback (Curl_Write addr data sz nmemb realloc_ok) client =
     ([], client\<lparr>hm_requests :=
        map (\<lambda>r. if rq_addr r = addr then snd (receive_body data sz nmemb realloc_ok r) else r) (hm_requests client)\<rparr>)"

fun curl_callbacks ::
    "curl_call list \<Rightarrow> ('m, 'e, 'u) alpha_http_multi_t \<Rightarrow> 'u http_event list \<times> ('m, 'e, 'u) alpha_http_multi_t" where
  "curl_callbacks [] client = ([], client)"
| "curl_callbacks (c # cs) client =
     (case curl_callback c client of (evs, client) \<Rightarrow>
        case curl_callbacks cs client of (evs', client) \<Rightarrow> (evs @ evs', client))"

subsection \<open>Completion\<close>

definition remove_handle ::
    "('m, 'e) libcurl \<Rightarrow> 'e \<Rightarrow> ('m, 'e, 'u) alpha_http_multi_t \<Rightarrow> 'u http_event list \<times> ('m, 'e, 'u) alpha_http_multi_t" where
  "remove_handle lib e client =
     (case curl_multi_remove_handle lib (hm_multi client) e of (calls, m) \<Rightarrow> curl_callbacks calls (client\<lparr>hm_multi := m\<rparr>))"

text \<open>Unlinking walks along the list to the address; it is the first match that goes. Without a match only the memory of
  the request is released.\<close>

fun unlink :: "nat \<Rightarrow> ('e, 'u) alpha_http_request_t list \<Rightarrow> ('e, 'u) alpha_http_request_t list option" where
  "unlink addr [] = None"
| "unlink addr (r # rs) = (if rq_addr r = addr then Some rs else map_option (\<lambda>rs'. r # rs') (unlink addr rs))"

definition unlink_and_free ::
    "('m, 'e) libcurl \<Rightarrow> nat \<Rightarrow> 'e option \<Rightarrow> ('m, 'e, 'u) alpha_http_multi_t \<Rightarrow> ('m, 'e, 'u) alpha_http_multi_t" where
  "unlink_and_free lib addr easy client =
     (let client = (case unlink addr (hm_requests client) of
                      None \<Rightarrow> client
                    | Some rs \<Rightarrow> client\<lparr>hm_requests := rs, hm_pending := hm_pending client - 1\<rparr>)
      in case easy of None \<Rightarrow> client
         | Some e \<Rightarrow> client\<lparr>hm_multi := curl_easy_cleanup lib (hm_multi client) e\<rparr>)"

definition result_of_request :: "('e, 'u) alpha_http_request_t \<Rightarrow> int \<Rightarrow> int \<Rightarrow> 'u alpha_http_result_t" where
  "result_of_request r status transport =
     \<lparr>hr_kind = rq_kind r, hr_status_code = status, hr_transport_code = transport,
      hr_response_body = (case rq_response r of None \<Rightarrow> [] | Some b \<Rightarrow> b), hr_response_size = rq_response_size r,
      hr_user_data = rq_user_data r\<rparr>"

text \<open>\<open>None\<close> when the loop does not end, or when a message belongs to no request: the code then follows a
  dangling pointer.\<close>

partial_function (option) drain_completions ::
    "('m, 'e) libcurl \<Rightarrow> ('m, 'e, 'u) alpha_http_multi_t \<Rightarrow> ('u http_event list \<times> ('m, 'e, 'u) alpha_http_multi_t) option" where
  "drain_completions lib client =
     (case curl_multi_info_read lib (hm_multi client) of (message, m) \<Rightarrow>
        let client = client\<lparr>hm_multi := m\<rparr>
        in case message of
             None \<Rightarrow> Some ([], client)
           | Some msg \<Rightarrow>
               if \<not> cm_done msg then drain_completions lib client
               else
                 let addr = curl_info_private lib m (cm_easy msg);
                     status = curl_info_response_code lib m (cm_easy msg)
                 in case remove_handle lib (cm_easy msg) client of (evs, client) \<Rightarrow>
                      case find (\<lambda>r. rq_addr r = addr) (hm_requests client) of
                        None \<Rightarrow> None
                      | Some request \<Rightarrow>
                          Option.bind (drain_completions lib (unlink_and_free lib addr (Some (rq_easy request)) client))
                            (\<lambda>(evs', c). Some (evs @ Http_Complete (result_of_request request status (cm_result msg)) # evs', c)))"

declare drain_completions.simps [code]

subsection \<open>The client\<close>

definition alpha_http_global_init :: "bool \<Rightarrow> alpha_err_t" where
  "alpha_http_global_init curl_global_init_ok = (if curl_global_init_ok then ALPHA_OK else ALPHA_ERR_HTTP)"

definition alpha_http_global_cleanup :: "('g \<Rightarrow> 'g) \<Rightarrow> 'g \<Rightarrow> 'g" where
  "alpha_http_global_cleanup curl_global_cleanup process = curl_global_cleanup process"

text \<open>Whether the three callbacks and the output are given, whether \<^verbatim>\<open>calloc\<close> succeeds, the new multi handle, and whether each
  of the four options can be set.\<close>

definition alpha_http_multi_create ::
    "bool \<Rightarrow> bool \<Rightarrow> bool \<Rightarrow> bool \<Rightarrow> bool \<Rightarrow> 'm option \<Rightarrow> bool list \<Rightarrow> alpha_err_t \<times> ('m, 'e, 'u) alpha_http_multi_t option" where
  "alpha_http_multi_create watch_fn timer_fn complete_fn out calloc_ok curl_multi_init setopts_ok =
     (if \<not> watch_fn \<or> \<not> timer_fn \<or> \<not> complete_fn \<or> \<not> out then (ALPHA_ERR_INVALID_ARG, None)
      else if \<not> calloc_ok then (ALPHA_ERR_IO, None)
      else case curl_multi_init of
        None \<Rightarrow> (ALPHA_ERR_HTTP, None)
      | Some m \<Rightarrow>
          if \<not> list_all (\<lambda>ok. ok) (take 4 setopts_ok) then (ALPHA_ERR_HTTP, None)
          else (ALPHA_OK, Some \<lparr>hm_multi = m, hm_requests = [], hm_pending = 0\<rparr>))"

text \<open>Removing a handle changes the head of the list at most in its response, so the request that is released is the
  head.\<close>

lemma curl_callbacks_addresses: "map rq_addr (hm_requests (snd (curl_callbacks calls c))) = map rq_addr (hm_requests c)"
proof (induction calls arbitrary: c)
  case (Cons call calls)
  have "map rq_addr (hm_requests (snd (curl_callback call c))) = map rq_addr (hm_requests c)"
    by (cases call) (auto simp: receive_body_def Let_def)
  then show ?case using Cons.IH [of "snd (curl_callback call c)"] by (simp add: case_prod_beta)
qed simp

lemma remove_handle_addresses: "map rq_addr (hm_requests (snd (remove_handle lib e c))) = map rq_addr (hm_requests c)"
  by (simp add: remove_handle_def curl_callbacks_addresses case_prod_beta)

lemma length_unlink_head:
  "map rq_addr rs = rq_addr r # addrs \<Longrightarrow> unlink (rq_addr r) rs = Some (tl rs)"
  by (cases rs) auto

lemma destroy_decreases:
  assumes "hm_requests client = request # rs" "(evs, c) = remove_handle lib e client"
  shows "length (hm_requests (unlink_and_free lib (rq_addr request) easy c)) < length (hm_requests client)"
proof -
  have m: "map rq_addr (hm_requests c) = rq_addr request # map rq_addr rs"
    using remove_handle_addresses [of lib e client] assms by (metis list.simps(9) snd_conv)
  then have "length (hm_requests c) = Suc (length rs)" by (metis length_Cons length_map)
  then show ?thesis
    using assms(1) length_unlink_head [OF m] by (cases easy) (simp_all add: unlink_and_free_def Let_def)
qed

function destroy_loop ::
    "('m, 'e) libcurl \<Rightarrow> ('m, 'e, 'u) alpha_http_multi_t \<Rightarrow> 'u http_event list \<times> ('m, 'e, 'u) alpha_http_multi_t" where
  "destroy_loop lib client =
     (case hm_requests client of
        [] \<Rightarrow> ([], client)
      | request # _ \<Rightarrow>
          (case remove_handle lib (rq_easy request) client of (evs, client) \<Rightarrow>
             case destroy_loop lib (unlink_and_free lib (rq_addr request) (Some (rq_easy request)) client) of (evs', client) \<Rightarrow>
               (evs @ evs', client)))"
  by pat_completeness auto
termination
  by (relation "measure (\<lambda>(lib, c). length (hm_requests c))", simp, unfold in_measure prod.case) (rule destroy_decreases)

declare destroy_loop.simps [simp del]

definition alpha_http_multi_destroy :: "('m, 'e) libcurl \<Rightarrow> ('m, 'e, 'u) alpha_http_multi_t option \<Rightarrow> 'u http_event list" where
  "alpha_http_multi_destroy lib client =
     (case client of None \<Rightarrow> []
      | Some c \<Rightarrow> (case destroy_loop lib c of (evs, c) \<Rightarrow> evs @ fst (curl_callbacks (curl_multi_cleanup lib (hm_multi c)) c)))"

definition alpha_http_pending :: "('m, 'e, 'u) alpha_http_multi_t option \<Rightarrow> nat" where
  "alpha_http_pending client = (case client of Some c \<Rightarrow> hm_pending c | None \<Rightarrow> 0)"

fun setopts :: "('m, 'e) libcurl \<Rightarrow> 'm \<Rightarrow> 'e \<Rightarrow> curl_option list \<Rightarrow> bool \<times> 'm" where
  "setopts lib m e [] = (True, m)"
| "setopts lib m e (opt # opts) =
     (case curl_easy_setopt lib m e opt of (ok, m) \<Rightarrow> if ok then setopts lib m e opts else (False, m))"

definition post_options :: "'u alpha_http_post_t \<Rightarrow> nat \<Rightarrow> string \<Rightarrow> string list \<Rightarrow> curl_option list" where
  "post_options post addr body headers =
     [CURLOPT_URL (the (po_url post)), CURLOPT_POST 1, CURLOPT_POSTFIELDS body, CURLOPT_POSTFIELDSIZE (int (length body)),
      CURLOPT_HTTPHEADER headers, CURLOPT_WRITEFUNCTION, CURLOPT_WRITEDATA addr, CURLOPT_PRIVATE addr,
      CURLOPT_TIMEOUT_MS (po_timeout_ms post), CURLOPT_NOSIGNAL 1]"

definition post_headers :: "('m, 'e) libcurl \<Rightarrow> 'u alpha_http_post_t \<Rightarrow> string list option" where
  "post_headers lib post =
     (case curl_slist_append lib [] ''Content-Type: application/json'' of
        None \<Rightarrow> None
      | Some hs \<Rightarrow> (case po_authorization_header post of None \<Rightarrow> Some hs | Some a \<Rightarrow> curl_slist_append lib hs a))"

definition valid_post :: "'u alpha_http_post_t \<Rightarrow> bool" where
  "valid_post post \<longleftrightarrow> po_url post \<noteq> None \<and> po_url post \<noteq> Some [] \<and> po_json_body post \<noteq> None \<and> po_timeout_ms post > 0
     \<and> po_kind post \<in> {ALPHA_HTTP_POST_GENERIC_JSON, ALPHA_HTTP_POST_TELEGRAM, ALPHA_HTTP_POST_LLM}"

text \<open>\<open>calloc\<close> is the address of the new request, or none, and \<open>body_ok\<close> the outcome of the allocation of the body.\<close>

definition alpha_http_post_json ::
    "('m, 'e) libcurl \<Rightarrow> nat option \<Rightarrow> bool \<Rightarrow> ('m, 'e, 'u) alpha_http_multi_t option \<Rightarrow> 'u alpha_http_post_t option \<Rightarrow>
     alpha_err_t \<times> 'u http_event list \<times> ('m, 'e, 'u) alpha_http_multi_t option" where
  "alpha_http_post_json lib calloc body_ok client post =
     (case (client, post) of
        (Some c, Some p) \<Rightarrow>
          if \<not> valid_post p then (ALPHA_ERR_INVALID_ARG, [], client)
          else if hm_pending c \<ge> ALPHA_HTTP_MAX_PENDING then (ALPHA_ERR_RANGE, [], client)
          else case calloc of
            None \<Rightarrow> (ALPHA_ERR_IO, [], client)
          | Some addr \<Rightarrow>
              (case curl_easy_init lib (hm_multi c) of (easy, m) \<Rightarrow>
                 let c = c\<lparr>hm_multi := m\<rparr>; body = the (po_json_body p)
                 in case easy of
                      None \<Rightarrow> (ALPHA_ERR_IO, [], Some (unlink_and_free lib addr None c))
                    | Some e \<Rightarrow>
                        if \<not> body_ok then (ALPHA_ERR_IO, [], Some (unlink_and_free lib addr easy c))
                        else case post_headers lib p of
                          None \<Rightarrow> (ALPHA_ERR_IO, [], Some (unlink_and_free lib addr easy c))
                        | Some headers \<Rightarrow>
                            (case setopts lib m e (post_options p addr body headers) of (ok, m) \<Rightarrow>
                               let c = c\<lparr>hm_multi := m\<rparr>
                               in if \<not> ok then (ALPHA_ERR_HTTP, [], Some (unlink_and_free lib addr easy c))
                                  else
                                    let request = \<lparr>rq_addr = addr, rq_easy = e, rq_headers = headers, rq_body = body,
                                          rq_response = None, rq_response_size = 0, rq_kind = po_kind p, rq_user_data = po_user_data p\<rparr>;
                                        c = c\<lparr>hm_requests := request # hm_requests c, hm_pending := hm_pending c + 1\<rparr>
                                    in case curl_multi_add_handle lib m e of (ok, calls, m) \<Rightarrow>
                                         (case curl_callbacks calls (c\<lparr>hm_multi := m\<rparr>) of (evs, c) \<Rightarrow>
                                            if \<not> ok then (ALPHA_ERR_HTTP, evs, Some (unlink_and_free lib addr easy c))
                                            else (ALPHA_OK, evs, Some c))))
      | _ \<Rightarrow> (ALPHA_ERR_INVALID_ARG, [], client))"

definition alpha_http_cancel ::
    "('m, 'e) libcurl \<Rightarrow> ('m, 'e, 'u) alpha_http_multi_t option \<Rightarrow> 'u option \<Rightarrow>
     alpha_err_t \<times> 'u http_event list \<times> ('m, 'e, 'u) alpha_http_multi_t option" where
  "alpha_http_cancel lib client user_data =
     (case client of None \<Rightarrow> (ALPHA_ERR_INVALID_ARG, [], client)
      | Some c \<Rightarrow>
        if user_data = None then (ALPHA_ERR_INVALID_ARG, [], client)
        else case find (\<lambda>r. rq_user_data r = user_data) (hm_requests c) of
          None \<Rightarrow> (ALPHA_ERR_RANGE, [], client)
        | Some found \<Rightarrow>
            (case remove_handle lib (rq_easy found) c of (evs, c) \<Rightarrow>
               let request = (case find (\<lambda>r. rq_addr r = rq_addr found) (hm_requests c) of Some r \<Rightarrow> r | None \<Rightarrow> found)
               in (ALPHA_OK, evs @ [Http_Complete (result_of_request request 0 CURLE_ABORTED_BY_CALLBACK)],
                   Some (unlink_and_free lib (rq_addr request) (Some (rq_easy request)) c))))"

text \<open>What both actions do with libcurl; the second component is what \<^verbatim>\<open>running_out\<close> receives.\<close>

definition run_action ::
    "('m, 'e) libcurl \<Rightarrow> ('m, 'e, 'u) alpha_http_multi_t \<Rightarrow> int \<Rightarrow> 32 word \<Rightarrow>
     (alpha_err_t \<times> int \<times> 'u http_event list \<times> ('m, 'e, 'u) alpha_http_multi_t option) option" where
  "run_action lib c fd events =
     (case curl_multi_socket_action lib (hm_multi c) fd events of (ok, running, calls, m) \<Rightarrow>
        case curl_callbacks calls (c\<lparr>hm_multi := m\<rparr>) of (evs, c) \<Rightarrow>
          if \<not> ok then Some (ALPHA_ERR_HTTP, running, evs, Some c)
          else map_option (\<lambda>(evs', c). (ALPHA_OK, running, evs @ evs', Some c)) (drain_completions lib c))"

definition alpha_http_multi_socket_action ::
    "('m, 'e) libcurl \<Rightarrow> ('m, 'e, 'u) alpha_http_multi_t option \<Rightarrow> int \<Rightarrow> 32 word \<Rightarrow> bool \<Rightarrow>
     (alpha_err_t \<times> int \<times> 'u http_event list \<times> ('m, 'e, 'u) alpha_http_multi_t option) option" where
  "alpha_http_multi_socket_action lib client socket_fd watch running_out =
     (let ready = watch; allowed = ALPHA_HTTP_WATCH_READ OR ALPHA_HTTP_WATCH_WRITE
      in case client of None \<Rightarrow> Some (ALPHA_ERR_INVALID_ARG, 0, [], None)
         | Some c \<Rightarrow>
           if socket_fd < 0 \<or> \<not> running_out \<or> ready AND NOT allowed \<noteq> 0 then Some (ALPHA_ERR_INVALID_ARG, 0, [], client)
           else
             let events = 0;
                 events = (if ready AND ALPHA_HTTP_WATCH_READ \<noteq> 0 then events OR CURL_CSELECT_IN else events);
                 events = (if ready AND ALPHA_HTTP_WATCH_WRITE \<noteq> 0 then events OR CURL_CSELECT_OUT else events)
             in run_action lib c socket_fd events)"

definition alpha_http_multi_timeout_action ::
    "('m, 'e) libcurl \<Rightarrow> ('m, 'e, 'u) alpha_http_multi_t option \<Rightarrow> bool \<Rightarrow>
     (alpha_err_t \<times> int \<times> 'u http_event list \<times> ('m, 'e, 'u) alpha_http_multi_t option) option" where
  "alpha_http_multi_timeout_action lib client running_out =
     (case client of None \<Rightarrow> Some (ALPHA_ERR_INVALID_ARG, 0, [], None)
      | Some c \<Rightarrow>
        if \<not> running_out then Some (ALPHA_ERR_INVALID_ARG, 0, [], client)
        else run_action lib c CURL_SOCKET_TIMEOUT 0)"

section \<open>The response buffer\<close>

definition body_of :: "('e, 'u) alpha_http_request_t \<Rightarrow> string" where
  "body_of r = (case rq_response r of None \<Rightarrow> [] | Some b \<Rightarrow> b)"

definition request_ok :: "('e, 'u) alpha_http_request_t \<Rightarrow> bool" where
  "request_ok r \<longleftrightarrow> rq_response_size r \<le> ALPHA_HTTP_MAX_RESPONSE_BYTES \<and> length (body_of r) \<le> unat (rq_response_size r)"

lemma unat_max_response: "unat ALPHA_HTTP_MAX_RESPONSE_BYTES = 1048576"
  by (simp add: ALPHA_HTTP_MAX_RESPONSE_BYTES_def)

lemma unat_response_size: "request_ok r \<Longrightarrow> unat (rq_response_size r) \<le> 1048576"
  by (simp add: request_ok_def word_le_nat_alt unat_max_response)

text \<open>The test of the code, read on numbers: neither subtraction wraps around.\<close>

lemma receive_test:
  assumes "request_ok r"
  shows "bytes > ALPHA_HTTP_MAX_RESPONSE_BYTES - rq_response_size r \<or> bytes > (- 1) - rq_response_size r - 1
    \<longleftrightarrow> 1048576 < unat (rq_response_size r) + unat bytes"
proof -
  let ?s = "rq_response_size r"
  have s: "unat ?s \<le> 1048576" using assms by (rule unat_response_size)
  have a: "unat (ALPHA_HTTP_MAX_RESPONSE_BYTES - ?s) = 1048576 - unat ?s"
    using assms by (simp add: unat_sub request_ok_def unat_max_response)
  have n2: "unat (- 2 :: 64 word) = 2 ^ 64 - 2" by simp
  have "?s \<le> - 2" using s by (simp add: word_le_nat_alt n2)
  then have "unat (- 2 - ?s) = 2 ^ 64 - 2 - unat ?s" by (simp only: unat_sub n2)
  moreover have "(- 1) - ?s - 1 = - 2 - ?s" by simp
  ultimately have b: "unat ((- 1) - ?s - 1) = 2 ^ 64 - 2 - unat ?s" by (simp only:)
  have p: "(2 :: nat) ^ 64 = 18446744073709551616" by simp
  show ?thesis using s unfolding word_less_nat_alt a b p by linarith
qed

lemma unat_word_add_small: "unat (a :: 64 word) + unat b \<le> 1048576 \<Longrightarrow> unat (a + b) = unat a + unat b"
  by (rule unat_add_lem [THEN iffD1]) simp

lemma receive_body_ok:
  assumes "request_ok r" "receive_body data sz nmemb realloc_ok r = (taken, r')"
  shows "request_ok r' \<and> rq_addr r' = rq_addr r \<and> rq_easy r' = rq_easy r \<and> rq_kind r' = rq_kind r \<and> rq_user_data r' = rq_user_data r"
proof (cases "1048576 < unat (rq_response_size r) + unat (sz * nmemb) \<or> \<not> realloc_ok")
  case True
  then show ?thesis using assms receive_test [OF assms(1), of "sz * nmemb"] by (auto simp: receive_body_def Let_def)
next
  case False
  let ?b = "sz * nmemb"
  have r': "r' = r\<lparr>rq_response := Some (take (unat (rq_response_size r)) (body_of r) @ take (unat ?b) data), rq_response_size := rq_response_size r + ?b\<rparr>"
    using False assms receive_test [OF assms(1), of ?b] by (auto simp: receive_body_def Let_def body_of_def)
  have u: "unat (rq_response_size r + ?b) = unat (rq_response_size r) + unat ?b" using False by (intro unat_word_add_small) simp
  have "length (body_of r') \<le> unat (rq_response_size r) + unat ?b" by (simp add: r' body_of_def)
  then show ?thesis using False u by (simp add: r' request_ok_def word_le_nat_alt unat_max_response body_of_def)
qed

section \<open>Requests and completions\<close>

definition tag :: "('e, 'u) alpha_http_request_t \<Rightarrow> alpha_http_post_kind_t \<times> 'u option" where
  "tag r = (rq_kind r, rq_user_data r)"

fun completions :: "'u http_event list \<Rightarrow> (alpha_http_post_kind_t \<times> 'u option) list" where
  "completions [] = []"
| "completions (Http_Complete r # evs) = (hr_kind r, hr_user_data r) # completions evs"
| "completions (ev # evs) = completions evs"

definition small_results :: "'u http_event list \<Rightarrow> bool" where
  "small_results evs \<longleftrightarrow> (\<forall>r. Http_Complete r \<in> set evs \<longrightarrow> length (hr_response_body r) \<le> 1048576)"

definition http_inv :: "('m, 'e, 'u) alpha_http_multi_t \<Rightarrow> bool" where
  "http_inv c \<longleftrightarrow> hm_pending c = length (hm_requests c) \<and> hm_pending c \<le> ALPHA_HTTP_MAX_PENDING
     \<and> distinct (map rq_addr (hm_requests c)) \<and> (\<forall>r\<in>set (hm_requests c). request_ok r)"

lemma completions_append [simp]: "completions (a @ b) = completions a @ completions b"
  by (induction a rule: completions.induct) simp_all

lemma small_results_simps [simp]:
  "small_results []" "small_results (a @ b) \<longleftrightarrow> small_results a \<and> small_results b"
  by (auto simp: small_results_def)

text \<open>What a step of the client does to the requests: it completes some, and accepts some.\<close>

definition http_step ::
    "('m, 'e, 'u) alpha_http_multi_t \<Rightarrow> (alpha_http_post_kind_t \<times> 'u option) list \<Rightarrow> 'u http_event list \<Rightarrow> ('m, 'e, 'u) alpha_http_multi_t \<Rightarrow> bool" where
  "http_step c acc evs c' \<longleftrightarrow> http_inv c' \<and> small_results evs
     \<and> mset (map tag (hm_requests c)) + mset acc = mset (completions evs) + mset (map tag (hm_requests c'))"

lemma http_step_trans:
  assumes "http_step c acc evs c'" "http_step c' acc' evs' c''"
  shows "http_step c (acc @ acc') (evs @ evs') c''"
proof -
  let ?t = "\<lambda>c. mset (map tag (hm_requests c))"
  have "?t c + mset (acc @ acc') = (?t c + mset acc) + mset acc'" by (simp only: mset_append add.assoc)
  also have "\<dots> = mset (completions evs) + (?t c' + mset acc')" using assms(1) by (simp only: http_step_def add.assoc)
  also have "\<dots> = mset (completions (evs @ evs')) + ?t c''"
    using assms(2) by (simp only: http_step_def add.assoc completions_append mset_append)
  finally show ?thesis using assms by (simp add: http_step_def)
qed

lemma http_step_refl: "http_inv c \<Longrightarrow> http_step c [] [] c"
  by (simp add: http_step_def)

lemma http_inv_multi [simp]: "http_inv (c\<lparr>hm_multi := m\<rparr>) = http_inv c"
  by (simp add: http_inv_def)

lemma http_step_multi [simp]: "http_step (c\<lparr>hm_multi := m\<rparr>) acc evs c' = http_step c acc evs c'"
  by (simp add: http_step_def)

definition same_requests :: "('m, 'e, 'u) alpha_http_multi_t \<Rightarrow> ('m, 'e, 'u) alpha_http_multi_t \<Rightarrow> bool" where
  "same_requests c c' \<longleftrightarrow> map rq_addr (hm_requests c') = map rq_addr (hm_requests c)
     \<and> map rq_easy (hm_requests c') = map rq_easy (hm_requests c) \<and> map tag (hm_requests c') = map tag (hm_requests c)"

lemma same_requests_multi [simp]: "same_requests (c\<lparr>hm_multi := m\<rparr>) c' = same_requests c c'"
  by (simp add: same_requests_def)

lemma curl_callback_step:
  assumes "http_inv c" "curl_callback call c = (evs, c')"
  shows "http_step c [] evs c' \<and> same_requests c c'"
proof (cases call)
  case (Curl_Write addr data sz nmemb realloc_ok)
  define f where "f = (\<lambda>r :: ('b, 'c) alpha_http_request_t. if rq_addr r = addr then snd (receive_body data sz nmemb realloc_ok r) else r)"
  have f: "request_ok (f r) \<and> rq_addr (f r) = rq_addr r \<and> rq_easy (f r) = rq_easy r \<and> tag (f r) = tag r" if "r \<in> set (hm_requests c)" for r
    using that assms(1) receive_body_ok [of r data sz nmemb realloc_ok]
    by (cases "receive_body data sz nmemb realloc_ok r") (auto simp: f_def http_inv_def tag_def)
  have m: "map rq_addr (map f (hm_requests c)) = map rq_addr (hm_requests c)" "map rq_easy (map f (hm_requests c)) = map rq_easy (hm_requests c)"
    "map tag (map f (hm_requests c)) = map tag (hm_requests c)" using f by simp_all
  have c': "evs = []" "c' = c\<lparr>hm_requests := map f (hm_requests c)\<rparr>" using assms(2) Curl_Write by (auto simp: f_def)
  have "distinct (map rq_addr (hm_requests c'))" using assms(1) m(1) by (simp del: map_map add: c'(2) http_inv_def)
  then have "http_inv c'" using assms(1) f by (simp add: http_inv_def c'(2))
  then show ?thesis using m c' unfolding http_step_def same_requests_def by (simp del: map_map)
qed (use assms in \<open>auto simp: same_requests_def http_step_def small_results_def curl_socket_changed_def curl_timer_changed_def\<close>)

lemma curl_callbacks_step:
  "http_inv c \<Longrightarrow> curl_callbacks calls c = (evs, c') \<Longrightarrow>
   http_step c [] evs c' \<and> same_requests c c'"
proof (induction calls arbitrary: c evs)
  case (Cons call calls)
  obtain e1 c1 e2 where d: "curl_callback call c = (e1, c1)" "curl_callbacks calls c1 = (e2, c')" "evs = e1 @ e2"
    using Cons.prems(2) by (auto split: prod.splits)
  note a = curl_callback_step [OF Cons.prems(1) d(1)]
  have "http_inv c1" using a by (simp add: http_step_def)
  from Cons.IH [OF this d(2)] show ?case using a d(3) http_step_trans [of c "[]" e1 c1 "[]" e2 c'] by (simp add: same_requests_def)
qed (simp add: http_step_refl same_requests_def)

lemma remove_handle_step:
  assumes "http_inv c" "remove_handle lib e c = (evs, c')"
  shows "http_step c [] evs c' \<and> same_requests c c'"
proof -
  obtain calls m where m: "curl_multi_remove_handle lib (hm_multi c) e = (calls, m)" by (cases "curl_multi_remove_handle lib (hm_multi c) e")
  then show ?thesis using curl_callbacks_step [of "c\<lparr>hm_multi := m\<rparr>" calls evs c'] assms by (simp add: remove_handle_def)
qed

lemma unlink_member:
  "distinct (map rq_addr rs) \<Longrightarrow> r \<in> set rs \<Longrightarrow> \<exists>rs'. unlink (rq_addr r) rs = Some rs' \<and> mset rs = add_mset r (mset rs')
     \<and> set rs' \<subseteq> set rs \<and> distinct (map rq_addr rs')"
proof (induction rs)
  case (Cons x xs)
  show ?case
  proof (cases "x = r")
    case False
    then have "r \<in> set xs" "rq_addr x \<noteq> rq_addr r" using Cons.prems by auto
    with Cons.IH Cons.prems(1) obtain rs' where rs': "unlink (rq_addr r) xs = Some rs'" "mset xs = add_mset r (mset rs')"
      "set rs' \<subseteq> set xs" "distinct (map rq_addr rs')" by auto
    then show ?thesis using Cons.prems(1) \<open>rq_addr x \<noteq> rq_addr r\<close> by auto
  qed (use Cons.prems in auto)
qed simp

lemma unlink_absent: "addr \<notin> rq_addr ` set rs \<Longrightarrow> unlink addr rs = None"
  by (induction rs) auto

lemma unlink_and_free_absent:
  "addr \<notin> rq_addr ` set (hm_requests c) \<Longrightarrow> \<exists>m. unlink_and_free lib addr easy c = c\<lparr>hm_multi := m\<rparr>"
  by (cases easy; cases c) (auto simp: unlink_and_free_def unlink_absent)

lemma unlink_and_free_member:
  assumes "http_inv c" "r \<in> set (hm_requests c)"
  shows "http_inv (unlink_and_free lib (rq_addr r) easy c)
    \<and> mset (hm_requests c) = add_mset r (mset (hm_requests (unlink_and_free lib (rq_addr r) easy c)))"
proof -
  obtain rs' where rs': "unlink (rq_addr r) (hm_requests c) = Some rs'" "mset (hm_requests c) = add_mset r (mset rs')"
    "set rs' \<subseteq> set (hm_requests c)" "distinct (map rq_addr rs')" using unlink_member [of "hm_requests c" r] assms by (auto simp: http_inv_def)
  have "length (hm_requests c) = Suc (length rs')" using rs'(2) by (metis size_mset size_add_mset)
  then show ?thesis using assms(1) rs' by (cases easy) (auto simp: unlink_and_free_def http_inv_def)
qed

text \<open>One request is completed with its own result and forgotten.\<close>

lemma complete_step:
  assumes "http_inv c" "r \<in> set (hm_requests c)"
  shows "http_step c [] [Http_Complete (result_of_request r status transport)] (unlink_and_free lib (rq_addr r) easy c)"
proof -
  let ?c = "unlink_and_free lib (rq_addr r) easy c"
  have u: "http_inv ?c" "mset (hm_requests c) = add_mset r (mset (hm_requests ?c))" using unlink_and_free_member [OF assms] by auto
  have t: "image_mset tag (mset (hm_requests c)) = add_mset (tag r) (image_mset tag (mset (hm_requests ?c)))" by (simp add: u(2))
  have "request_ok r" using assms by (simp add: http_inv_def)
  then have "length (body_of r) \<le> 1048576" using unat_response_size [of r] by (simp add: request_ok_def)
  then show ?thesis using u(1) t by (simp add: http_step_def small_results_def result_of_request_def tag_def body_of_def)
qed

lemma find_address:
  "find (\<lambda>r. rq_addr r = addr) rs = Some r \<Longrightarrow> r \<in> set rs \<and> rq_addr r = addr"
  by (auto simp: find_Some_iff)

lemma drain_completions_step:
  fixes c :: "('m, 'e, 'u) alpha_http_multi_t"
  assumes "drain_completions lib c = Some (evs, c')" "http_inv c"
  shows "http_step c [] evs c'"
proof -
  define P where "P = (\<lambda>(lib :: ('m, 'e) libcurl) (c :: ('m, 'e, 'u) alpha_http_multi_t) (y :: 'u http_event list \<times> ('m, 'e, 'u) alpha_http_multi_t).
    http_inv c \<longrightarrow> http_step c [] (fst y) (snd y))"
  have "P lib c (evs, c')"
  proof (rule drain_completions.raw_induct [OF _ assms(1)], unfold P_def, intro impI)
    fix drain :: "('m, 'e) libcurl \<Rightarrow> ('m, 'e, 'u) alpha_http_multi_t \<Rightarrow> _" and lib c and y :: "'u http_event list \<times> ('m, 'e, 'u) alpha_http_multi_t"
    assume IH: "\<And>lib c y. drain lib c = Some y \<Longrightarrow> http_inv c \<longrightarrow> http_step c [] (fst y) (snd y)" and inv: "http_inv c"
      and y: "(case curl_multi_info_read lib (hm_multi c) of (message, m) \<Rightarrow>
        let client = c\<lparr>hm_multi := m\<rparr>
        in case message of
             None \<Rightarrow> Some ([], client)
           | Some msg \<Rightarrow>
               if \<not> cm_done msg then drain lib client
               else
                 let addr = curl_info_private lib m (cm_easy msg);
                     status = curl_info_response_code lib m (cm_easy msg)
                 in case remove_handle lib (cm_easy msg) client of (evs, client) \<Rightarrow>
                      case find (\<lambda>r. rq_addr r = addr) (hm_requests client) of
                        None \<Rightarrow> None
                      | Some request \<Rightarrow>
                          Option.bind (drain lib (unlink_and_free lib addr (Some (rq_easy request)) client))
                            (\<lambda>(evs', c). Some (evs @ Http_Complete (result_of_request request status (cm_result msg)) # evs', c))) = Some y"
    obtain message m where r: "curl_multi_info_read lib (hm_multi c) = (message, m)" by fastforce
    show "http_step c [] (fst y) (snd y)"
    proof (cases "\<exists>msg. message = Some msg \<and> cm_done msg")
      case True
      then obtain msg where msg: "message = Some msg" "cm_done msg" by blast
      let ?addr = "curl_info_private lib m (cm_easy msg)" and ?status = "curl_info_response_code lib m (cm_easy msg)"
      obtain e1 c1 where h: "remove_handle lib (cm_easy msg) (c\<lparr>hm_multi := m\<rparr>) = (e1, c1)" by fastforce
      have s1: "http_step c [] e1 c1" using remove_handle_step [OF _ h] inv by simp
      obtain q where q: "find (\<lambda>r. rq_addr r = ?addr) (hm_requests c1) = Some q"
        using y msg h by (cases "find (\<lambda>r. rq_addr r = ?addr) (hm_requests c1)") (simp_all add: r Let_def)
      define c2 where "c2 = unlink_and_free lib ?addr (Some (rq_easy q)) c1"
      obtain e3 c3 where d: "drain lib c2 = Some (e3, c3)" "y = (e1 @ [Http_Complete (result_of_request q ?status (cm_result msg))] @ e3, c3)"
        using y msg h q by (cases "drain lib c2") (auto simp: r Let_def c2_def)
      have s2: "http_step c1 [] [Http_Complete (result_of_request q ?status (cm_result msg))] c2"
        using complete_step [of c1 q] s1 find_address [OF q] by (auto simp: http_step_def c2_def)
      then have "http_step c2 [] e3 c3" using IH [OF d(1)] by (simp add: http_step_def)
      from http_step_trans [OF s1 http_step_trans [OF s2 this]] show ?thesis by (simp add: d(2))
    next
      case False
      then show ?thesis using y inv IH [of lib "c\<lparr>hm_multi := m\<rparr>" y]
        by (cases message) (auto simp: r Let_def http_step_def)
    qed
  qed
  then show ?thesis using assms(2) by (simp add: P_def)
qed

section \<open>The operations\<close>

lemma alpha_http_cancel_step:
  assumes "http_inv c" "alpha_http_cancel lib (Some c) u = (err, evs, Some c')"
  shows "http_step c [] evs c'"
proof (cases "u = None \<or> find (\<lambda>r. rq_user_data r = u) (hm_requests c) = None")
  case True
  then show ?thesis using assms by (auto simp: alpha_http_cancel_def http_step_refl split: if_splits)
next
  case False
  then obtain q where q: "find (\<lambda>r. rq_user_data r = u) (hm_requests c) = Some q" by blast
  obtain e1 c1 where h: "remove_handle lib (rq_easy q) c = (e1, c1)" by fastforce
  note s1 = remove_handle_step [OF assms(1) h]
  have "q \<in> set (hm_requests c)" using q by (auto simp: find_Some_iff)
  then have "rq_addr q \<in> set (map rq_addr (hm_requests c))" by simp
  then have "rq_addr q \<in> set (map rq_addr (hm_requests c1))" using s1 unfolding same_requests_def by metis
  then obtain q' where q': "find (\<lambda>r. rq_addr r = rq_addr q) (hm_requests c1) = Some q'"
    by (cases "find (\<lambda>r. rq_addr r = rq_addr q) (hm_requests c1)") (auto simp: find_None_iff)
  note m = find_address [OF q']
  have s2: "http_step c1 [] [Http_Complete (result_of_request q' 0 CURLE_ABORTED_BY_CALLBACK)] c'"
    using assms(2) False q h q' m complete_step [of c1 q'] s1 by (auto simp: alpha_http_cancel_def http_step_def)
  moreover have "evs = e1 @ [Http_Complete (result_of_request q' 0 CURLE_ABORTED_BY_CALLBACK)]"
    using assms(2) False q h q' by (auto simp: alpha_http_cancel_def)
  ultimately show ?thesis using http_step_trans [of c "[]" e1 c1 "[]"] s1 by simp
qed

lemma run_action_step:
  assumes "http_inv c" "run_action lib c fd events = Some (err, running, evs, Some c')"
  shows "http_step c [] evs c'"
proof -
  obtain ok r calls m where a: "curl_multi_socket_action lib (hm_multi c) fd events = (ok, r, calls, m)" using prod_cases4 .
  obtain e1 c1 where b: "curl_callbacks calls (c\<lparr>hm_multi := m\<rparr>) = (e1, c1)" by fastforce
  have s1: "http_step c [] e1 c1" using curl_callbacks_step [OF _ b] assms(1) by simp
  then have i1: "http_inv c1" by (simp add: http_step_def)
  show ?thesis
  proof (cases ok)
    case True
    then obtain e2 where "drain_completions lib c1 = Some (e2, c')" "evs = e1 @ e2" using assms(2) a b by (auto simp: run_action_def)
    then show ?thesis using http_step_trans [OF s1 drain_completions_step [OF _ i1]] by simp
  qed (use assms(2) a b s1 in \<open>auto simp: run_action_def\<close>)
qed

lemma alpha_http_multi_socket_action_step:
  "http_inv c \<Longrightarrow> alpha_http_multi_socket_action lib (Some c) fd w out = Some (err, running, evs, Some c') \<Longrightarrow> http_step c [] evs c'"
  by (auto simp: alpha_http_multi_socket_action_def Let_def http_step_refl intro: run_action_step split: if_splits)

lemma alpha_http_multi_timeout_action_step:
  "http_inv c \<Longrightarrow> alpha_http_multi_timeout_action lib (Some c) out = Some (err, running, evs, Some c') \<Longrightarrow> http_step c [] evs c'"
  by (auto simp: alpha_http_multi_timeout_action_def http_step_refl intro: run_action_step split: if_splits)

text \<open>A request that is added and then taken back leaves nothing behind.\<close>

lemma add_request_step:
  assumes "http_inv c" "hm_pending c < ALPHA_HTTP_MAX_PENDING" "rq_addr r \<notin> rq_addr ` set (hm_requests c)" "request_ok r"
    and "curl_callbacks calls (c\<lparr>hm_requests := r # hm_requests c, hm_pending := hm_pending c + 1, hm_multi := m\<rparr>) = (evs, c')"
  shows "http_step c [tag r] evs c'" and "http_step c [] evs (unlink_and_free lib (rq_addr r) easy c')"
proof -
  let ?c = "c\<lparr>hm_requests := r # hm_requests c, hm_pending := hm_pending c + 1, hm_multi := m\<rparr>"
  have i: "http_inv ?c" using assms(1-4) by (auto simp: http_inv_def)
  then have "http_step c [tag r] [] ?c" by (simp add: http_step_def)
  moreover note s = curl_callbacks_step [OF i assms(5)]
  ultimately show s2: "http_step c [tag r] evs c'" using http_step_trans [of c "[tag r]" "[]" ?c "[]" evs c'] by simp
  have m: "map rq_addr (hm_requests c') = rq_addr r # map rq_addr (hm_requests c)" "map tag (hm_requests c') = tag r # map tag (hm_requests c)"
    using s by (simp_all add: same_requests_def)
  then obtain r' rs where c': "hm_requests c' = r' # rs" "rq_addr r' = rq_addr r" "tag r' = tag r" by auto
  have "http_inv c'" using s2 by (simp add: http_step_def)
  then have u: "http_inv (unlink_and_free lib (rq_addr r') easy c')"
    "mset (hm_requests c') = add_mset r' (mset (hm_requests (unlink_and_free lib (rq_addr r') easy c')))"
    using unlink_and_free_member [of c' r' lib easy] c'(1) by auto
  have "image_mset tag (mset (hm_requests c')) = add_mset (tag r) (image_mset tag (mset (hm_requests (unlink_and_free lib (rq_addr r') easy c'))))"
    by (simp add: u(2) c'(3))
  then show "http_step c [] evs (unlink_and_free lib (rq_addr r) easy c')" using s2 u(1) by (simp add: http_step_def c'(2))
qed

definition fresh_address :: "nat option \<Rightarrow> ('m, 'e, 'u) alpha_http_multi_t \<Rightarrow> bool" where
  "fresh_address calloc c \<longleftrightarrow> (case calloc of None \<Rightarrow> True | Some addr \<Rightarrow> list_all (\<lambda>r. rq_addr r \<noteq> addr) (hm_requests c))"

definition accepted :: "alpha_err_t \<Rightarrow> 'u alpha_http_post_t \<Rightarrow> (alpha_http_post_kind_t \<times> 'u option) list" where
  "accepted err p = (if err = ALPHA_OK then [(po_kind p, po_user_data p)] else [])"

lemma http_step_unlink_absent:
  "http_inv c \<Longrightarrow> addr \<notin> rq_addr ` set (hm_requests c) \<Longrightarrow> http_step c [] [] (unlink_and_free lib addr easy (c\<lparr>hm_multi := m\<rparr>))"
  using unlink_and_free_absent [of addr "c\<lparr>hm_multi := m\<rparr>" lib easy] by (auto simp: http_step_def)

lemma request_ok_new: "rq_response r = None \<Longrightarrow> rq_response_size r = 0 \<Longrightarrow> request_ok r"
  by (simp add: request_ok_def body_of_def)

lemma alpha_http_post_json_step:
  assumes inv: "http_inv c" and fresh: "fresh_address calloc c"
    and post: "alpha_http_post_json lib calloc body_ok (Some c) (Some p) = (err, evs, Some c')"
  shows "http_step c (accepted err p) evs c'"
proof (cases "valid_post p \<and> hm_pending c < ALPHA_HTTP_MAX_PENDING \<and> calloc \<noteq> None")
  case False
  then show ?thesis using inv post
    by (auto simp: alpha_http_post_json_def http_step_refl accepted_def split: if_splits option.splits)
next
  case True
  then obtain addr where addr: "calloc = Some addr" by blast
  then have new: "addr \<notin> rq_addr ` set (hm_requests c)" using fresh by (auto simp: fresh_address_def list_all_iff)
  obtain easy m where e: "curl_easy_init lib (hm_multi c) = (easy, m)" by fastforce
  note unl = http_step_unlink_absent [OF inv new]
  show ?thesis
  proof (cases "easy = None \<or> \<not> body_ok \<or> post_headers lib p = None")
    case bad: True
    then show ?thesis using True post addr e unl
      by (auto simp: alpha_http_post_json_def Let_def accepted_def split: option.splits)
  next
    case False
    then obtain e' hs where g: "easy = Some e'" "post_headers lib p = Some hs" body_ok by auto
    obtain ok m' where o: "setopts lib m e' (post_options p addr (the (po_json_body p)) hs) = (ok, m')" by fastforce
    define r where "r = \<lparr>rq_addr = addr, rq_easy = e', rq_headers = hs, rq_body = the (po_json_body p),
      rq_response = None, rq_response_size = 0, rq_kind = po_kind p, rq_user_data = po_user_data p\<rparr>"
    obtain ok' calls m'' where a: "curl_multi_add_handle lib m' e' = (ok', calls, m'')" using prod_cases3 .
    obtain e1 c1 where b: "curl_callbacks calls (c\<lparr>hm_requests := r # hm_requests c, hm_pending := hm_pending c + 1, hm_multi := m''\<rparr>) = (e1, c1)"
      by fastforce
    have r: "rq_addr r = addr" "request_ok r" "tag r = (po_kind p, po_user_data p)"
      by (simp_all add: r_def request_ok_new tag_def)
    note s = add_request_step [OF inv _ _ r(2) b, unfolded r(1) r(3)]
    have q: "(err, evs, Some c') = (if \<not> ok then (ALPHA_ERR_HTTP, [], Some (unlink_and_free lib addr easy (c\<lparr>hm_multi := m'\<rparr>)))
       else if \<not> ok' then (ALPHA_ERR_HTTP, e1, Some (unlink_and_free lib addr easy c1)) else (ALPHA_OK, e1, Some c1))"
      unfolding post [symmetric] using True addr e g o a b
      by (simp add: alpha_http_post_json_def Let_def r_def [symmetric])
    show ?thesis using q True new s(1) s(2) [of lib easy] unl by (auto simp: accepted_def split: if_splits)
  qed
qed

text \<open>The runs of a client: any sequence of its operations, where \<^verbatim>\<open>calloc\<close> never returns the address of a live request.
  The arguments are the requests that were accepted so far and the events so far.\<close>

inductive http_run ::
    "('m, 'e) libcurl \<Rightarrow> ('m, 'e, 'u) alpha_http_multi_t \<Rightarrow> (alpha_http_post_kind_t \<times> 'u option) list \<Rightarrow> 'u http_event list \<Rightarrow>
     ('m, 'e, 'u) alpha_http_multi_t \<Rightarrow> bool" for lib c0 where
  start: "http_run lib c0 [] [] c0"
| post: "http_run lib c0 acc evs c \<Longrightarrow> fresh_address calloc c \<Longrightarrow>
    alpha_http_post_json lib calloc body_ok (Some c) (Some p) = (err, evs', Some c') \<Longrightarrow>
    http_run lib c0 (acc @ accepted err p) (evs @ evs') c'"
| cancel: "http_run lib c0 acc evs c \<Longrightarrow> alpha_http_cancel lib (Some c) u = (err, evs', Some c') \<Longrightarrow> http_run lib c0 acc (evs @ evs') c'"
| socket: "http_run lib c0 acc evs c \<Longrightarrow> alpha_http_multi_socket_action lib (Some c) fd w out = Some (err, running, evs', Some c') \<Longrightarrow>
    http_run lib c0 acc (evs @ evs') c'"
| timeout: "http_run lib c0 acc evs c \<Longrightarrow> alpha_http_multi_timeout_action lib (Some c) out = Some (err, running, evs', Some c') \<Longrightarrow>
    http_run lib c0 acc (evs @ evs') c'"

lemma http_run_step: "http_run lib c0 acc evs c \<Longrightarrow> http_inv c0 \<Longrightarrow> http_step c0 acc evs c"
proof (induction rule: http_run.induct)
  case (post acc evs c calloc body_ok p err evs' c')
  then have i: "http_step c0 acc evs c" by simp
  then show ?case using http_step_trans [OF i alpha_http_post_json_step [OF _ post(2,3)]] by (simp add: http_step_def)
next
  case (cancel acc evs c u err evs' c')
  then have i: "http_step c0 acc evs c" by simp
  then show ?case using http_step_trans [OF i alpha_http_cancel_step [OF _ cancel(2)]] by (simp add: http_step_def)
next
  case (socket acc evs c fd w out err running evs' c')
  then have i: "http_step c0 acc evs c" by simp
  then show ?case using http_step_trans [OF i alpha_http_multi_socket_action_step [OF _ socket(2)]] by (simp add: http_step_def)
next
  case (timeout acc evs c out err running evs' c')
  then have i: "http_step c0 acc evs c" by simp
  then show ?case using http_step_trans [OF i alpha_http_multi_timeout_action_step [OF _ timeout(2)]] by (simp add: http_step_def)
qed (rule http_step_refl)

section \<open>Finished transfers are reported\<close>

text \<open>The documented behaviour of the message queue of libcurl: reading takes the messages one by one, removing a handle
  drops what is queued for it, and neither removing nor releasing a handle touches the others.\<close>

definition libcurl_documented :: "('m, 'e) libcurl \<Rightarrow> ('m \<Rightarrow> 'e curl_msg list) \<Rightarrow> bool" where
  "libcurl_documented lib queue \<longleftrightarrow>
     (\<forall>m. case queue m of
            [] \<Rightarrow> fst (curl_multi_info_read lib m) = None
          | msg # q \<Rightarrow> fst (curl_multi_info_read lib m) = Some msg \<and> queue (snd (curl_multi_info_read lib m)) = q)
     \<and> (\<forall>m e. curl_info_private lib (snd (curl_multi_info_read lib m)) e = curl_info_private lib m e)
     \<and> (\<forall>m e. queue (snd (curl_multi_remove_handle lib m e)) = filter (\<lambda>msg. cm_easy msg \<noteq> e) (queue m))
     \<and> (\<forall>m e e'. e' \<noteq> e \<longrightarrow> curl_info_private lib (snd (curl_multi_remove_handle lib m e)) e' = curl_info_private lib m e')
     \<and> (\<forall>m e. queue (curl_easy_cleanup lib m e) = queue m)
     \<and> (\<forall>m e e'. e' \<noteq> e \<longrightarrow> curl_info_private lib (curl_easy_cleanup lib m e) e' = curl_info_private lib m e')"

definition directory :: "('m, 'e, 'u) alpha_http_multi_t \<Rightarrow> (nat \<times> 'e \<times> alpha_http_post_kind_t \<times> 'u option) list" where
  "directory c = map (\<lambda>r. (rq_addr r, rq_easy r, tag r)) (hm_requests c)"

text \<open>Every message is about another handle, and a finished one about the handle of the request that its private pointer
  names.\<close>

definition answered :: "('m, 'e) libcurl \<Rightarrow> ('m, 'e, 'u) alpha_http_multi_t \<Rightarrow> 'e curl_msg list \<Rightarrow> bool" where
  "answered lib c msgs \<longleftrightarrow> distinct (map cm_easy msgs)
     \<and> list_all (\<lambda>msg. cm_done msg \<longrightarrow> map_option fst (map_of (directory c) (curl_info_private lib (hm_multi c) (cm_easy msg))) = Some (cm_easy msg)) msgs"

definition reports :: "('m, 'e) libcurl \<Rightarrow> ('m, 'e, 'u) alpha_http_multi_t \<Rightarrow> 'e curl_msg list \<Rightarrow> (alpha_http_post_kind_t \<times> 'u option) list" where
  "reports lib c msgs =
     map (\<lambda>msg. snd (the (map_of (directory c) (curl_info_private lib (hm_multi c) (cm_easy msg))))) (filter cm_done msgs)"

lemma directory_same: "same_requests c c' \<Longrightarrow> directory c' = directory c"
proof -
  assume s: "same_requests c c'"
  have z: "directory x = zip (map rq_addr (hm_requests x)) (zip (map rq_easy (hm_requests x)) (map tag (hm_requests x)))" for x :: "('m, 'e, 'u) alpha_http_multi_t"
    unfolding directory_def by (induction "hm_requests x") (simp_all add: zip_map_map zip_same_conv_map)
  show ?thesis using s unfolding z same_requests_def by simp
qed

lemma map_of_unlink:
  "unlink addr rs = Some rs' \<Longrightarrow> a \<noteq> addr \<Longrightarrow>
   map_of (map (\<lambda>r. (rq_addr r, rq_easy r, tag r)) rs') a = map_of (map (\<lambda>r. (rq_addr r, rq_easy r, tag r)) rs) a"
  by (induction rs arbitrary: rs') (auto split: if_splits)

lemma find_directory:
  "map_of (map (\<lambda>r. (rq_addr r, rq_easy r, tag r)) rs) a = Some (e, t) \<Longrightarrow>
   \<exists>r. find (\<lambda>r. rq_addr r = a) rs = Some r \<and> rq_easy r = e \<and> tag r = t"
  by (induction rs) (auto split: if_splits)

lemma curl_callbacks_quiet: "hm_multi (snd (curl_callbacks calls c)) = hm_multi c \<and> completions (fst (curl_callbacks calls c)) = []"
proof (induction calls arbitrary: c)
  case (Cons call calls)
  have "hm_multi (snd (curl_callback call c)) = hm_multi c \<and> completions (fst (curl_callback call c)) = []"
    by (cases call) (simp_all add: curl_socket_changed_def curl_timer_changed_def)
  then show ?case using Cons.IH [of "snd (curl_callback call c)"] by (simp add: case_prod_beta)
qed simp

text \<open>What a report leaves of the queue and of the requests.\<close>

lemma report_step:
  fixes c :: "('m, 'e, 'u) alpha_http_multi_t"
  assumes lib: "libcurl_documented lib queue" and inv: "http_inv c" and ans: "answered lib c (msg # msgs)" and dn: "cm_done msg"
    and q: "queue (hm_multi c) = msgs"
    and rem: "remove_handle lib (cm_easy msg) c = (evs, c1)"
    and r: "find (\<lambda>r. rq_addr r = curl_info_private lib (hm_multi c) (cm_easy msg)) (hm_requests c1) = Some r" "rq_easy r = cm_easy msg"
  defines "c2 \<equiv> unlink_and_free lib (rq_addr r) (Some (rq_easy r)) c1"
  shows "queue (hm_multi c2) = msgs" "answered lib c2 msgs" "reports lib c2 msgs = reports lib c msgs" "http_inv c2" "completions evs = []"
proof -
  let ?e = "cm_easy msg" and ?p = "curl_info_private lib"
  have a: "rq_addr r = ?p (hm_multi c) ?e" "r \<in> set (hm_requests c1)" using find_address [OF r(1)] by auto
  have same: "directory c1 = directory c" and i1: "http_inv c1" using remove_handle_step [OF inv rem] directory_same by (auto simp: http_step_def)
  have m1: "hm_multi c1 = snd (curl_multi_remove_handle lib (hm_multi c) ?e)" and none: "completions evs = []"
    using rem curl_callbacks_quiet [of "fst (curl_multi_remove_handle lib (hm_multi c) ?e)" "c\<lparr>hm_multi := snd (curl_multi_remove_handle lib (hm_multi c) ?e)\<rparr>"]
    by (auto simp: remove_handle_def case_prod_beta)
  have m2: "hm_multi c2 = curl_easy_cleanup lib (hm_multi c1) ?e" by (simp add: c2_def unlink_and_free_def Let_def r(2) split: option.split)
  have p: "?p (hm_multi c2) e' = ?p (hm_multi c) e'" if "e' \<noteq> ?e" for e' using lib that by (simp add: m1 m2 libcurl_documented_def)
  have ne: "?e \<noteq> cm_easy x" if "x \<in> set msgs" for x using ans that by (auto simp: answered_def)
  have "queue (hm_multi c2) = filter (\<lambda>x. cm_easy x \<noteq> ?e) msgs" using lib q by (simp add: m1 m2 libcurl_documented_def)
  then show "queue (hm_multi c2) = msgs" using ne by (simp add: filter_id_conv) metis
  obtain rs' where "unlink (rq_addr r) (hm_requests c1) = Some rs'" using unlink_member [OF _ a(2)] i1 by (auto simp: http_inv_def)
  then have d: "map_of (directory c2) b = map_of (directory c) b" if "b \<noteq> rq_addr r" for b
    using map_of_unlink that same by (fastforce simp: c2_def unlink_and_free_def directory_def)
  have l: "map_of (directory c2) (?p (hm_multi c2) (cm_easy x)) = map_of (directory c) (?p (hm_multi c) (cm_easy x))"
    if "x \<in> set msgs" "cm_done x" for x
  proof -
    have "map_option fst (map_of (directory c) (?p (hm_multi c) (cm_easy x))) = Some (cm_easy x)"
      "map_option fst (map_of (directory c) (?p (hm_multi c) ?e)) = Some ?e"
      using ans dn that by (auto simp: answered_def list_all_iff)
    then have "?p (hm_multi c) (cm_easy x) \<noteq> rq_addr r" using ne [OF that(1)] a(1) by auto
    then show ?thesis using d p ne [OF that(1)] by metis
  qed
  show "answered lib c2 msgs" using ans l by (auto simp: answered_def list_all_iff)
  show "reports lib c2 msgs = reports lib c msgs" using l by (auto simp: reports_def)
  show "http_inv c2" using unlink_and_free_member [OF i1 a(2)] by (simp add: c2_def)
  show "completions evs = []" by (rule none)
qed

lemma drain_completions_reports:
  assumes lib: "libcurl_documented lib queue"
  shows "http_inv c \<Longrightarrow> answered lib c msgs \<Longrightarrow> queue (hm_multi c) = msgs \<Longrightarrow>
    \<exists>evs c'. drain_completions lib c = Some (evs, c') \<and> completions evs = reports lib c msgs"
proof (induction msgs arbitrary: c)
  case Nil
  then have "fst (curl_multi_info_read lib (hm_multi c)) = None" using lib by (auto simp: libcurl_documented_def split: list.splits dest: spec [of _ "hm_multi c"])
  then show ?case by (subst drain_completions.simps) (auto simp: case_prod_beta Let_def reports_def)
next
  case (Cons msg msgs)
  define m c0 where "m = snd (curl_multi_info_read lib (hm_multi c))" and "c0 = c\<lparr>hm_multi := m\<rparr>"
  have rd: "curl_multi_info_read lib (hm_multi c) = (Some msg, m)" "queue (hm_multi c0) = msgs"
    using lib Cons.prems(3) by (auto simp: libcurl_documented_def m_def c0_def split: list.splits dest: spec [of _ "hm_multi c"] intro: prod_eqI)
  have p: "curl_info_private lib m e = curl_info_private lib (hm_multi c) e" for e using lib by (simp add: libcurl_documented_def m_def)
  have dir: "directory c0 = directory c" by (simp add: directory_def c0_def)
  have c0: "http_inv c0" "answered lib c0 (msg # msgs)" "reports lib c0 = reports lib c"
    using Cons.prems p dir by (auto simp: c0_def answered_def reports_def fun_eq_iff)
  show ?case
  proof (cases "cm_done msg")
    case False
    moreover have "answered lib c0 msgs" using c0(2) by (simp add: answered_def)
    ultimately show ?thesis using Cons.IH [OF c0(1) _ rd(2)] c0(3)
      by (subst drain_completions.simps) (auto simp: rd(1) c0_def [symmetric] reports_def)
  next
    case True
    let ?a = "curl_info_private lib m (cm_easy msg)"
    obtain e1 c1 where h: "remove_handle lib (cm_easy msg) c0 = (e1, c1)" by fastforce
    have d1: "directory c1 = directory c0" using remove_handle_step [OF c0(1) h] directory_same by auto
    obtain t where t: "map_of (directory c0) ?a = Some (cm_easy msg, t)" using c0(2) True by (auto simp: answered_def c0_def)
    then obtain r where r: "find (\<lambda>r. rq_addr r = ?a) (hm_requests c1) = Some r" "rq_easy r = cm_easy msg" "tag r = t"
      using find_directory [of "hm_requests c1" ?a "cm_easy msg" t] d1 by (auto simp: directory_def)
    have hm: "hm_multi c0 = m" by (simp add: c0_def)
    note s = report_step [OF lib c0(1) c0(2) True rd(2) h r(1) [folded hm] r(2)]
    define c2 where "c2 = unlink_and_free lib (rq_addr r) (Some (rq_easy r)) c1"
    obtain e3 c3 where d: "drain_completions lib c2 = Some (e3, c3)" "completions e3 = reports lib c0 msgs"
      using Cons.IH [OF s(4) s(2) s(1)] s(3) unfolding c2_def by metis
    have "drain_completions lib c = Some (e1 @ Http_Complete (result_of_request r (curl_info_response_code lib m (cm_easy msg)) (cm_result msg)) # e3, c3)"
      using True h r(1) d(1) find_address [OF r(1)] by (subst drain_completions.simps) (auto simp: rd(1) Let_def c0_def c2_def)
    moreover have "reports lib c (msg # msgs) = t # reports lib c0 msgs" unfolding c0(3) using True t dir p by (simp add: reports_def)
    ultimately show ?thesis using s(5) d(2) r(3) by (auto simp: result_of_request_def tag_def)
  qed
qed

lemma answered_same: "directory c' = directory c \<Longrightarrow> hm_multi c' = hm_multi c \<Longrightarrow> answered lib c' = answered lib c \<and> reports lib c' = reports lib c"
  by (simp add: answered_def reports_def fun_eq_iff)

lemma run_action_reports:
  assumes "libcurl_documented lib queue" "http_inv c" "curl_multi_socket_action lib (hm_multi c) fd events = (True, running, calls, m)"
    and "answered lib (c\<lparr>hm_multi := m\<rparr>) (queue m)"
  shows "\<exists>evs c'. run_action lib c fd events = Some (ALPHA_OK, running, evs, Some c') \<and> completions evs = reports lib (c\<lparr>hm_multi := m\<rparr>) (queue m)"
proof -
  let ?c = "c\<lparr>hm_multi := m\<rparr>"
  obtain e1 c1 where b: "curl_callbacks calls ?c = (e1, c1)" by fastforce
  have s: "http_step ?c [] e1 c1" "same_requests ?c c1" using curl_callbacks_step [OF _ b] assms(2) by auto
  have m1: "hm_multi c1 = m" "completions e1 = []" using curl_callbacks_quiet [of calls ?c] b by auto
  have same: "answered lib c1 = answered lib ?c" "reports lib c1 = reports lib ?c"
    using answered_same [OF directory_same [OF s(2)]] m1(1) by simp_all
  have "http_inv c1" using s(1) by (simp add: http_step_def)
  then obtain e2 c2 where "drain_completions lib c1 = Some (e2, c2)" "completions e2 = reports lib ?c (queue m)"
    using drain_completions_reports [OF assms(1), of c1 "queue m"] assms(4) same m1(1) by auto
  then show ?thesis using assms(3) b m1(2) by (auto simp: run_action_def)
qed

text \<open>A part of the response is taken whole or not at all, and the code's test on wrapping numbers is the exact limit.\<close>

lemma receive_body_exact:
  assumes "request_ok r" "length (body_of r) = unat (rq_response_size r)" "unat sz * unat nmemb = length data" "length data < 2 ^ 64"
  shows "receive_body data sz nmemb realloc_ok r =
    (if length (body_of r) + length data \<le> 1048576 \<and> realloc_ok
     then (of_nat (length data), r\<lparr>rq_response := Some (body_of r @ data), rq_response_size := of_nat (length (body_of r) + length data)\<rparr>)
     else (0, r))"
proof -
  have b: "unat (sz * nmemb) = length data" using assms(3,4) unat_mult_lem [of sz nmemb] by simp
  then have w: "sz * nmemb = of_nat (length data)" by (metis unsigned_of_nat word_of_nat_eq_iff of_nat_unat ucast_id)
  have z: "rq_response_size r + sz * nmemb = of_nat (length (body_of r) + length data)" using assms(2) w by simp
  show ?thesis using receive_test [OF assms(1), of "sz * nmemb"] assms(2) b z
    by (auto simp: receive_body_def Let_def body_of_def w)
qed

section \<open>Examples\<close>

text \<open>A libcurl in memory: handles are numbers, the state is the next handle, the private pointers of the handles and the
  message queue. An action finishes every transfer, with the answer \<open>ok\<close>.\<close>

definition memory_curl :: "(nat \<times> (nat \<times> nat) list \<times> nat curl_msg list, nat) libcurl" where
  "memory_curl = \<lparr>
     curl_easy_init = (\<lambda>(n, p, q). (Some n, (n + 1, p, q))),
     curl_slist_append = (\<lambda>xs s. Some (xs @ [s])),
     curl_easy_setopt = (\<lambda>(n, p, q) e opt. (True, case opt of CURLOPT_PRIVATE a \<Rightarrow> (n, (e, a) # p, q) | _ \<Rightarrow> (n, p, q))),
     curl_multi_add_handle = (\<lambda>m e. (True, [Curl_Timer 0], m)),
     curl_multi_remove_handle = (\<lambda>(n, p, q) e. ([], (n, filter (\<lambda>x. fst x \<noteq> e) p, filter (\<lambda>msg. cm_easy msg \<noteq> e) q))),
     curl_easy_cleanup = (\<lambda>m e. m),
     curl_multi_cleanup = (\<lambda>m. []),
     curl_multi_socket_action = (\<lambda>(n, p, q) fd ev. (True, 0, map (\<lambda>(e, a). Curl_Write a ''ok'' 1 2 True) p,
       (n, p, q @ map (\<lambda>(e, a). \<lparr>cm_done = True, cm_easy = e, cm_result = 0\<rparr>) p))),
     curl_multi_info_read = (\<lambda>(n, p, q). case q of [] \<Rightarrow> (None, (n, p, [])) | msg # q \<Rightarrow> (Some msg, (n, p, q))),
     curl_info_private = (\<lambda>(n, p, q) e. case map_of p e of Some a \<Rightarrow> a | None \<Rightarrow> 0),
     curl_info_response_code = (\<lambda>m e. 200)\<rparr>"

definition example_http :: "(nat \<times> (nat \<times> nat) list \<times> nat curl_msg list, nat, nat) alpha_http_multi_t" where
  "example_http = \<lparr>hm_multi = (0, [], []), hm_requests = [], hm_pending = 0\<rparr>"

definition example_post :: "alpha_http_post_kind_t \<Rightarrow> nat \<Rightarrow> nat alpha_http_post_t" where
  "example_post k u = \<lparr>po_kind = k, po_url = Some ''http://x'', po_json_body = Some ''{}'', po_authorization_header = None,
     po_timeout_ms = 1000, po_user_data = Some u\<rparr>"

definition example_request :: "nat \<Rightarrow> nat \<Rightarrow> alpha_http_post_kind_t \<Rightarrow> nat \<Rightarrow> (nat, nat) alpha_http_request_t" where
  "example_request a e k u = \<lparr>rq_addr = a, rq_easy = e, rq_headers = [''Content-Type: application/json''], rq_body = ''{}'',
     rq_response = None, rq_response_size = 0, rq_kind = k, rq_user_data = Some u\<rparr>"

definition example_http_busy :: "(nat \<times> (nat \<times> nat) list \<times> nat curl_msg list, nat, nat) alpha_http_multi_t" where
  "example_http_busy = \<lparr>hm_multi = (2, [(1, 41), (0, 40)], []),
     hm_requests = [example_request 41 1 ALPHA_HTTP_POST_TELEGRAM 8, example_request 40 0 ALPHA_HTTP_POST_LLM 7], hm_pending = 2\<rparr>"

lemma memory_curl_documented: "libcurl_documented memory_curl (\<lambda>(n, p, q). q)"
proof -
  have "map_of (filter (\<lambda>x. fst x \<noteq> e) p) e' = map_of p e'" if "e' \<noteq> e" for e e' :: nat and p :: "(nat \<times> nat) list"
    using that by (induction p) auto
  then show ?thesis by (auto simp: libcurl_documented_def memory_curl_def split: list.splits)
qed

section \<open>Properties\<close>

text \<open>
  C7. No request of the HTTP client is lost or reported twice, and memory is bounded: after any sequence of posts,
  cancellations and actions on a new client, under any behaviour of libcurl, the requests that were accepted are exactly
  those whose completion was reported and those still pending; the counter is the number of pending requests and at most
  64; and no reported body is longer than one MiB.
\<close>

theorem http_conservation:
  assumes "alpha_http_multi_create w t f o_ok a mi opts = (ALPHA_OK, Some c0)" "http_run lib c0 acc evs c"
  shows "mset acc = mset (completions evs) + mset (map tag (hm_requests c))
    \<and> alpha_http_pending (Some c) = length (hm_requests c) \<and> alpha_http_pending (Some c) \<le> ALPHA_HTTP_MAX_PENDING
    \<and> small_results evs"
proof -
  have "hm_requests c0 = []" "hm_pending c0 = 0" using assms(1) by (auto simp: alpha_http_multi_create_def split: if_splits option.splits)
  then have "http_inv c0" by (simp add: http_inv_def)
  from http_run_step [OF assms(2) this] show ?thesis
    using \<open>hm_requests c0 = []\<close> by (simp add: http_step_def http_inv_def alpha_http_pending_def)
qed

lemma example_http_posts:
  "alpha_http_post_json memory_curl (Some 40) True (Some example_http) (Some (example_post ALPHA_HTTP_POST_LLM 7))
     = (ALPHA_OK, [Http_Timer 0], Some \<lparr>hm_multi = (1, [(0, 40)], []), hm_requests = [example_request 40 0 ALPHA_HTTP_POST_LLM 7], hm_pending = 1\<rparr>)"
  "alpha_http_post_json memory_curl (Some 41) True
     (Some \<lparr>hm_multi = (1, [(0, 40)], []), hm_requests = [example_request 40 0 ALPHA_HTTP_POST_LLM 7], hm_pending = 1\<rparr>)
     (Some (example_post ALPHA_HTTP_POST_TELEGRAM 8)) = (ALPHA_OK, [Http_Timer 0], Some example_http_busy)"
  by code_simp+

lemma example_http_run:
  "http_run memory_curl example_http [(ALPHA_HTTP_POST_LLM, Some 7), (ALPHA_HTTP_POST_TELEGRAM, Some 8)] [Http_Timer 0, Http_Timer 0] example_http_busy"
  using http_run.post [OF http_run.post [OF http_run.start _ example_http_posts(1)] _ example_http_posts(2)]
  by (simp add: accepted_def example_post_def fresh_address_def example_http_def example_request_def)

theorem http_conservation_witness:
  "mset [(ALPHA_HTTP_POST_LLM, Some 7), (ALPHA_HTTP_POST_TELEGRAM, Some 8)]
     = mset (completions [Http_Timer 0, Http_Timer 0 :: nat http_event]) + mset (map tag (hm_requests example_http_busy))
   \<and> alpha_http_pending (Some example_http_busy) = 2"
  using http_conservation [OF _ example_http_run, of True True True True True "Some (0, [], [])" "[True, True, True, True]"]
  by (simp add: alpha_http_multi_create_def example_http_def) (simp add: alpha_http_pending_def example_http_busy_def)

text \<open>
  C27. The HTTP client reports every finished transfer, and returns: when libcurl keeps its documented message queue, and
  each message is about the handle of a live request, an action on the client ends and reports the finished transfers one
  after another in the order of the queue, each with the kind and the user data of the request it belongs to.
\<close>

theorem http_action_reports:
  assumes "libcurl_documented lib queue" "http_inv c"
    and "curl_multi_socket_action lib (hm_multi c) CURL_SOCKET_TIMEOUT 0 = (True, running, calls, m)"
    and "answered lib (c\<lparr>hm_multi := m\<rparr>) (queue m)"
  shows "\<exists>evs c'. alpha_http_multi_timeout_action lib (Some c) True = Some (ALPHA_OK, running, evs, Some c')
    \<and> completions evs = reports lib (c\<lparr>hm_multi := m\<rparr>) (queue m)"
  using run_action_reports [OF assms] by (simp add: alpha_http_multi_timeout_action_def)

theorem http_action_reports_witness:
  "\<exists>evs c'. alpha_http_multi_timeout_action memory_curl (Some example_http_busy) True = Some (ALPHA_OK, 0, evs, Some c')
    \<and> completions evs = [(ALPHA_HTTP_POST_TELEGRAM, Some 8), (ALPHA_HTTP_POST_LLM, Some 7)]"
proof -
  let ?m = "(2, [(1, 41), (0, 40)], [\<lparr>cm_done = True, cm_easy = 1, cm_result = 0\<rparr>, \<lparr>cm_done = True, cm_easy = 0, cm_result = 0\<rparr>])"
  have i: "http_inv example_http_busy"
    by (simp add: http_inv_def example_http_busy_def example_request_def ALPHA_HTTP_MAX_PENDING_def request_ok_new)
  have s: "curl_multi_socket_action memory_curl (hm_multi example_http_busy) CURL_SOCKET_TIMEOUT 0
      = (True, 0, [Curl_Write 41 ''ok'' 1 2 True, Curl_Write 40 ''ok'' 1 2 True], ?m)"
    by (simp add: memory_curl_def example_http_busy_def)
  have a: "answered memory_curl (example_http_busy\<lparr>hm_multi := ?m\<rparr>) (case ?m of (n, p, q) \<Rightarrow> q)"
    "reports memory_curl (example_http_busy\<lparr>hm_multi := ?m\<rparr>) (case ?m of (n, p, q) \<Rightarrow> q) = [(ALPHA_HTTP_POST_TELEGRAM, Some 8), (ALPHA_HTTP_POST_LLM, Some 7)]"
    by (simp_all add: answered_def reports_def directory_def example_http_busy_def example_request_def memory_curl_def tag_def)
  show ?thesis using http_action_reports [OF memory_curl_documented i s a(1)] a(2) by simp
qed

end
