(* ===== verification/Lws_Runtime.thy ===== *)
theory Lws_Runtime
  imports Alpha_Prelude
begin

text \<open>
  The event loop (\<^verbatim>\<open>core/platform/event/lws_runtime.c\<close>): a bounded table of foreign descriptors on one
  libwebsockets context. libwebsockets is a parameter, a record of functions on the state of its context; the calls that
  it makes back into this code are part of what these functions return. A watch pointer is an index into the table, and
  the callbacks of the caller are emitted events.
\<close>

section \<open>The code\<close>

subsection \<open>Types\<close>

record ('w, 'f, 'x) alpha_lws_watch_t =
  wt_wsi :: "'w option"
  wt_ready_fn :: "'f option"
  wt_callback_ctx :: "'x option"
  wt_source_fd :: int
  wt_wants_write :: bool
  wt_active :: bool

record ('c, 'w, 'f, 'x) alpha_lws_runtime_t =
  rt_context :: 'c
  rt_watches :: "('w, 'f, 'x) alpha_lws_watch_t list"
  rt_capacity :: nat
  rt_count :: nat

text \<open>A call of a ready function with its context and its three flags, and a descriptor that is closed.\<close>

datatype ('f, 'x) lws_event =
    Lws_Ready "'f option" "'x option" bool bool bool
  | Lws_Close int

text \<open>What this code uses of libwebsockets. The opaque user data of a connection is the index of the watch that was given at
  its adoption. The scheduled callback is the only one that is not about a connection.\<close>

datatype lws_callback_reasons =
    LWS_CALLBACK_RAW_RX
  | LWS_CALLBACK_RAW_RX_FILE
  | LWS_CALLBACK_RAW_WRITEABLE
  | LWS_CALLBACK_RAW_WRITEABLE_FILE
  | LWS_CALLBACK_TIMER
  | LWS_CALLBACK_RAW_CLOSE
  | LWS_CALLBACK_RAW_CLOSE_FILE
  | LWS_CALLBACK_OTHER int

datatype lws_call =
    Lws_Callback "nat option" lws_callback_reasons
  | Lws_Wakeup

record ('c, 'w) libwebsockets =
  lws_create_vhost :: "'c \<Rightarrow> bool \<times> 'c"
  lws_wsi_close :: "'c \<Rightarrow> 'w \<Rightarrow> lws_call list \<times> 'c"
  lws_context_destroy :: "'c \<Rightarrow> lws_call list"
  lws_adopt_descriptor_vhost_via_info :: "'c \<Rightarrow> int \<Rightarrow> nat \<Rightarrow> 'w option \<times> lws_call list \<times> 'c"
  lws_callback_on_writable :: "'c \<Rightarrow> 'w \<Rightarrow> int \<times> 'c"
  lws_set_timer_usecs :: "'c \<Rightarrow> 'w \<Rightarrow> int \<Rightarrow> 'c"
  lws_sul_schedule :: "'c \<Rightarrow> int \<Rightarrow> 'c"
  lws_service :: "'c \<Rightarrow> int \<times> lws_call list \<times> 'c"

definition LWS_US_PER_MS :: int where "LWS_US_PER_MS = 1000"

definition LWS_SET_TIMER_USEC_CANCEL :: int where "LWS_SET_TIMER_USEC_CANCEL = - 1"

subsection \<open>Calls from libwebsockets\<close>

text \<open>\<^verbatim>\<open>NULL\<close>, and what is not a pointer into the table, is no watch.\<close>

definition get_watch :: "('c, 'w, 'f, 'x) alpha_lws_runtime_t \<Rightarrow> nat option \<Rightarrow> (nat \<times> ('w, 'f, 'x) alpha_lws_watch_t) option" where
  "get_watch rt watch =
     (case watch of None \<Rightarrow> None | Some i \<Rightarrow> if i < length (rt_watches rt) then Some (i, rt_watches rt ! i) else None)"

definition put_watch :: "nat \<Rightarrow> ('w, 'f, 'x) alpha_lws_watch_t \<Rightarrow> ('c, 'w, 'f, 'x) alpha_lws_runtime_t \<Rightarrow> ('c, 'w, 'f, 'x) alpha_lws_runtime_t" where
  "put_watch i w rt = rt\<lparr>rt_watches := (rt_watches rt)[i := w]\<rparr>"

definition foreign_fd_callback ::
    "nat option \<Rightarrow> lws_callback_reasons \<Rightarrow> ('c, 'w, 'f, 'x) alpha_lws_runtime_t \<Rightarrow>
     ('f, 'x) lws_event list \<times> ('c, 'w, 'f, 'x) alpha_lws_runtime_t" where
  "foreign_fd_callback opaque reason rt =
     (case get_watch rt opaque of
        None \<Rightarrow> ([], rt)
      | Some (i, watch) \<Rightarrow>
          (case reason of
             LWS_CALLBACK_RAW_RX \<Rightarrow> ([Lws_Ready (wt_ready_fn watch) (wt_callback_ctx watch) True False False], rt)
           | LWS_CALLBACK_RAW_RX_FILE \<Rightarrow> ([Lws_Ready (wt_ready_fn watch) (wt_callback_ctx watch) True False False], rt)
           | LWS_CALLBACK_RAW_WRITEABLE \<Rightarrow>
               (if wt_wants_write watch then [Lws_Ready (wt_ready_fn watch) (wt_callback_ctx watch) False True False] else [], rt)
           | LWS_CALLBACK_RAW_WRITEABLE_FILE \<Rightarrow>
               (if wt_wants_write watch then [Lws_Ready (wt_ready_fn watch) (wt_callback_ctx watch) False True False] else [], rt)
           | LWS_CALLBACK_TIMER \<Rightarrow> ([Lws_Ready (wt_ready_fn watch) (wt_callback_ctx watch) False False True], rt)
           | LWS_CALLBACK_RAW_CLOSE \<Rightarrow> ([], put_watch i (watch\<lparr>wt_wsi := None\<rparr>) rt)
           | LWS_CALLBACK_RAW_CLOSE_FILE \<Rightarrow> ([], put_watch i (watch\<lparr>wt_wsi := None\<rparr>) rt)
           | LWS_CALLBACK_OTHER n \<Rightarrow> ([], rt)))"

fun wakeup_loop :: "('w, 'f, 'x) alpha_lws_watch_t list \<Rightarrow> ('f, 'x) lws_event list" where
  "wakeup_loop [] = []"
| "wakeup_loop (watch # rest) =
     (if wt_active watch \<and> wt_wants_write watch
      then Lws_Ready (wt_ready_fn watch) (wt_callback_ctx watch) False True False # wakeup_loop rest
      else wakeup_loop rest)"

definition service_wakeup :: "('c, 'w, 'f, 'x) alpha_lws_runtime_t \<Rightarrow> ('f, 'x) lws_event list" where
  "service_wakeup rt = wakeup_loop (take (rt_capacity rt) (rt_watches rt))"

fun lws_calls ::
    "lws_call list \<Rightarrow> ('c, 'w, 'f, 'x) alpha_lws_runtime_t \<Rightarrow> ('f, 'x) lws_event list \<times> ('c, 'w, 'f, 'x) alpha_lws_runtime_t" where
  "lws_calls [] rt = ([], rt)"
| "lws_calls (Lws_Callback opaque reason # calls) rt =
     (case foreign_fd_callback opaque reason rt of (evs, rt) \<Rightarrow> case lws_calls calls rt of (evs', rt) \<Rightarrow> (evs @ evs', rt))"
| "lws_calls (Lws_Wakeup # calls) rt = (case lws_calls calls rt of (evs, rt') \<Rightarrow> (service_wakeup rt @ evs, rt'))"

subsection \<open>The runtime\<close>

text \<open>The close of a connection, with the calls it causes.\<close>

definition close_wsi ::
    "('c, 'w) libwebsockets \<Rightarrow> 'w \<Rightarrow> ('c, 'w, 'f, 'x) alpha_lws_runtime_t \<Rightarrow> ('f, 'x) lws_event list \<times> ('c, 'w, 'f, 'x) alpha_lws_runtime_t" where
  "close_wsi lib wsi rt = (case lws_wsi_close lib (rt_context rt) wsi of (calls, c) \<Rightarrow> lws_calls calls (rt\<lparr>rt_context := c\<rparr>))"

fun destroy_watches ::
    "('c, 'w) libwebsockets \<Rightarrow> nat \<Rightarrow> nat \<Rightarrow> ('c, 'w, 'f, 'x) alpha_lws_runtime_t \<Rightarrow>
     ('f, 'x) lws_event list \<times> ('c, 'w, 'f, 'x) alpha_lws_runtime_t" where
  "destroy_watches lib i 0 rt = ([], rt)"
| "destroy_watches lib i (Suc n) rt =
     (case Option.bind (get_watch rt (Some i)) (\<lambda>(_, w). wt_wsi w) of
        None \<Rightarrow> destroy_watches lib (i + 1) n rt
      | Some wsi \<Rightarrow>
          (case close_wsi lib wsi rt of (evs, rt) \<Rightarrow>
             case destroy_watches lib (i + 1) n rt of (evs', rt) \<Rightarrow> (evs @ evs', rt)))"

text \<open>A runtime that was created has a context.\<close>

definition alpha_lws_runtime_destroy ::
    "('c, 'w) libwebsockets \<Rightarrow> ('c, 'w, 'f, 'x) alpha_lws_runtime_t option \<Rightarrow> ('f, 'x) lws_event list" where
  "alpha_lws_runtime_destroy lib runtime =
     (case runtime of None \<Rightarrow> []
      | Some rt \<Rightarrow>
          (case destroy_watches lib 0 (rt_capacity rt) rt of (evs, rt) \<Rightarrow>
             evs @ fst (lws_calls (lws_context_destroy lib (rt_context rt)) rt)))"

definition empty_watch :: "('w, 'f, 'x) alpha_lws_watch_t" where
  "empty_watch = \<lparr>wt_wsi = None, wt_ready_fn = None, wt_callback_ctx = None, wt_source_fd = 0, wt_wants_write = False, wt_active = False\<rparr>"

text \<open>The two allocations and the new context are the outcomes of the calls.\<close>

definition alpha_lws_runtime_create ::
    "('c, 'w) libwebsockets \<Rightarrow> bool \<Rightarrow> bool \<Rightarrow> 'c option \<Rightarrow> nat \<Rightarrow> bool \<Rightarrow>
     alpha_err_t \<times> ('f, 'x) lws_event list \<times> ('c, 'w, 'f, 'x) alpha_lws_runtime_t option" where
  "alpha_lws_runtime_create lib calloc_ok watches_ok lws_create_context watch_capacity out =
     (if watch_capacity = 0 \<or> watch_capacity > 256 \<or> \<not> out then (ALPHA_ERR_INVALID_ARG, [], None)
      else if \<not> calloc_ok then (ALPHA_ERR_IO, [], None)
      else if \<not> watches_ok then (ALPHA_ERR_IO, [], None)
      else case lws_create_context of
        None \<Rightarrow> (ALPHA_ERR_IO, [], None)
      | Some c \<Rightarrow>
          (case lws_create_vhost lib c of (vhost, c) \<Rightarrow>
             let rt = \<lparr>rt_context = c, rt_watches = replicate watch_capacity empty_watch, rt_capacity = watch_capacity, rt_count = 0\<rparr>
             in if \<not> vhost then (ALPHA_ERR_IO, alpha_lws_runtime_destroy lib (Some rt), None)
                else (ALPHA_OK, [], Some rt)))"

fun find_free :: "nat \<Rightarrow> nat \<Rightarrow> ('w, 'f, 'x) alpha_lws_watch_t list \<Rightarrow> nat option" where
  "find_free i 0 ws = None"
| "find_free i (Suc n) [] = None"
| "find_free i (Suc n) (w # ws) = (if \<not> wt_active w then Some i else find_free (i + 1) n ws)"

text \<open>\<open>dup_fd\<close> is what \<^verbatim>\<open>dup\<close> returns. The result has the events, the handle of the new watch and the runtime after the call.\<close>

definition alpha_lws_watch_add ::
    "('c, 'w) libwebsockets \<Rightarrow> int \<Rightarrow> ('c, 'w, 'f, 'x) alpha_lws_runtime_t option \<Rightarrow> int \<Rightarrow> bool \<Rightarrow> 'f option \<Rightarrow> 'x option \<Rightarrow> bool \<Rightarrow>
     alpha_err_t \<times> ('f, 'x) lws_event list \<times> nat option \<times> ('c, 'w, 'f, 'x) alpha_lws_runtime_t option" where
  "alpha_lws_watch_add lib dup_fd runtime fd wants_write ready_fn callback_ctx out =
     (case runtime of None \<Rightarrow> (ALPHA_ERR_INVALID_ARG, [], None, None)
      | Some rt \<Rightarrow>
        if fd < 0 \<or> ready_fn = None \<or> \<not> out then (ALPHA_ERR_INVALID_ARG, [], None, runtime)
        else if rt_count rt = rt_capacity rt then (ALPHA_ERR_RANGE, [], None, runtime)
        else if dup_fd < 0 then (ALPHA_ERR_IO, [], None, runtime)
        else case find_free 0 (rt_capacity rt) (rt_watches rt) of
          None \<Rightarrow> (ALPHA_ERR_RANGE, [Lws_Close dup_fd], None, runtime)
        | Some i \<Rightarrow>
            let watch = \<lparr>wt_wsi = None, wt_ready_fn = ready_fn, wt_callback_ctx = callback_ctx, wt_source_fd = fd,
                         wt_wants_write = wants_write, wt_active = True\<rparr>;
                rt = put_watch i watch rt
            in case lws_adopt_descriptor_vhost_via_info lib (rt_context rt) dup_fd i of (wsi, calls, c) \<Rightarrow>
                 (case lws_calls calls (rt\<lparr>rt_context := c\<rparr>) of (evs, rt) \<Rightarrow>
                    let watch = (rt_watches rt ! i)\<lparr>wt_wsi := wsi\<rparr>
                    in case wsi of
                         None \<Rightarrow> (ALPHA_ERR_IO, evs, None, Some (put_watch i (watch\<lparr>wt_active := False\<rparr>) rt))
                       | Some w \<Rightarrow>
                           let rt = (put_watch i watch rt)\<lparr>rt_count := rt_count rt + 1\<rparr>;
                               rt = (if wants_write then rt\<lparr>rt_context := snd (lws_callback_on_writable lib (rt_context rt) w)\<rparr> else rt)
                           in (ALPHA_OK, evs, Some i, Some rt)))"

definition alpha_lws_watch_set_write ::
    "('c, 'w) libwebsockets \<Rightarrow> ('c, 'w, 'f, 'x) alpha_lws_runtime_t \<Rightarrow> nat option \<Rightarrow> bool \<Rightarrow>
     alpha_err_t \<times> ('c, 'w, 'f, 'x) alpha_lws_runtime_t" where
  "alpha_lws_watch_set_write lib rt watch wants_write =
     (case get_watch rt watch of None \<Rightarrow> (ALPHA_ERR_INVALID_ARG, rt)
      | Some (i, w) \<Rightarrow>
          (case wt_wsi w of None \<Rightarrow> (ALPHA_ERR_INVALID_ARG, rt)
           | Some wsi \<Rightarrow>
               let rt = put_watch i (w\<lparr>wt_wants_write := wants_write\<rparr>) rt
               in if wants_write then
                    (case lws_callback_on_writable lib (rt_context rt) wsi of (r, c) \<Rightarrow>
                       (if r < 0 then ALPHA_ERR_IO else ALPHA_OK, rt\<lparr>rt_context := c\<rparr>))
                  else (ALPHA_OK, rt)))"

text \<open>\<open>None\<close> when the product overflows, which is undefined in C.\<close>

definition alpha_lws_watch_set_timer ::
    "('c, 'w) libwebsockets \<Rightarrow> ('c, 'w, 'f, 'x) alpha_lws_runtime_t \<Rightarrow> nat option \<Rightarrow> int \<Rightarrow>
     (alpha_err_t \<times> ('c, 'w, 'f, 'x) alpha_lws_runtime_t) option" where
  "alpha_lws_watch_set_timer lib rt watch timeout_ms =
     (case get_watch rt watch of None \<Rightarrow> Some (ALPHA_ERR_INVALID_ARG, rt)
      | Some (i, w) \<Rightarrow>
          (case wt_wsi w of None \<Rightarrow> Some (ALPHA_ERR_INVALID_ARG, rt)
           | Some wsi \<Rightarrow>
               if timeout_ms < - 1 then Some (ALPHA_ERR_INVALID_ARG, rt)
               else
                 let usecs = (if timeout_ms < 0 then LWS_SET_TIMER_USEC_CANCEL else timeout_ms * LWS_US_PER_MS)
                 in if usecs \<ge> 2 ^ 63 then None
                    else Some (ALPHA_OK, rt\<lparr>rt_context := lws_set_timer_usecs lib (rt_context rt) wsi usecs\<rparr>)))"

definition alpha_lws_watch_remove ::
    "('c, 'w) libwebsockets \<Rightarrow> ('c, 'w, 'f, 'x) alpha_lws_runtime_t \<Rightarrow> nat option \<Rightarrow>
     ('f, 'x) lws_event list \<times> ('c, 'w, 'f, 'x) alpha_lws_runtime_t" where
  "alpha_lws_watch_remove lib rt watch =
     (case get_watch rt watch of None \<Rightarrow> ([], rt)
      | Some (i, w) \<Rightarrow>
          if \<not> wt_active w then ([], rt)
          else
            (case (case wt_wsi w of None \<Rightarrow> ([], rt) | Some wsi \<Rightarrow> close_wsi lib wsi rt) of (evs, rt) \<Rightarrow>
               (evs, (put_watch i ((rt_watches rt ! i)\<lparr>wt_active := False\<rparr>) rt)\<lparr>rt_count := rt_count rt - 1\<rparr>)))"

definition alpha_lws_watch_source_fd :: "('c, 'w, 'f, 'x) alpha_lws_runtime_t \<Rightarrow> nat option \<Rightarrow> int" where
  "alpha_lws_watch_source_fd rt watch = (case get_watch rt watch of None \<Rightarrow> - 1 | Some (i, w) \<Rightarrow> wt_source_fd w)"

definition alpha_lws_runtime_service ::
    "('c, 'w) libwebsockets \<Rightarrow> ('c, 'w, 'f, 'x) alpha_lws_runtime_t option \<Rightarrow> int \<Rightarrow>
     alpha_err_t \<times> ('f, 'x) lws_event list \<times> ('c, 'w, 'f, 'x) alpha_lws_runtime_t option" where
  "alpha_lws_runtime_service lib runtime timeout_ms =
     (case runtime of None \<Rightarrow> (ALPHA_ERR_INVALID_ARG, [], None)
      | Some rt \<Rightarrow>
        if timeout_ms < 0 then (ALPHA_ERR_INVALID_ARG, [], runtime)
        else
          let maximum_wait = (if timeout_ms = 0 then 1 else timeout_ms * LWS_US_PER_MS);
              c = lws_sul_schedule lib (rt_context rt) maximum_wait
          in case lws_service lib c of (r, calls, c) \<Rightarrow>
               (case lws_calls calls (rt\<lparr>rt_context := c\<rparr>) of (evs, rt) \<Rightarrow>
                  (if r < 0 then ALPHA_ERR_IO else ALPHA_OK, evs, Some rt)))"

definition alpha_lws_runtime_watch_count :: "('c, 'w, 'f, 'x) alpha_lws_runtime_t option \<Rightarrow> nat" where
  "alpha_lws_runtime_watch_count runtime = (case runtime of Some rt \<Rightarrow> rt_count rt | None \<Rightarrow> 0)"

definition alpha_lws_runtime_watch_capacity :: "('c, 'w, 'f, 'x) alpha_lws_runtime_t option \<Rightarrow> nat" where
  "alpha_lws_runtime_watch_capacity runtime = (case runtime of Some rt \<Rightarrow> rt_capacity rt | None \<Rightarrow> 0)"

section \<open>The table as a registry\<close>

text \<open>The abstract state: a map from the handles of the live watches to what was registered.\<close>

type_synonym ('f, 'x) registry = "nat \<rightharpoonup> 'f option \<times> 'x option \<times> int \<times> bool"

definition watch_entry :: "('w, 'f, 'x) alpha_lws_watch_t \<Rightarrow> ('f option \<times> 'x option \<times> int \<times> bool) option" where
  "watch_entry w = (if wt_active w then Some (wt_ready_fn w, wt_callback_ctx w, wt_source_fd w, wt_wants_write w) else None)"

definition registry :: "('c, 'w, 'f, 'x) alpha_lws_runtime_t \<Rightarrow> ('f, 'x) registry" where
  "registry rt i = (if i < length (rt_watches rt) then watch_entry (rt_watches rt ! i) else None)"

definition lws_inv :: "('c, 'w, 'f, 'x) alpha_lws_runtime_t \<Rightarrow> bool" where
  "lws_inv rt \<longleftrightarrow> length (rt_watches rt) = rt_capacity rt \<and> rt_count rt = length (filter wt_active (rt_watches rt)) \<and> rt_capacity rt \<le> 256"

datatype ('f, 'x) registry_effect =
    Added nat "'f option \<times> 'x option \<times> int \<times> bool"
  | Removed nat
  | Write_Set nat bool

text \<open>The specification of a history: a handle is only given out when it is free and below the capacity.\<close>

fun replay_registry :: "nat \<Rightarrow> ('f, 'x) registry_effect list \<Rightarrow> ('f, 'x) registry \<Rightarrow> ('f, 'x) registry option" where
  "replay_registry cap [] r = Some r"
| "replay_registry cap (Added h e # es) r = (if h < cap \<and> r h = None then replay_registry cap es (r(h \<mapsto> e)) else None)"
| "replay_registry cap (Removed h # es) r = replay_registry cap es (r(h := None))"
| "replay_registry cap (Write_Set h b # es) r =
     replay_registry cap es (r(h := map_option (\<lambda>(f, x, fd, _). (f, x, fd, b)) (r h)))"

lemma replay_registry_append: "replay_registry cap (a @ b) r = Option.bind (replay_registry cap a r) (replay_registry cap b)"
proof (induction a arbitrary: r)
  case (Cons e es)
  then show ?case by (cases e) (simp_all add: fun_upd_def)
qed simp

text \<open>Calls from libwebsockets change nothing but the connections.\<close>

definition same_watches :: "('c, 'w, 'f, 'x) alpha_lws_runtime_t \<Rightarrow> ('c, 'w, 'f, 'x) alpha_lws_runtime_t \<Rightarrow> bool" where
  "same_watches rt rt' \<longleftrightarrow> map (\<lambda>w. w\<lparr>wt_wsi := None\<rparr>) (rt_watches rt') = map (\<lambda>w. w\<lparr>wt_wsi := None\<rparr>) (rt_watches rt)
     \<and> rt_capacity rt' = rt_capacity rt \<and> rt_count rt' = rt_count rt"

lemma same_watches_refl [simp]: "same_watches rt rt" "same_watches (rt\<lparr>rt_context := c\<rparr>) rt' = same_watches rt rt'"
  by (simp_all add: same_watches_def)

lemma same_watches_trans: "same_watches a b \<Longrightarrow> same_watches b c \<Longrightarrow> same_watches a c"
  by (simp add: same_watches_def)

lemma same_watches_nth:
  assumes "same_watches rt rt'"
  shows "length (rt_watches rt') = length (rt_watches rt)"
    and "i < length (rt_watches rt) \<Longrightarrow> (rt_watches rt' ! i)\<lparr>wt_wsi := None\<rparr> = (rt_watches rt ! i)\<lparr>wt_wsi := None\<rparr>"
proof -
  let ?e = "map (\<lambda>w. w\<lparr>wt_wsi := None\<rparr>)"
  have m: "?e (rt_watches rt') = ?e (rt_watches rt)" using assms by (simp only: same_watches_def)
  show l: "length (rt_watches rt') = length (rt_watches rt)" using arg_cong [OF m, of length] by simp
  show "(rt_watches rt' ! i)\<lparr>wt_wsi := None\<rparr> = (rt_watches rt ! i)\<lparr>wt_wsi := None\<rparr>" if "i < length (rt_watches rt)"
    using arg_cong [OF m, of "\<lambda>l. l ! i"] that l by simp
qed

lemma watch_entry_wsi [simp]: "watch_entry (w\<lparr>wt_wsi := x\<rparr>) = watch_entry w"
  by (simp add: watch_entry_def)

lemma same_watches_registry: "same_watches rt rt' \<Longrightarrow> registry rt' = registry rt"
proof
  fix i assume s: "same_watches rt rt'"
  show "registry rt' i = registry rt i"
    using same_watches_nth(1) [OF s] arg_cong [OF same_watches_nth(2) [OF s], of i watch_entry] by (simp add: registry_def)
qed

lemma filter_active_erase: "length (filter wt_active ws) = length (filter wt_active (map (\<lambda>w. w\<lparr>wt_wsi := None\<rparr>) ws))"
  by (induction ws) simp_all

lemma same_watches_active: "same_watches rt rt' \<Longrightarrow> length (filter wt_active (rt_watches rt')) = length (filter wt_active (rt_watches rt))"
  unfolding same_watches_def filter_active_erase [of "rt_watches rt"] filter_active_erase [of "rt_watches rt'"] by (elim conjE) (simp only:)

lemma same_watches_inv: "same_watches rt rt' \<Longrightarrow> lws_inv rt \<Longrightarrow> lws_inv rt'"
  unfolding lws_inv_def using same_watches_nth(1) [of rt rt'] same_watches_active [of rt rt'] by (simp add: same_watches_def)

lemma foreign_fd_callback_same: "same_watches rt (snd (foreign_fd_callback opaque reason rt))"
proof (cases "get_watch rt opaque")
  case (Some p)
  then obtain i where i: "p = (i, rt_watches rt ! i)" "i < length (rt_watches rt)" by (auto simp: get_watch_def split: option.splits if_splits)
  have "same_watches rt (put_watch i ((rt_watches rt ! i)\<lparr>wt_wsi := None\<rparr>) rt)"
    using i(2) by (simp add: same_watches_def put_watch_def map_update) (metis list_update_id nth_map)
  then show ?thesis using Some i(1) by (auto simp: foreign_fd_callback_def split: lws_callback_reasons.split)
qed (simp add: foreign_fd_callback_def)

lemma lws_calls_same: "same_watches rt (snd (lws_calls calls rt))"
proof (induction calls rt rule: lws_calls.induct)
  case (2 opaque reason calls rt)
  show ?case using same_watches_trans [OF foreign_fd_callback_same 2 [OF prod.collapse]]
    by (simp add: case_prod_beta)
qed (simp_all add: case_prod_beta)

lemma close_wsi_same: "same_watches rt (snd (close_wsi lib wsi rt))"
  using lws_calls_same [of "rt\<lparr>rt_context := c\<rparr>" for c] by (simp add: close_wsi_def case_prod_beta)

lemma length_filter_update:
  "i < length xs \<Longrightarrow> length (filter P (xs[i := v])) + (if P (xs ! i) then 1 else 0) = length (filter P xs) + (if P v then 1 else 0)"
proof (induction xs arbitrary: i)
  case (Cons x xs)
  then show ?case by (cases i) auto
qed simp

lemma registry_put: "i < length (rt_watches rt) \<Longrightarrow> registry (put_watch i w rt) = (registry rt)(i := watch_entry w)"
  by (rule ext) (auto simp: registry_def put_watch_def)

lemma find_free_spec:
  "case find_free i (length ws) ws of
     None \<Rightarrow> (\<forall>w\<in>set ws. wt_active w)
   | Some j \<Rightarrow> i \<le> j \<and> j < i + length ws \<and> \<not> wt_active (ws ! (j - i))"
proof (induction ws arbitrary: i)
  case (Cons w ws)
  then show ?case using Cons.IH [of "i + 1"] by (auto split: option.splits simp: nth_Cons' Suc_diff_le)
qed simp

lemma count_dom: "lws_inv rt \<Longrightarrow> rt_count rt = card (dom (registry rt))"
proof -
  assume "lws_inv rt"
  moreover have "dom (registry rt) = {i. i < length (rt_watches rt) \<and> wt_active (rt_watches rt ! i)}"
    by (auto simp: registry_def watch_entry_def split: if_splits)
  ultimately show ?thesis by (simp add: lws_inv_def length_filter_conv_card)
qed

section \<open>The operations on the registry\<close>

text \<open>An operation refines a list of effects: they lead from the registry before it to the registry after it.\<close>

definition refines ::
    "('f, 'x) registry_effect list \<Rightarrow> ('c, 'w, 'f, 'x) alpha_lws_runtime_t \<Rightarrow> ('c, 'w, 'f, 'x) alpha_lws_runtime_t \<Rightarrow> bool" where
  "refines es rt rt' \<longleftrightarrow> lws_inv rt' \<and> rt_capacity rt' = rt_capacity rt \<and> replay_registry (rt_capacity rt) es (registry rt) = Some (registry rt')"

lemma refines_same: "lws_inv rt \<Longrightarrow> same_watches rt rt' \<Longrightarrow> refines [] rt rt'"
  by (simp add: refines_def same_watches_inv same_watches_registry) (simp add: same_watches_def)

lemma refines_trans: "refines a rt rt' \<Longrightarrow> refines b rt' rt'' \<Longrightarrow> refines (a @ b) rt rt''"
  by (auto simp: refines_def replay_registry_append)

lemma inv_put:
  assumes "lws_inv rt" "i < length (rt_watches rt)" "n + (if wt_active (rt_watches rt ! i) then 1 else 0) = rt_count rt + (if wt_active w then 1 else 0)"
  shows "lws_inv ((put_watch i w rt)\<lparr>rt_count := n\<rparr>)"
  using length_filter_update [of i "rt_watches rt" wt_active w] assms by (auto simp: lws_inv_def put_watch_def)

lemma registry_context [simp]: "registry (rt\<lparr>rt_context := c\<rparr>) = registry rt" "registry (rt\<lparr>rt_count := n\<rparr>) = registry rt"
  by (simp_all add: registry_def fun_eq_iff)

lemma rt_context_put [simp]: "rt_context (put_watch i w rt) = rt_context rt"
  by (simp add: put_watch_def)

lemma refines_context [simp]: "refines es rt (rt'\<lparr>rt_context := c\<rparr>) = refines es rt rt'"
  by (simp add: refines_def lws_inv_def)

text \<open>What the adoption of a descriptor leaves of the runtime.\<close>

lemma adopt_refines:
  assumes inv: "lws_inv rt" and i: "i < length (rt_watches rt)" "\<not> wt_active (rt_watches rt ! i)" and w: "wt_active w"
    and calls: "lws_calls calls ((put_watch i w rt)\<lparr>rt_context := c\<rparr>) = (evs, rt1)"
  shows "refines [Added i (the (watch_entry w))] rt ((put_watch i ((rt_watches rt1 ! i)\<lparr>wt_wsi := wsi\<rparr>) rt1)\<lparr>rt_count := rt_count rt1 + 1\<rparr>)"
    and "refines [] rt (put_watch i ((rt_watches rt1 ! i)\<lparr>wt_wsi := wsi, wt_active := False\<rparr>) rt1)"
proof -
  let ?p = "put_watch i w rt"
  have s: "same_watches ?p rt1" using lws_calls_same [of "?p\<lparr>rt_context := c\<rparr>" calls] by (simp add: calls)
  have l: "length (rt_watches rt1) = length (rt_watches rt)" using same_watches_nth(1) [OF s] by (simp add: put_watch_def)
  have w1: "(rt_watches rt1 ! i)\<lparr>wt_wsi := None\<rparr> = w\<lparr>wt_wsi := None\<rparr>" using same_watches_nth(2) [OF s, of i] i(1) by (simp add: put_watch_def)
  have a1: "wt_active (rt_watches rt1 ! i)" "watch_entry (rt_watches rt1 ! i) = watch_entry w"
    using arg_cong [OF w1, of wt_active] arg_cong [OF w1, of watch_entry] w by simp_all
  have c: "rt_count rt1 = rt_count rt" "rt_capacity rt1 = rt_capacity rt" using s by (simp_all add: same_watches_def put_watch_def)
  have full: "length (filter wt_active (rt_watches rt1)) = Suc (rt_count rt)"
    using length_filter_update [of i "rt_watches rt" wt_active w] i w inv same_watches_active [OF s] by (simp add: lws_inv_def put_watch_def)
  have r1: "registry rt1 = (registry rt)(i := watch_entry w)" using same_watches_registry [OF s] registry_put [OF i(1)] by simp
  have n: "registry rt i = None" using i by (simp add: registry_def watch_entry_def)
  have cap: "i < rt_capacity rt" using i(1) inv by (simp add: lws_inv_def)
  have e: "watch_entry w \<noteq> None" using w by (simp add: watch_entry_def)
  have u: "length (filter wt_active ((rt_watches rt1)[i := v])) = (if wt_active v then Suc (rt_count rt) else rt_count rt)" for v
    using length_filter_update [of i "rt_watches rt1" wt_active v] i(1) l a1(1) full by simp
  show "refines [Added i (the (watch_entry w))] rt ((put_watch i ((rt_watches rt1 ! i)\<lparr>wt_wsi := wsi\<rparr>) rt1)\<lparr>rt_count := rt_count rt1 + 1\<rparr>)"
    unfolding refines_def using inv n cap e c l a1 r1 u i(1)
    by (auto simp: lws_inv_def registry_put fun_upd_def) (simp add: put_watch_def)+
  show "refines [] rt (put_watch i ((rt_watches rt1 ! i)\<lparr>wt_wsi := wsi, wt_active := False\<rparr>) rt1)"
    unfolding refines_def using inv n cap c l a1 r1 u i(1)
    by (auto simp: lws_inv_def registry_put fun_upd_def watch_entry_def) (simp add: put_watch_def)+
qed

definition add_effects :: "nat option \<Rightarrow> int \<Rightarrow> bool \<Rightarrow> 'f option \<Rightarrow> 'x option \<Rightarrow> ('f, 'x) registry_effect list" where
  "add_effects h fd wants_write fn ctx = (case h of None \<Rightarrow> [] | Some i \<Rightarrow> [Added i (fn, ctx, fd, wants_write)])"

lemma find_free_inv:
  assumes "lws_inv rt"
  shows "find_free 0 (rt_capacity rt) (rt_watches rt) = None \<Longrightarrow> rt_count rt = rt_capacity rt"
    and "find_free 0 (rt_capacity rt) (rt_watches rt) = Some i \<Longrightarrow> i < length (rt_watches rt) \<and> \<not> wt_active (rt_watches rt ! i)"
  using find_free_spec [of "rt_watches rt" 0] assms by (auto simp: lws_inv_def)

lemma alpha_lws_watch_add_refines:
  assumes inv: "lws_inv rt" and add: "alpha_lws_watch_add lib dup_fd (Some rt) fd ww fn ctx out = (err, evs, h, Some rt')"
  shows "refines (add_effects h fd ww fn ctx) rt rt' \<and> (h \<noteq> None \<longleftrightarrow> err = ALPHA_OK)"
proof (cases "fd < 0 \<or> fn = None \<or> \<not> out \<or> rt_count rt = rt_capacity rt \<or> dup_fd < 0 \<or> find_free 0 (rt_capacity rt) (rt_watches rt) = None")
  case True
  then show ?thesis using add refines_same [OF inv same_watches_refl(1)]
    by (auto simp: alpha_lws_watch_add_def add_effects_def split: if_splits option.splits)
next
  case False
  then obtain i where f: "find_free 0 (rt_capacity rt) (rt_watches rt) = Some i" by blast
  note i = find_free_inv(2) [OF inv f]
  define w :: "('b, 'c, 'd) alpha_lws_watch_t" where
    "w = \<lparr>wt_wsi = None, wt_ready_fn = fn, wt_callback_ctx = ctx, wt_source_fd = fd, wt_wants_write = ww, wt_active = True\<rparr>"
  obtain wsi calls c where a: "lws_adopt_descriptor_vhost_via_info lib (rt_context rt) dup_fd i = (wsi, calls, c)" using prod_cases3 .
  obtain e1 rt1 where l: "lws_calls calls ((put_watch i w rt)\<lparr>rt_context := c\<rparr>) = (e1, rt1)" by fastforce
  have w: "wt_active w" "watch_entry w = Some (fn, ctx, fd, ww)" by (simp_all add: w_def watch_entry_def)
  note ad = adopt_refines [OF inv i [THEN conjunct1] i [THEN conjunct2] w(1) l, unfolded w(2) option.sel]
  define rt2 where "rt2 = (put_watch i ((rt_watches rt1 ! i)\<lparr>wt_wsi := wsi\<rparr>) rt1)\<lparr>rt_count := rt_count rt1 + 1\<rparr>"
  have q: "alpha_lws_watch_add lib dup_fd (Some rt) fd ww fn ctx out =
      (case wsi of
         None \<Rightarrow> (ALPHA_ERR_IO, e1, None, Some (put_watch i ((rt_watches rt1 ! i)\<lparr>wt_wsi := wsi, wt_active := False\<rparr>) rt1))
       | Some x \<Rightarrow> (ALPHA_OK, e1, Some i, Some (if ww then rt2\<lparr>rt_context := snd (lws_callback_on_writable lib (rt_context rt2) x)\<rparr> else rt2)))"
    using False f a l unfolding w_def by (cases wsi) (simp_all add: alpha_lws_watch_add_def Let_def rt2_def)
  show ?thesis
  proof (cases wsi)
    case None
    then have "h = None" "err = ALPHA_ERR_IO" "rt' = put_watch i ((rt_watches rt1 ! i)\<lparr>wt_wsi := None, wt_active := False\<rparr>) rt1"
      using q add by auto
    then show ?thesis using ad(2) [of None] by (simp add: add_effects_def)
  next
    case (Some x)
    have "refines [Added i (fn, ctx, fd, ww)] rt rt2" unfolding rt2_def by (rule ad(1))
    then show ?thesis using q add Some by (auto simp: add_effects_def split: if_splits)
  qed
qed

lemma get_watch_SomeD: "get_watch rt h = Some (i, w) \<Longrightarrow> h = Some i \<and> i < length (rt_watches rt) \<and> w = rt_watches rt ! i"
  by (auto simp: get_watch_def split: option.splits if_splits)

lemma alpha_lws_watch_remove_refines:
  assumes inv: "lws_inv rt" and rem: "alpha_lws_watch_remove lib rt (Some i) = (evs, rt')"
  shows "refines [Removed i] rt rt'"
proof (cases "i < length (rt_watches rt) \<and> wt_active (rt_watches rt ! i)")
  case False
  then have "registry rt i = None" by (auto simp: registry_def watch_entry_def)
  then show ?thesis using False rem inv by (auto simp: alpha_lws_watch_remove_def get_watch_def refines_def fun_upd_idem split: if_splits)
next
  case True
  obtain e1 rt1 where c: "(case wt_wsi (rt_watches rt ! i) of None \<Rightarrow> ([], rt) | Some wsi \<Rightarrow> close_wsi lib wsi rt) = (e1, rt1)" by fastforce
  have s: "same_watches rt rt1" using c close_wsi_same [of rt lib] by (auto split: option.splits) (metis snd_conv)
  have rt': "rt' = (put_watch i ((rt_watches rt1 ! i)\<lparr>wt_active := False\<rparr>) rt1)\<lparr>rt_count := rt_count rt1 - 1\<rparr>"
    using True rem c by (simp add: alpha_lws_watch_remove_def get_watch_def)
  note inv1 = same_watches_inv [OF s inv]
  have i1: "i < length (rt_watches rt1)" "wt_active (rt_watches rt1 ! i)"
    using True same_watches_nth(1) [OF s] arg_cong [OF same_watches_nth(2) [OF s], of i wt_active] by simp_all
  have "rt_watches rt1 ! i \<in> set (filter wt_active (rt_watches rt1))" using i1 by simp
  then have "rt_count rt1 > 0" using inv1 by (metis lws_inv_def length_pos_if_in_set)
  then have "lws_inv rt'" unfolding rt' using inv1 i1 by (intro inv_put) auto
  moreover have "registry rt' = (registry rt)(i := None)"
    unfolding rt' using registry_put [OF i1(1)] same_watches_registry [OF s] by (simp add: watch_entry_def)
  ultimately show ?thesis using s by (simp add: refines_def rt' same_watches_def put_watch_def)
qed

definition write_effects :: "alpha_err_t \<Rightarrow> nat \<Rightarrow> bool \<Rightarrow> ('f, 'x) registry_effect list" where
  "write_effects err i b = (if err = ALPHA_ERR_INVALID_ARG then [] else [Write_Set i b])"

lemma alpha_lws_watch_set_write_refines:
  assumes inv: "lws_inv rt" and set: "alpha_lws_watch_set_write lib rt (Some i) b = (err, rt')"
  shows "refines (write_effects err i b) rt rt'"
proof (cases "i < length (rt_watches rt) \<and> wt_wsi (rt_watches rt ! i) \<noteq> None")
  case False
  then show ?thesis using set refines_same [OF inv same_watches_refl(1)]
    by (auto simp: alpha_lws_watch_set_write_def get_watch_def write_effects_def split: if_splits)
next
  case True
  let ?w = "(rt_watches rt ! i)\<lparr>wt_wants_write := b\<rparr>"
  have rt': "rt' = put_watch i ?w rt \<or> (\<exists>c. rt' = (put_watch i ?w rt)\<lparr>rt_context := c\<rparr>)" "err \<noteq> ALPHA_ERR_INVALID_ARG"
    using True set by (auto simp: alpha_lws_watch_set_write_def get_watch_def Let_def case_prod_beta split: if_splits)
  have "lws_inv ((put_watch i ?w rt)\<lparr>rt_count := rt_count rt\<rparr>)" using inv True by (intro inv_put) auto
  then have "lws_inv (put_watch i ?w rt)" by (simp add: lws_inv_def put_watch_def)
  moreover have "watch_entry ?w = map_option (\<lambda>(f, x, fd, _). (f, x, fd, b)) (registry rt i)"
    using True by (simp add: registry_def watch_entry_def)
  ultimately have "refines [Write_Set i b] rt (put_watch i ?w rt)"
    using True registry_put [of i rt ?w] by (simp add: refines_def) (simp add: put_watch_def fun_upd_def)
  then show ?thesis using rt' by (auto simp: write_effects_def)
qed

lemma alpha_lws_watch_set_timer_refines:
  "lws_inv rt \<Longrightarrow> alpha_lws_watch_set_timer lib rt h ms = Some (err, rt') \<Longrightarrow> refines [] rt rt'"
  using refines_same [OF _ same_watches_refl(1), of rt]
  by (auto simp: alpha_lws_watch_set_timer_def Let_def split: option.splits if_splits)

lemma alpha_lws_runtime_service_refines:
  assumes inv: "lws_inv rt" and srv: "alpha_lws_runtime_service lib (Some rt) ms = (err, evs, Some rt')"
  shows "refines [] rt rt'"
proof (cases "ms < 0")
  case False
  have s: "same_watches rt (snd (lws_calls calls (rt\<lparr>rt_context := c\<rparr>)))" for calls c
    using lws_calls_same [of "rt\<lparr>rt_context := c\<rparr>" calls] by simp
  have "\<exists>calls c. rt' = snd (lws_calls calls (rt\<lparr>rt_context := c\<rparr>))"
    using False srv by (auto simp: alpha_lws_runtime_service_def Let_def case_prod_beta)
  then show ?thesis using refines_same [OF inv] s by auto
qed (use srv refines_same [OF inv same_watches_refl(1)] in \<open>simp add: alpha_lws_runtime_service_def\<close>)

text \<open>The runs of a runtime, with the effects of the operations of the caller.\<close>

inductive lws_run ::
    "('c, 'w) libwebsockets \<Rightarrow> ('c, 'w, 'f, 'x) alpha_lws_runtime_t \<Rightarrow> ('f, 'x) registry_effect list \<Rightarrow>
     ('c, 'w, 'f, 'x) alpha_lws_runtime_t \<Rightarrow> bool" for lib rt0 where
  start: "lws_run lib rt0 [] rt0"
| add: "lws_run lib rt0 es rt \<Longrightarrow> alpha_lws_watch_add lib dup_fd (Some rt) fd ww fn ctx out = (err, evs, h, Some rt') \<Longrightarrow>
    lws_run lib rt0 (es @ add_effects h fd ww fn ctx) rt'"
| remove: "lws_run lib rt0 es rt \<Longrightarrow> alpha_lws_watch_remove lib rt (Some i) = (evs, rt') \<Longrightarrow> lws_run lib rt0 (es @ [Removed i]) rt'"
| set_write: "lws_run lib rt0 es rt \<Longrightarrow> alpha_lws_watch_set_write lib rt (Some i) b = (err, rt') \<Longrightarrow>
    lws_run lib rt0 (es @ write_effects err i b) rt'"
| set_timer: "lws_run lib rt0 es rt \<Longrightarrow> alpha_lws_watch_set_timer lib rt h ms = Some (err, rt') \<Longrightarrow> lws_run lib rt0 es rt'"
| service: "lws_run lib rt0 es rt \<Longrightarrow> alpha_lws_runtime_service lib (Some rt) ms = (err, evs, Some rt') \<Longrightarrow> lws_run lib rt0 es rt'"

lemma lws_run_refines: "lws_run lib rt0 es rt \<Longrightarrow> lws_inv rt0 \<Longrightarrow> refines es rt0 rt"
proof (induction rule: lws_run.induct)
  case start
  then show ?case by (simp add: refines_def)
next
  case (add es rt dup_fd fd ww fn ctx out err evs h rt')
  then have "lws_inv rt" by (simp add: refines_def)
  from alpha_lws_watch_add_refines [OF this add(2)] add show ?case by (auto intro: refines_trans)
next
  case (remove es rt i evs rt')
  then have "lws_inv rt" by (simp add: refines_def)
  from alpha_lws_watch_remove_refines [OF this remove(2)] remove show ?case by (auto intro: refines_trans)
next
  case (set_write es rt i b err rt')
  then have "lws_inv rt" by (simp add: refines_def)
  from alpha_lws_watch_set_write_refines [OF this set_write(2)] set_write show ?case by (auto intro: refines_trans)
next
  case (set_timer es rt h ms err rt')
  then have "lws_inv rt" by (simp add: refines_def)
  from alpha_lws_watch_set_timer_refines [OF this set_timer(2)] set_timer show ?case using refines_trans [of es rt0 rt "[]" rt'] by simp
next
  case (service es rt ms err evs rt')
  then have "lws_inv rt" by (simp add: refines_def)
  from alpha_lws_runtime_service_refines [OF this service(2)] service show ?case using refines_trans [of es rt0 rt "[]" rt'] by simp
qed

lemma create_empty:
  assumes "alpha_lws_runtime_create lib a b mi cap out = (ALPHA_OK, evs, Some rt0)"
  shows "lws_inv rt0" "registry rt0 = Map.empty" "rt_capacity rt0 = cap" "cap \<le> 256"
  using assms by (auto simp: alpha_lws_runtime_create_def Let_def lws_inv_def registry_def watch_entry_def empty_watch_def fun_eq_iff case_prod_beta
      split: if_splits option.splits)

text \<open>Room is found exactly when the table is not full: the second test of the code for lack of room never decides.\<close>

lemma add_range_iff:
  assumes "lws_inv rt" "0 \<le> fd"
  shows "fst (alpha_lws_watch_add lib dup_fd (Some rt) fd ww (Some fn) ctx True) = ALPHA_ERR_RANGE \<longleftrightarrow> rt_count rt = rt_capacity rt"
proof (cases "rt_count rt = rt_capacity rt \<or> dup_fd < 0")
  case False
  then obtain i where i: "find_free 0 (rt_capacity rt) (rt_watches rt) = Some i" using find_free_inv(1) [OF assms(1)] by auto
  then have "fst (alpha_lws_watch_add lib dup_fd (Some rt) fd ww (Some fn) ctx True) \<noteq> ALPHA_ERR_RANGE"
    using False assms(2) by (simp add: alpha_lws_watch_add_def Let_def case_prod_beta split: option.split)
  then show ?thesis using False by simp
qed (use assms(2) in \<open>auto simp: alpha_lws_watch_add_def\<close>)

text \<open>The wakeup at the end of a service call, seen on the registry.\<close>

definition wakeups :: "nat \<Rightarrow> ('f, 'x) registry \<Rightarrow> ('f, 'x) lws_event list" where
  "wakeups cap r = concat (map (\<lambda>i. case r i of Some (f, x, fd, True) \<Rightarrow> [Lws_Ready f x False True False] | _ \<Rightarrow> []) [0..<cap])"

lemma wakeup_loop_entries:
  "wakeup_loop ws = concat (map (\<lambda>w. case watch_entry w of Some (f, x, fd, True) \<Rightarrow> [Lws_Ready f x False True False] | _ \<Rightarrow> []) ws)"
  by (induction ws) (simp_all add: watch_entry_def)

lemma service_wakeup_registry: "lws_inv rt \<Longrightarrow> service_wakeup rt = wakeups (rt_capacity rt) (registry rt)"
proof -
  assume inv: "lws_inv rt"
  then have ws: "rt_watches rt = map (\<lambda>i. rt_watches rt ! i) [0..<rt_capacity rt]" using map_nth [of "rt_watches rt"] by (simp add: lws_inv_def)
  have "wakeup_loop (rt_watches rt) = wakeups (rt_capacity rt) (registry rt)"
    unfolding wakeup_loop_entries wakeups_def by (subst ws, subst map_map) (use inv in \<open>auto simp: registry_def lws_inv_def intro!: arg_cong [where f = concat]\<close>)
  then show ?thesis using inv by (simp add: service_wakeup_def lws_inv_def)
qed

section \<open>Examples\<close>

text \<open>An event library whose connections are the indices of their watches; it confirms a close at once, and a service call runs
  into the scheduled wakeup.\<close>

definition memory_lws :: "(nat, nat) libwebsockets" where
  "memory_lws = \<lparr>
     lws_create_vhost = (\<lambda>c. (True, c)),
     lws_wsi_close = (\<lambda>c w. ([Lws_Callback (Some w) LWS_CALLBACK_RAW_CLOSE_FILE], c)),
     lws_context_destroy = (\<lambda>c. []),
     lws_adopt_descriptor_vhost_via_info = (\<lambda>c fd i. (Some i, [], c + 1)),
     lws_callback_on_writable = (\<lambda>c w. (1, c)),
     lws_set_timer_usecs = (\<lambda>c w t. c),
     lws_sul_schedule = (\<lambda>c t. c),
     lws_service = (\<lambda>c. (0, [Lws_Wakeup], c))\<rparr>"

definition example_watch :: "nat \<Rightarrow> int \<Rightarrow> bool \<Rightarrow> (nat, nat, nat) alpha_lws_watch_t" where
  "example_watch i fd ww = \<lparr>wt_wsi = Some i, wt_ready_fn = Some 1, wt_callback_ctx = Some 2, wt_source_fd = fd, wt_wants_write = ww, wt_active = True\<rparr>"

definition example_runtime :: "nat \<Rightarrow> (nat, nat, nat) alpha_lws_watch_t list \<Rightarrow> nat \<Rightarrow> (nat, nat, nat, nat) alpha_lws_runtime_t" where
  "example_runtime c ws n = \<lparr>rt_context = c, rt_watches = ws, rt_capacity = 2, rt_count = n\<rparr>"

lemma example_lws_steps:
  "alpha_lws_runtime_create memory_lws True True (Some 0) 2 True = (ALPHA_OK, [], Some (example_runtime 0 [empty_watch, empty_watch] 0))"
  "alpha_lws_watch_add memory_lws 10 (Some (example_runtime 0 [empty_watch, empty_watch] 0)) 5 True (Some 1) (Some 2) True
     = (ALPHA_OK, [], Some 0, Some (example_runtime 1 [example_watch 0 5 True, empty_watch] 1))"
  "alpha_lws_watch_add memory_lws 11 (Some (example_runtime 1 [example_watch 0 5 True, empty_watch] 1)) 6 False (Some 1) (Some 2) True
     = (ALPHA_OK, [], Some 1, Some (example_runtime 2 [example_watch 0 5 True, example_watch 1 6 False] 2))"
  by code_simp+

lemma example_lws_run:
  "lws_run memory_lws (example_runtime 0 [empty_watch, empty_watch] 0)
     [Added 0 (Some 1, Some 2, 5, True), Added 1 (Some 1, Some 2, 6, False)] (example_runtime 2 [example_watch 0 5 True, example_watch 1 6 False] 2)"
  using lws_run.add [OF lws_run.add [OF lws_run.start example_lws_steps(2)] example_lws_steps(3)] by (simp add: add_effects_def)

section \<open>Properties\<close>

text \<open>
  C11. The table of watches implements a bounded registry: after any sequence of additions, removals, changes and service
  calls on a new runtime, under any behaviour of libwebsockets, the live slots are exactly the registry that the history
  describes, in which a handle is only given out while it is free. The counter is its size and never exceeds the capacity of
  at most 256; an addition is refused for lack of room exactly when the registry is full; and the wakeup of a service call
  reaches exactly the watches that want to write, in the order of their handles.
\<close>

theorem lws_registry_refines:
  assumes "alpha_lws_runtime_create lib a b mi cap out = (ALPHA_OK, evs, Some rt0)" "lws_run lib rt0 es rt"
  shows "replay_registry cap es Map.empty = Some (registry rt)
    \<and> alpha_lws_runtime_watch_count (Some rt) = card (dom (registry rt))
    \<and> alpha_lws_runtime_watch_count (Some rt) \<le> cap \<and> cap \<le> 256
    \<and> (0 \<le> fd \<longrightarrow> (fst (alpha_lws_watch_add lib dup_fd (Some rt) fd ww (Some fn) ctx True) = ALPHA_ERR_RANGE
                    \<longleftrightarrow> card (dom (registry rt)) = cap))
    \<and> service_wakeup rt = wakeups cap (registry rt)"
proof -
  note c = create_empty [OF assms(1)]
  have r: "refines es rt0 rt" by (rule lws_run_refines [OF assms(2) c(1)])
  then have inv: "lws_inv rt" "rt_capacity rt = cap" using c(3) by (simp_all add: refines_def)
  have "rt_count rt \<le> rt_capacity rt" using inv(1) length_filter_le [of wt_active "rt_watches rt"] by (simp add: lws_inv_def)
  then show ?thesis
    using r c inv count_dom [OF inv(1)] add_range_iff [OF inv(1)] service_wakeup_registry [OF inv(1)]
    by (auto simp: refines_def alpha_lws_runtime_watch_count_def)
qed

theorem lws_registry_refines_witness:
  "alpha_lws_runtime_watch_count (Some (example_runtime 2 [example_watch 0 5 True, example_watch 1 6 False] 2)) = 2
   \<and> card (dom (registry (example_runtime 2 [example_watch 0 5 True, example_watch 1 6 False] 2))) = 2
   \<and> fst (alpha_lws_watch_add memory_lws 12 (Some (example_runtime 2 [example_watch 0 5 True, example_watch 1 6 False] 2)) 7 True (Some 1) None True)
       = ALPHA_ERR_RANGE
   \<and> service_wakeup (example_runtime 2 [example_watch 0 5 True, example_watch 1 6 False] 2) = [Lws_Ready (Some 1) (Some 2) False True False]"
proof -
  let ?rt = "example_runtime 2 [example_watch 0 5 True, example_watch 1 6 False] 2"
  note p = lws_registry_refines [OF example_lws_steps(1) example_lws_run, of 7 12 True 1 None]
  have "alpha_lws_runtime_watch_count (Some ?rt) = 2" by code_simp
  moreover have "wakeups 2 (registry ?rt) = [Lws_Ready (Some 1) (Some 2) False True False]" by code_simp
  ultimately show ?thesis using p by simp
qed

end
