(* ===== verification/Backtest_Fixture.thy ===== *)
theory Backtest_Fixture
  imports Backtest_Engine C_Text Civil_Date
begin

text \<open>
  The loader of backtest fixtures (\<^verbatim>\<open>core/apps/backtest_fixture.c\<close>). A JSON value is a tree, on which the
  accessors of yyjson work as its header defines them; a null pointer is \<open>None\<close>. Reading a file into a tree is a
  parameter, and so are the outcomes of \<^verbatim>\<open>malloc\<close>.
\<close>

section \<open>JSON values\<close>

text \<open>The three subtypes of a number are the negative integers, the other integers and the rest.\<close>

datatype yyjson_val =
    J_Null
  | J_Bool bool
  | J_Sint int
  | J_Uint int
  | J_Real double
  | J_Str string
  | J_Arr "yyjson_val list"
  | J_Obj "(string \<times> yyjson_val) list"

fun yyjson_is_obj :: "yyjson_val option \<Rightarrow> bool" where
  "yyjson_is_obj (Some (J_Obj members)) = True"
| "yyjson_is_obj v = False"

fun yyjson_is_arr :: "yyjson_val option \<Rightarrow> bool" where
  "yyjson_is_arr (Some (J_Arr elems)) = True"
| "yyjson_is_arr v = False"

fun yyjson_get_str :: "yyjson_val option \<Rightarrow> string option" where
  "yyjson_get_str (Some (J_Str s)) = Some (c_str s)"
| "yyjson_get_str v = None"

text \<open>The eight bytes of an unsigned integer are read as a signed one.\<close>

fun yyjson_get_sint :: "yyjson_val option \<Rightarrow> int" where
  "yyjson_get_sint (Some (J_Sint i)) = i"
| "yyjson_get_sint (Some (J_Uint u)) = (if u \<ge> 2 ^ 63 then u - 2 ^ 64 else u)"
| "yyjson_get_sint v = 0"

fun yyjson_get_num :: "yyjson_val option \<Rightarrow> double" where
  "yyjson_get_num (Some (J_Real d)) = d"
| "yyjson_get_num (Some (J_Sint i)) = of_i64 i"
| "yyjson_get_num (Some (J_Uint u)) = of_i64 u"
| "yyjson_get_num v = 0"

fun yyjson_obj_get :: "yyjson_val option \<Rightarrow> string \<Rightarrow> yyjson_val option" where
  "yyjson_obj_get (Some (J_Obj members)) key = map_of members key"
| "yyjson_obj_get v key = None"

section \<open>The code\<close>

definition ALPHA_STRATEGY_CAP :: nat where "ALPHA_STRATEGY_CAP = 16"

record alpha_fixture_t =
  fx_config :: alpha_backtest_config_t
  fx_prices :: "double list option"
  fx_dates :: "int list option"
  fx_bar_count :: nat
  fx_signal_days :: "int list option"
  fx_signal_values :: "alpha_signal_t list option"
  fx_signal_count :: nat

definition config_zero :: alpha_backtest_config_t where
  "config_zero = \<lparr>cfg_ticker = [], cfg_strategy = [], train_start = 0, train_end = 0, test_start = 0, test_end = 0,
     initial_capital = 0, commission_rate_pct = 0, tax_rate_pct = 0, slippage_bps = 0\<rparr>"

definition fixture_zero :: alpha_fixture_t where
  "fixture_zero = \<lparr>fx_config = config_zero, fx_prices = None, fx_dates = None, fx_bar_count = 0, fx_signal_days = None,
     fx_signal_values = None, fx_signal_count = 0\<rparr>"

definition copy_bounded :: "string \<Rightarrow> nat \<Rightarrow> string" where
  "copy_bounded src cap = (let len = length src; len = (if len \<ge> cap then cap - 1 else len) in take len src)"

definition parse_signal :: "string \<Rightarrow> alpha_err_t \<times> alpha_signal_t option" where
  "parse_signal txt =
     (if txt = ''BUY'' then (ALPHA_OK, Some ALPHA_SIGNAL_BUY)
      else if txt = ''SELL'' then (ALPHA_OK, Some ALPHA_SIGNAL_SELL)
      else if txt = ''HOLD'' then (ALPHA_OK, Some ALPHA_SIGNAL_HOLD)
      else if txt = ''CLOSE'' then (ALPHA_OK, Some ALPHA_SIGNAL_CLOSE)
      else (ALPHA_ERR_INVALID_ARG, None))"

text \<open>The loop over the four date keys, and the conversion to \<^verbatim>\<open>int\<close>.\<close>

fun parse_dates :: "yyjson_val option \<Rightarrow> string list \<Rightarrow> int list option" where
  "parse_dates cfg [] = Some []"
| "parse_dates cfg (key # keys) =
     (case alpha_date_parse (yyjson_get_str (yyjson_obj_get cfg key)) True of
        (ALPHA_OK, Some day) \<Rightarrow> map_option (\<lambda>days. day # days) (parse_dates cfg keys)
      | _ \<Rightarrow> None)"

definition int_of_i64 :: "int \<Rightarrow> int" where
  "int_of_i64 n = (n + 2 ^ 31) mod 2 ^ 32 - 2 ^ 31"

definition parse_config :: "yyjson_val option \<Rightarrow> alpha_err_t \<times> alpha_backtest_config_t option" where
  "parse_config cfg =
     (if cfg = None \<or> \<not> yyjson_is_obj cfg then (ALPHA_ERR_INVALID_ARG, None)
      else case (yyjson_get_str (yyjson_obj_get cfg ''ticker''), yyjson_get_str (yyjson_obj_get cfg ''strategy'')) of
        (Some ticker, Some strategy) \<Rightarrow>
          (case parse_dates cfg [''train_start'', ''train_end'', ''test_start'', ''test_end''] of
             Some [d1, d2, d3, d4] \<Rightarrow>
               (ALPHA_OK, Some \<lparr>cfg_ticker = copy_bounded ticker ALPHA_TICKER_CAP, cfg_strategy = copy_bounded strategy ALPHA_STRATEGY_CAP,
                  train_start = d1, train_end = d2, test_start = d3, test_end = d4,
                  initial_capital = yyjson_get_sint (yyjson_obj_get cfg ''initial_capital''),
                  commission_rate_pct = yyjson_get_num (yyjson_obj_get cfg ''commission_rate_pct''),
                  tax_rate_pct = yyjson_get_num (yyjson_obj_get cfg ''tax_rate_pct''),
                  slippage_bps = int_of_i64 (yyjson_get_sint (yyjson_obj_get cfg ''slippage_bps''))\<rparr>)
           | _ \<Rightarrow> (ALPHA_ERR_INVALID_ARG, None))
      | _ \<Rightarrow> (ALPHA_ERR_INVALID_ARG, None))"

fun bars_loop :: "yyjson_val list \<Rightarrow> (int \<times> double) list option" where
  "bars_loop [] = Some []"
| "bars_loop (bar # bars) =
     (case alpha_date_parse (yyjson_get_str (yyjson_obj_get (Some bar) ''date'')) True of
        (ALPHA_OK, Some day) \<Rightarrow> map_option (\<lambda>rest. (day, yyjson_get_num (yyjson_obj_get (Some bar) ''close'')) # rest) (bars_loop bars)
      | _ \<Rightarrow> None)"

record fixture_alloc_t =
  ok_prices :: bool
  ok_dates :: bool
  ok_days :: bool
  ok_values :: bool

definition parse_bars :: "fixture_alloc_t \<Rightarrow> yyjson_val option \<Rightarrow> alpha_fixture_t \<Rightarrow> alpha_err_t \<times> alpha_fixture_t" where
  "parse_bars alloc bars out =
     (case bars of
        Some (J_Arr elems) \<Rightarrow>
          if \<not> ok_prices alloc \<or> \<not> ok_dates alloc then (ALPHA_ERR_IO, out)
          else (case bars_loop elems of
             None \<Rightarrow> (ALPHA_ERR_INVALID_ARG, out)
           | Some rows \<Rightarrow>
               (ALPHA_OK, out\<lparr>fx_bar_count := length elems, fx_prices := Some (map snd rows), fx_dates := Some (map fst rows)\<rparr>))
      | _ \<Rightarrow> (ALPHA_ERR_INVALID_ARG, out))"

fun signals_loop :: "(string \<times> yyjson_val) list \<Rightarrow> (int \<times> alpha_signal_t) list option" where
  "signals_loop [] = Some []"
| "signals_loop ((key, v) # members) =
     (case (alpha_date_parse (Some (c_str key)) True, map_option parse_signal (yyjson_get_str (Some v))) of
        ((ALPHA_OK, Some day), Some (ALPHA_OK, Some signal)) \<Rightarrow> map_option (\<lambda>rest. (day, signal) # rest) (signals_loop members)
      | _ \<Rightarrow> None)"

definition parse_signals :: "fixture_alloc_t \<Rightarrow> yyjson_val option \<Rightarrow> alpha_fixture_t \<Rightarrow> alpha_err_t \<times> alpha_fixture_t" where
  "parse_signals alloc signals out =
     (case signals of
        Some (J_Obj members) \<Rightarrow>
          if \<not> ok_days alloc \<or> \<not> ok_values alloc then (ALPHA_ERR_IO, out)
          else (case signals_loop members of
             None \<Rightarrow> (ALPHA_ERR_INVALID_ARG, out)
           | Some rows \<Rightarrow>
               (ALPHA_OK, out\<lparr>fx_signal_count := length members, fx_signal_days := Some (map fst rows), fx_signal_values := Some (map snd rows)\<rparr>))
      | _ \<Rightarrow> (ALPHA_OK, out))"

definition alpha_fixture_free :: "alpha_fixture_t option \<Rightarrow> alpha_fixture_t option" where
  "alpha_fixture_free fixture = (case fixture of None \<Rightarrow> None | Some f \<Rightarrow> Some fixture_zero)"

text \<open>What is stored through the output pointer, when it is written.\<close>

definition alpha_fixture_load ::
    "(string \<Rightarrow> yyjson_val option) \<Rightarrow> fixture_alloc_t \<Rightarrow> string option \<Rightarrow> bool \<Rightarrow> alpha_err_t \<times> alpha_fixture_t option" where
  "alpha_fixture_load yyjson_read_file alloc path out =
     (case path of None \<Rightarrow> (ALPHA_ERR_INVALID_ARG, None)
      | Some p \<Rightarrow>
        if \<not> out then (ALPHA_ERR_INVALID_ARG, None)
        else case yyjson_read_file p of
          None \<Rightarrow> (ALPHA_ERR_IO, Some fixture_zero)
        | Some doc_root \<Rightarrow>
            let (status, fixture) =
              (if yyjson_is_obj (Some doc_root) then
                 (case parse_config (yyjson_obj_get (Some doc_root) ''config'') of
                    (st, cfg) \<Rightarrow>
                      let fixture = (case cfg of Some c \<Rightarrow> fixture_zero\<lparr>fx_config := c\<rparr> | None \<Rightarrow> fixture_zero);
                          (st, fixture) = (if st = ALPHA_OK then parse_bars alloc (yyjson_obj_get (Some doc_root) ''bars'') fixture else (st, fixture))
                      in if st = ALPHA_OK then parse_signals alloc (yyjson_obj_get (Some doc_root) ''signals'') fixture else (st, fixture))
               else (ALPHA_ERR_INVALID_ARG, fixture_zero))
            in (status, if status \<noteq> ALPHA_OK then alpha_fixture_free (Some fixture) else Some fixture))"

text \<open>The view that the replay source takes: the pairs of the two arrays.\<close>

definition alpha_fixture_replay :: "alpha_fixture_t \<Rightarrow> alpha_replay_source_t" where
  "alpha_fixture_replay f =
     (case (fx_signal_days f, fx_signal_values f) of
        (Some days, Some signals) \<Rightarrow> take (fx_signal_count f) (zip days signals)
      | _ \<Rightarrow> [])"

section \<open>Writing a fixture\<close>

text \<open>The document of a fixture, as the generator of the fixtures writes it.\<close>

definition iso_day :: "int \<Rightarrow> string" where
  "iso_day d = the (snd (alpha_date_format d True 11))"

definition printable_day :: "int \<Rightarrow> bool" where
  "printable_day d \<longleftrightarrow> (case civil_from_days d of (y, _, _) \<Rightarrow> 0 \<le> y \<and> y < 10000)"

definition j_int :: "int \<Rightarrow> yyjson_val" where
  "j_int n = (if n < 0 then J_Sint n else J_Uint n)"

fun signal_name :: "alpha_signal_t \<Rightarrow> string" where
  "signal_name ALPHA_SIGNAL_BUY = ''BUY''"
| "signal_name ALPHA_SIGNAL_SELL = ''SELL''"
| "signal_name ALPHA_SIGNAL_HOLD = ''HOLD''"
| "signal_name ALPHA_SIGNAL_CLOSE = ''CLOSE''"

definition config_json :: "alpha_backtest_config_t \<Rightarrow> yyjson_val" where
  "config_json c = J_Obj
     [(''ticker'', J_Str (cfg_ticker c)), (''strategy'', J_Str (cfg_strategy c)),
      (''train_start'', J_Str (iso_day (train_start c))), (''train_end'', J_Str (iso_day (train_end c))),
      (''test_start'', J_Str (iso_day (test_start c))), (''test_end'', J_Str (iso_day (test_end c))),
      (''initial_capital'', j_int (initial_capital c)), (''commission_rate_pct'', J_Real (commission_rate_pct c)),
      (''tax_rate_pct'', J_Real (tax_rate_pct c)), (''slippage_bps'', j_int (slippage_bps c))]"

definition bar_json :: "int \<times> double \<Rightarrow> yyjson_val" where
  "bar_json b = J_Obj [(''date'', J_Str (iso_day (fst b))), (''close'', J_Real (snd b))]"

definition signal_json :: "int \<times> alpha_signal_t \<Rightarrow> string \<times> yyjson_val" where
  "signal_json s = (iso_day (fst s), J_Str (signal_name (snd s)))"

definition fixture_json :: "alpha_backtest_config_t \<Rightarrow> (int \<times> double) list \<Rightarrow> (int \<times> alpha_signal_t) list \<Rightarrow> yyjson_val" where
  "fixture_json c bars signals = J_Obj
     [(''config'', config_json c), (''bars'', J_Arr (map bar_json bars)), (''signals'', J_Obj (map signal_json signals))]"

definition fixture_of :: "alpha_backtest_config_t \<Rightarrow> (int \<times> double) list \<Rightarrow> (int \<times> alpha_signal_t) list \<Rightarrow> alpha_fixture_t" where
  "fixture_of c bars signals = \<lparr>fx_config = c, fx_prices = Some (map snd bars), fx_dates = Some (map fst bars), fx_bar_count = length bars,
     fx_signal_days = Some (map fst signals), fx_signal_values = Some (map snd signals), fx_signal_count = length signals\<rparr>"

definition writable_config :: "alpha_backtest_config_t \<Rightarrow> bool" where
  "writable_config c \<longleftrightarrow> c_str (cfg_ticker c) = cfg_ticker c \<and> length (cfg_ticker c) < ALPHA_TICKER_CAP
     \<and> c_str (cfg_strategy c) = cfg_strategy c \<and> length (cfg_strategy c) < ALPHA_STRATEGY_CAP
     \<and> printable_day (train_start c) \<and> printable_day (train_end c) \<and> printable_day (test_start c) \<and> printable_day (test_end c)
     \<and> - (2 ^ 63) \<le> initial_capital c \<and> initial_capital c < 2 ^ 63 \<and> - (2 ^ 31) \<le> slippage_bps c \<and> slippage_bps c < 2 ^ 31"

lemma iso_day_parse:
  assumes "printable_day d"
  shows "alpha_date_parse (Some (iso_day d)) True = (ALPHA_OK, Some d)"
proof -
  obtain t where t: "valid_date t" "day_number t = d" using day_number_surj by blast
  obtain y m k where "t = (y, m, k)" using prod_cases3 .
  with t have v: "valid_date (y, m, k)" "day_number (y, m, k) = d" by simp_all
  note b = valid_date_month_day [OF v(1)]
  have c: "civil_from_days d = (y, word_of_int m, word_of_int k)" using civil_from_day_number [OF v(1)] v(2) by simp
  then have y: "0 \<le> y" "y < 10000" using assms by (simp_all add: printable_day_def)
  then show ?thesis using alpha_date_parse_fmt [OF y b] c v(2)
    by (simp add: iso_day_def alpha_date_format_def snprintf_def)
qed

text \<open>A text that is read as a date has no zero byte.\<close>

lemma parse_digits_nonzero: "parse_digits s n v = Some w \<Longrightarrow> CHR 0x00 \<notin> set (take n s)"
  by (induction s n v rule: parse_digits.induct) (auto split: if_splits)

lemma date_c_str:
  assumes "alpha_date_parse (Some s) True = (ALPHA_OK, x)"
  shows "c_str s = s"
proof -
  have l: "length s = 10" "s ! 4 = CHR ''-''" "s ! 7 = CHR ''-''"
    and p: "parse_digits s 4 0 \<noteq> None" "parse_digits (drop 5 s) 2 0 \<noteq> None" "parse_digits (drop 8 s) 2 0 \<noteq> None"
    using assms by (auto simp: alpha_date_parse_def split: if_splits option.splits)
  obtain c0 c1 c2 c3 c4 c5 c6 c7 c8 c9 where s: "s = [c0, c1, c2, c3, c4, c5, c6, c7, c8, c9]"
    using l(1) by (auto simp: numeral_eq_Suc length_Suc_conv)
  have "CHR 0x00 \<notin> set (take 4 s)" "CHR 0x00 \<notin> set (take 2 (drop 5 s))" "CHR 0x00 \<notin> set (take 2 (drop 8 s))"
    using p parse_digits_nonzero by blast+
  then have "CHR 0x00 \<notin> set s" using l(2,3) by (simp add: s)
  then show ?thesis by (rule c_str_id)
qed

lemma iso_day_str: "printable_day d \<Longrightarrow> c_str (iso_day d) = iso_day d"
  using date_c_str [OF iso_day_parse] .

lemma copy_bounded_id: "length s < cap \<Longrightarrow> copy_bounded s cap = s"
  by (simp add: copy_bounded_def)

lemma get_sint_j_int: "- (2 ^ 63) \<le> n \<Longrightarrow> n < 2 ^ 63 \<Longrightarrow> yyjson_get_sint (Some (j_int n)) = n"
  by (simp add: j_int_def)

lemma int_of_i64_id: "- (2 ^ 31) \<le> n \<Longrightarrow> n < 2 ^ 31 \<Longrightarrow> int_of_i64 n = n"
  by (simp add: int_of_i64_def)

lemma parse_signal_name: "parse_signal (c_str (signal_name s)) = (ALPHA_OK, Some s)"
  by (cases s) (simp_all add: parse_signal_def c_str_def)

lemma parse_config_json:
  assumes "writable_config c"
  shows "parse_config (Some (config_json c)) = (ALPHA_OK, Some c)"
proof -
  have w: "c_str (cfg_ticker c) = cfg_ticker c" "length (cfg_ticker c) < ALPHA_TICKER_CAP"
    "c_str (cfg_strategy c) = cfg_strategy c" "length (cfg_strategy c) < ALPHA_STRATEGY_CAP"
    "- (2 ^ 63) \<le> initial_capital c" "initial_capital c < 2 ^ 63" "- (2 ^ 31) \<le> slippage_bps c" "slippage_bps c < 2 ^ 31"
    and p: "printable_day (train_start c)" "printable_day (train_end c)" "printable_day (test_start c)" "printable_day (test_end c)"
    using assms by (simp_all add: writable_config_def)
  have s: "yyjson_get_sint (Some (j_int (slippage_bps c))) = slippage_bps c" using w(7,8) by (intro get_sint_j_int) simp_all
  have d: "parse_dates (Some (config_json c)) [''train_start'', ''train_end'', ''test_start'', ''test_end'']
      = Some [train_start c, train_end c, test_start c, test_end c]"
    by (simp add: config_json_def iso_day_str [OF p(1)] iso_day_str [OF p(2)] iso_day_str [OF p(3)] iso_day_str [OF p(4)]
        iso_day_parse [OF p(1)] iso_day_parse [OF p(2)] iso_day_parse [OF p(3)] iso_day_parse [OF p(4)])
  have o: "yyjson_is_obj (Some (config_json c))" by (simp add: config_json_def)
  have g: "yyjson_get_str (yyjson_obj_get (Some (config_json c)) ''ticker'') = Some (cfg_ticker c)"
    "yyjson_get_str (yyjson_obj_get (Some (config_json c)) ''strategy'') = Some (cfg_strategy c)"
    "yyjson_obj_get (Some (config_json c)) ''initial_capital'' = Some (j_int (initial_capital c))"
    "yyjson_obj_get (Some (config_json c)) ''commission_rate_pct'' = Some (J_Real (commission_rate_pct c))"
    "yyjson_obj_get (Some (config_json c)) ''tax_rate_pct'' = Some (J_Real (tax_rate_pct c))"
    "yyjson_obj_get (Some (config_json c)) ''slippage_bps'' = Some (j_int (slippage_bps c))"
    by (simp_all add: config_json_def w)
  show ?thesis
    by (simp only: parse_config_def o g d prod.case option.case list.case get_sint_j_int [OF w(5,6)] s int_of_i64_id [OF w(7,8)]
        copy_bounded_id [OF w(2)] copy_bounded_id [OF w(4)] yyjson_get_num.simps) simp
qed

lemma bars_loop_json: "list_all (\<lambda>b. printable_day (fst b)) bars \<Longrightarrow> bars_loop (map bar_json bars) = Some bars"
  by (induction bars) (simp_all add: bar_json_def iso_day_str iso_day_parse)

lemma signals_loop_json: "list_all (\<lambda>s. printable_day (fst s)) signals \<Longrightarrow> signals_loop (map signal_json signals) = Some signals"
  by (induction signals) (simp_all add: signal_json_def iso_day_str iso_day_parse parse_signal_name)

lemma bars_loop_length: "bars_loop elems = Some rows \<Longrightarrow> length rows = length elems"
  by (induction elems arbitrary: rows) (auto split: prod.splits alpha_err_t.splits option.splits)

lemma signals_loop_length: "signals_loop members = Some rows \<Longrightarrow> length rows = length members"
proof (induction members arbitrary: rows)
  case (Cons m members)
  obtain k v where m: "m = (k, v)" by fastforce
  obtain r rest where "rows = r # rest" "signals_loop members = Some rest"
    using Cons.prems unfolding m by (auto split: prod.splits alpha_err_t.splits option.splits)
  then show ?case using Cons.IH by simp
qed simp

lemma replay_scan_map_of: "replay_scan table d = (case map_of table d of Some s \<Rightarrow> s | None \<Rightarrow> ALPHA_SIGNAL_HOLD)"
  by (induction table d rule: replay_scan.induct) auto

text \<open>The arrays of a loaded fixture have the lengths that the engine and the replay source are told, and its texts fit.\<close>

definition fixture_ok :: "alpha_fixture_t \<Rightarrow> bool" where
  "fixture_ok f \<longleftrightarrow>
     map_option length (fx_prices f) = Some (fx_bar_count f) \<and> map_option length (fx_dates f) = Some (fx_bar_count f)
     \<and> (case (fx_signal_days f, fx_signal_values f) of
          (None, None) \<Rightarrow> fx_signal_count f = 0
        | (Some days, Some values) \<Rightarrow> length days = fx_signal_count f \<and> length values = fx_signal_count f
        | _ \<Rightarrow> False)
     \<and> length (cfg_ticker (fx_config f)) < ALPHA_TICKER_CAP \<and> length (cfg_strategy (fx_config f)) < ALPHA_STRATEGY_CAP
     \<and> - (2 ^ 31) \<le> slippage_bps (fx_config f) \<and> slippage_bps (fx_config f) < 2 ^ 31"

lemma parse_config_ok:
  assumes "parse_config cfg = (st, c)"
  shows "st = ALPHA_OK \<longleftrightarrow> c \<noteq> None"
    and "c = Some x \<Longrightarrow> length (cfg_ticker x) < ALPHA_TICKER_CAP \<and> length (cfg_strategy x) < ALPHA_STRATEGY_CAP
      \<and> - (2 ^ 31) \<le> slippage_bps x \<and> slippage_bps x < 2 ^ 31"
  using assms pos_mod_bound [of "2 ^ 32 :: int"] pos_mod_sign [of "2 ^ 32 :: int"]
  by (auto simp: parse_config_def copy_bounded_def int_of_i64_def ALPHA_TICKER_CAP_def ALPHA_STRATEGY_CAP_def Let_def
      split: if_splits option.splits list.splits)

text \<open>The document after the checks on the path and the file.\<close>

lemma alpha_fixture_load_steps:
  assumes "alpha_fixture_load read alloc (Some p) True = (st, Some f)"
  shows "st = ALPHA_OK \<and> fixture_ok f \<or> st \<noteq> ALPHA_OK \<and> f = fixture_zero"
proof (cases "st = ALPHA_OK")
  case False
  then show ?thesis using assms
    by (auto simp: alpha_fixture_load_def alpha_fixture_free_def Let_def case_prod_beta split: option.splits if_splits)
next
  case True
  then obtain r where r: "read p = Some r" "yyjson_is_obj (Some r)"
    using assms by (auto simp: alpha_fixture_load_def Let_def split: option.splits if_splits)
  obtain s1 c where c: "parse_config (yyjson_obj_get (Some r) ''config'') = (s1, c)" by fastforce
  have "s1 = ALPHA_OK" using assms True r c by (auto simp: alpha_fixture_load_def Let_def split: if_splits)
  then obtain x where x: "c = Some x" using parse_config_ok(1) [OF c] by auto
  let ?f1 = "fixture_zero\<lparr>fx_config := x\<rparr>"
  obtain s2 f2 where b: "parse_bars alloc (yyjson_obj_get (Some r) ''bars'') ?f1 = (s2, f2)" by fastforce
  have "s2 = ALPHA_OK" using assms True r c x \<open>s1 = ALPHA_OK\<close> b by (auto simp: alpha_fixture_load_def Let_def split: if_splits)
  then obtain elems rows where rows: "bars_loop elems = Some rows"
    "f2 = ?f1\<lparr>fx_bar_count := length elems, fx_prices := Some (map snd rows), fx_dates := Some (map fst rows)\<rparr>"
    using b by (auto simp: parse_bars_def split: option.splits yyjson_val.splits if_splits)
  have s: "parse_signals alloc (yyjson_obj_get (Some r) ''signals'') f2 = (ALPHA_OK, f)"
    using assms True r c x \<open>s1 = ALPHA_OK\<close> b \<open>s2 = ALPHA_OK\<close> by (auto simp: alpha_fixture_load_def Let_def split: if_splits prod.splits)
  have "f = f2 \<or> (\<exists>members rows. signals_loop members = Some rows
      \<and> f = f2\<lparr>fx_signal_count := length members, fx_signal_days := Some (map fst rows), fx_signal_values := Some (map snd rows)\<rparr>)"
    using s by (auto simp: parse_signals_def split: option.splits yyjson_val.splits if_splits)
  then show ?thesis using True rows bars_loop_length [OF rows(1)] signals_loop_length parse_config_ok(2) [OF c x]
    by (auto simp: fixture_ok_def fixture_zero_def)
qed

section \<open>Examples\<close>

definition all_allocated :: fixture_alloc_t where
  "all_allocated = \<lparr>ok_prices = True, ok_dates = True, ok_days = True, ok_values = True\<rparr>"

definition example_fixture_config :: alpha_backtest_config_t where
  "example_fixture_config = \<lparr>cfg_ticker = ''005930'', cfg_strategy = ''A'', train_start = 19000, train_end = 19100, test_start = 19200,
     test_end = 19300, initial_capital = 1000000, commission_rate_pct = 0, tax_rate_pct = 0, slippage_bps = 3\<rparr>"

section \<open>Properties\<close>

text \<open>
  C30. Loading a fixture inverts writing it: the document of a configuration, its bars and its signals, with the days
  written as dates, is loaded as exactly these, and the replay source of the loaded fixture gives, for a day of the run, the
  first signal of the table for that day, or holds.
\<close>

theorem fixture_roundtrip:
  assumes "writable_config c" "list_all (\<lambda>b. printable_day (fst b)) bars" "list_all (\<lambda>s. printable_day (fst s)) signals"
    and "read p = Some (fixture_json c bars signals)"
  shows "alpha_fixture_load read all_allocated (Some p) True = (ALPHA_OK, Some (fixture_of c bars signals))
    \<and> alpha_replay_signal (alpha_fixture_replay (fixture_of c bars signals)) d prices n position
        = (case map_of signals d of Some s \<Rightarrow> s | None \<Rightarrow> ALPHA_SIGNAL_HOLD, signals)"
proof
  have g: "yyjson_is_obj (Some (fixture_json c bars signals))"
    "yyjson_obj_get (Some (fixture_json c bars signals)) ''config'' = Some (config_json c)"
    "yyjson_obj_get (Some (fixture_json c bars signals)) ''bars'' = Some (J_Arr (map bar_json bars))"
    "yyjson_obj_get (Some (fixture_json c bars signals)) ''signals'' = Some (J_Obj (map signal_json signals))"
    by (simp_all add: fixture_json_def)
  show "alpha_fixture_load read all_allocated (Some p) True = (ALPHA_OK, Some (fixture_of c bars signals))"
    by (simp add: alpha_fixture_load_def assms(4) g parse_config_json [OF assms(1)] parse_bars_def parse_signals_def all_allocated_def
        bars_loop_json [OF assms(2)] signals_loop_json [OF assms(3)] fixture_zero_def fixture_of_def)
  show "alpha_replay_signal (alpha_fixture_replay (fixture_of c bars signals)) d prices n position
      = (case map_of signals d of Some s \<Rightarrow> s | None \<Rightarrow> ALPHA_SIGNAL_HOLD, signals)"
    by (simp add: alpha_replay_signal_def alpha_fixture_replay_def fixture_of_def zip_map_fst_snd replay_scan_map_of)
qed

theorem fixture_roundtrip_witness:
  "alpha_fixture_load (\<lambda>p. if p = ''f'' then Some (fixture_json example_fixture_config [(19250, 1)] [(19250, ALPHA_SIGNAL_BUY)]) else None)
     all_allocated (Some ''f'') True = (ALPHA_OK, Some (fixture_of example_fixture_config [(19250, 1)] [(19250, ALPHA_SIGNAL_BUY)]))"
proof -
  have "writable_config example_fixture_config" by code_simp
  moreover have "printable_day 19250" by code_simp
  ultimately show ?thesis
    using fixture_roundtrip [of example_fixture_config "[(19250, 1)]" "[(19250, ALPHA_SIGNAL_BUY)]"
        "\<lambda>p. if p = ''f'' then Some (fixture_json example_fixture_config [(19250, 1)] [(19250, ALPHA_SIGNAL_BUY)]) else None" "''f''"]
    by simp
qed

text \<open>
  C31. A fixture is loaded whole or not at all: whatever the document and the outcome of the allocations, either an error is
  returned and the fixture is zeroed, or the price and date arrays have the announced number of bars, the two arrays of the
  signal table the announced number of signals, and the ticker and the strategy fit their buffers.
\<close>

theorem fixture_load_sound:
  assumes "alpha_fixture_load read alloc (Some p) True = (st, Some f)"
  shows "if st = ALPHA_OK then fixture_ok f else f = fixture_zero"
  using alpha_fixture_load_steps [OF assms] by auto

theorem fixture_load_sound_witness:
  "fixture_zero = the (snd (alpha_fixture_load (\<lambda>p. Some J_Null) all_allocated (Some ''f'') True))"
proof -
  have l: "alpha_fixture_load (\<lambda>p. Some J_Null) all_allocated (Some ''f'') True = (ALPHA_ERR_INVALID_ARG, Some fixture_zero)"
    by (simp add: alpha_fixture_load_def alpha_fixture_free_def)
  show ?thesis using fixture_load_sound [OF l] l by simp
qed

end
