(* ===== verification/Runners.thy ===== *)
theory Runners
  imports Backtest_Fixture Backtest_Solvency Blending Risk_Gates
begin

text \<open>
  The command line programs that drive the core: \<^verbatim>\<open>core/apps/backtest_runner.c\<close>, \<^verbatim>\<open>blend_runner.c\<close>
  and \<^verbatim>\<open>risk_runner.c\<close>, and the initialisation in \<^verbatim>\<open>core/src/alpha.c\<close>. A program returns its exit code
  and what it writes to the standard output; \<open>None\<close> is undefined behaviour, or a program that does not end. The
  benchmark commands read the clocks of the system, which are arguments.
\<close>

section \<open>Initialisation\<close>

text \<open>The results of \<^verbatim>\<open>fesetround\<close> and \<^verbatim>\<open>fegetround\<close>, the second as whether it is rounding to nearest.\<close>

definition alpha_initialize :: "int \<Rightarrow> bool \<Rightarrow> alpha_err_t" where
  "alpha_initialize fesetround fegetround_nearest = (if fesetround \<noteq> 0 \<or> \<not> fegetround_nearest then ALPHA_ERR_RANGE else ALPHA_OK)"

definition ALPHA_ABI_VERSION :: int where "ALPHA_ABI_VERSION = 1"

definition alpha_abi_version :: int where "alpha_abi_version = ALPHA_ABI_VERSION"

section \<open>Printing\<close>

text \<open>\<^verbatim>\<open>"%.*g"\<close> with a positive precision: the value is rounded to that many significant digits, ties to even; the
  decimal exponent of the rounded value decides between the two styles, and trailing zeros go.\<close>

definition ilog10 :: "rat \<Rightarrow> int" where
  "ilog10 x = (if x \<ge> 1 then int (length (dec_digits \<lfloor>x\<rfloor>)) - 1 else - int (length (dec_digits (\<lceil>1 / x\<rceil> - 1))))"

definition significant :: "nat \<Rightarrow> rat \<Rightarrow> int \<times> int" where
  "significant p x =
     (let e = ilog10 x; n = rne (x * 10 powi (int p - 1 - e))
      in if n = 10 ^ p then (10 ^ (p - 1), e + 1) else (n, e))"

definition strip_zeros :: "string \<Rightarrow> string" where
  "strip_zeros s =
     (if CHR ''.'' \<in> set s
      then let t = rev (dropWhile (\<lambda>c. c = CHR ''0'') (rev s)) in if last t = CHR ''.'' then butlast t else t
      else s)"

definition fmt_exponent :: "int \<Rightarrow> string" where
  "fmt_exponent e = CHR ''e'' # (if e < 0 then CHR ''-'' else CHR ''+'') # pad 2 (dec_digits \<bar>e\<bar>)"

definition printf_g :: "nat \<Rightarrow> double \<Rightarrow> string" where
  "printf_g p d =
     (case d of NaN \<Rightarrow> ''nan'' | PInf \<Rightarrow> ''inf'' | NInf \<Rightarrow> ''-inf''
      | _ \<Rightarrow> (if signbit d then ''-'' else []) @
          (if val d = 0 then ''0''
           else case significant p \<bar>val d\<bar> of (n, e) \<Rightarrow>
             if e < - 4 \<or> e \<ge> int p then strip_zeros (fmt_fixed (p - 1) n) @ fmt_exponent e
             else strip_zeros (fmt_fixed (nat (int p - 1 - e)) n)))"

section \<open>Measuring\<close>

text \<open>The readings of \<^verbatim>\<open>CLOCK_MONOTONIC\<close> in seconds and nanoseconds, those of \<^verbatim>\<open>clock\<close>, the maximal resident set in
  kilobytes, as Linux has it, and the outcomes of the allocations of the samples.\<close>

record bench_world =
  bw_monotonic :: "nat \<Rightarrow> int \<times> int"
  bw_clock :: "nat \<Rightarrow> int"
  bw_maxrss :: int
  bw_malloc :: bool

definition monotonic_ms :: "bench_world \<Rightarrow> nat \<Rightarrow> double" where
  "monotonic_ms bw i = (case bw_monotonic bw i of (sec, nsec) \<Rightarrow> of_i64 sec * lit 1000 + of_i64 nsec / lit 1000000)"

definition peak_rss_bytes :: "bench_world \<Rightarrow> int" where
  "peak_rss_bytes bw = bw_maxrss bw * 1024"

definition CLOCKS_PER_SEC :: double where "CLOCKS_PER_SEC = lit 1000000"

definition cpu_ms :: "bench_world \<Rightarrow> double" where
  "cpu_ms bw = of_i64 (bw_clock bw 1 - bw_clock bw 0) / CLOCKS_PER_SEC * lit 1000"

definition print_samples :: "double list \<Rightarrow> string" where
  "print_samples samples = concat (map (\<lambda>(t, d). (if t = 0 then [] else '','') @ printf_g 10 d) (enumerate 0 samples))"

section \<open>The backtest runner\<close>

record outcome =
  exit_code :: int
  stdout :: string

text \<open>The C library function \<^verbatim>\<open>pow\<close>, the allocations and the scratch memory of a run are those of the engine.\<close>

definition run_once ::
    "(double \<Rightarrow> double \<Rightarrow> double) \<Rightarrow> alloc_t \<Rightarrow> int list \<Rightarrow> alpha_fixture_t \<Rightarrow> (int \<times> alpha_backtest_result_t option) option" where
  "run_once pow_d alloc scratch fixture =
     (let replay = alpha_fixture_replay fixture;
          cost = alpha_cost_model_make (commission_rate_pct (fx_config fixture)) (tax_rate_pct (fx_config fixture))
                   (slippage_bps (fx_config fixture))
      in map_option (\<lambda>(st, result). (if st = ALPHA_OK then 0 else 1, result))
           (alpha_backtest_run pow_d alloc scratch (Some (fx_config fixture)) (fx_prices fixture) (fx_dates fixture)
              (fx_bar_count fixture) (Some alpha_replay_signal) replay (Some cost) True))"

definition report :: "alpha_backtest_result_t \<Rightarrow> string" where
  "report result =
     (let m = r_metrics result
      in ''{\"bars\":'' @ dec_digits (int (length (r_snapshots result)))
         @ '',\"trades\":'' @ dec_digits (int (length (r_trades result)))
         @ '',\"final_portfolio_value\":'' @ printf_g 10 (if r_snapshots result \<noteq> [] then sn_portfolio_value (last (r_snapshots result)) else 0)
         @ '',\"total_return_pct\":'' @ printf_f 4 (total_return_pct m)
         @ '',\"annual_return_pct\":'' @ printf_f 4 (annual_return_pct m)
         @ '',\"sharpe_ratio\":'' @ printf_f 4 (sharpe_ratio m)
         @ '',\"max_drawdown_pct\":'' @ printf_f 4 (max_drawdown_pct m)
         @ '',\"win_rate\":'' @ printf_f 4 (win_rate m)
         @ '',\"avg_holding_days\":'' @ printf_f 1 (avg_holding_days m)
         @ '',\"baseline_return_pct\":'' @ printf_f 4 (baseline_return_pct m)
         @ '',\"excess_return_pct\":'' @ printf_f 4 (excess_return_pct m) @ ''}'' @ [CHR 0x0A])"

definition backtest_cmd_run :: "(double \<Rightarrow> double \<Rightarrow> double) \<Rightarrow> alloc_t \<Rightarrow> int list \<Rightarrow> alpha_fixture_t \<Rightarrow> outcome option" where
  "backtest_cmd_run pow_d alloc scratch fixture =
     (case run_once pow_d alloc scratch fixture of
        None \<Rightarrow> None
      | Some (rc, result) \<Rightarrow>
          (case (rc = 0, result) of
             (True, Some r) \<Rightarrow> Some \<lparr>exit_code = 0, stdout = report r\<rparr>
           | _ \<Rightarrow> Some \<lparr>exit_code = 1, stdout = []\<rparr>))"

text \<open>The benchmark: \<open>allocs\<close> gives the allocations and the scratch memory of each run, \<open>c\<close> counts the readings of the clock and
  \<open>r\<close> the runs. The number of runs is doubled until they take a second, and doubling may overflow.\<close>

fun bench_runs ::
    "(double \<Rightarrow> double \<Rightarrow> double) \<Rightarrow> (nat \<Rightarrow> alloc_t \<times> int list) \<Rightarrow> alpha_fixture_t \<Rightarrow> nat \<Rightarrow> nat \<Rightarrow> bool option" where
  "bench_runs pow_d allocs fixture 0 r = Some True"
| "bench_runs pow_d allocs fixture (Suc n) r =
     (case run_once pow_d (fst (allocs r)) (snd (allocs r)) fixture of
        None \<Rightarrow> None
      | Some (rc, result) \<Rightarrow> if rc \<noteq> 0 then Some False else bench_runs pow_d allocs fixture n (r + 1))"

partial_function (option) bench_scale ::
    "bench_world \<Rightarrow> (nat \<Rightarrow> nat \<Rightarrow> bool option) \<Rightarrow> int \<Rightarrow> nat \<Rightarrow> nat \<Rightarrow> (int \<times> nat \<times> nat) option option" where
  "bench_scale bw runs iterations c r =
     (case runs (nat iterations) r of
        None \<Rightarrow> None
      | Some ok \<Rightarrow>
          if \<not> ok then Some None
          else if monotonic_ms bw (c + 1) - monotonic_ms bw c \<ge> lit 1000 then Some (Some (iterations, c + 2, r + nat iterations))
          else if iterations * 2 \<ge> 2 ^ 63 then None
          else bench_scale bw runs (iterations * 2) (c + 2) (r + nat iterations))"

fun bench_trials :: "bench_world \<Rightarrow> (nat \<Rightarrow> nat \<Rightarrow> bool option) \<Rightarrow> int \<Rightarrow> nat \<Rightarrow> nat \<Rightarrow> nat \<Rightarrow> double list option option" where
  "bench_trials bw runs iterations 0 c r = Some (Some [])"
| "bench_trials bw runs iterations (Suc n) c r =
     (case runs (nat iterations) r of
        None \<Rightarrow> None
      | Some ok \<Rightarrow>
          if \<not> ok then Some None
          else map_option (map_option ((#) (monotonic_ms bw (c + 1) - monotonic_ms bw c)))
                 (bench_trials bw runs iterations n (c + 2) (r + nat iterations)))"

definition backtest_cmd_bench ::
    "bench_world \<Rightarrow> (double \<Rightarrow> double \<Rightarrow> double) \<Rightarrow> (nat \<Rightarrow> alloc_t \<times> int list) \<Rightarrow> alpha_fixture_t \<Rightarrow> outcome option" where
  "backtest_cmd_bench bw pow_d allocs fixture =
     (let runs = bench_runs pow_d allocs fixture; failed = \<lparr>exit_code = 1, stdout = []\<rparr>
      in case bench_scale bw runs 1 0 0 of
           None \<Rightarrow> None
         | Some None \<Rightarrow> Some failed
         | Some (Some (iterations, c, r)) \<Rightarrow>
             if \<not> bw_malloc bw then Some failed
             else (case bench_trials bw runs iterations 10 c r of
               None \<Rightarrow> None
             | Some None \<Rightarrow> Some failed
             | Some (Some totals) \<Rightarrow>
                 Some \<lparr>exit_code = 0, stdout = ''{\"iterations_per_trial\":'' @ fmt_int iterations
                        @ '',\"samples_ms\":['' @ print_samples (map (\<lambda>d. d / of_i64 iterations) totals)
                        @ ''],\"trial_totals_ms\":['' @ print_samples totals
                        @ ''],\"peak_rss_bytes\":'' @ fmt_int (peak_rss_bytes bw)
                        @ '',\"cpu_time_ms\":'' @ printf_g 10 (cpu_ms bw / (of_i64 10 * of_i64 iterations)) @ ''}'' @ [CHR 0x0A]\<rparr>))"

definition backtest_main ::
    "(string \<Rightarrow> yyjson_val option) \<Rightarrow> fixture_alloc_t \<Rightarrow> (double \<Rightarrow> double \<Rightarrow> double) \<Rightarrow> alloc_t \<Rightarrow> int list \<Rightarrow>
     bench_world \<Rightarrow> (nat \<Rightarrow> alloc_t \<times> int list) \<Rightarrow> alpha_err_t \<Rightarrow> string list \<Rightarrow> outcome option" where
  "backtest_main read fx_alloc pow_d alloc scratch bw allocs initialized argv =
     (case argv of
        [prog, cmd, path] \<Rightarrow>
          if initialized \<noteq> ALPHA_OK then Some \<lparr>exit_code = 1, stdout = []\<rparr>
          else (case alpha_fixture_load read fx_alloc (Some path) True of
            (ALPHA_OK, Some fixture) \<Rightarrow>
              if cmd = ''run'' then backtest_cmd_run pow_d alloc scratch fixture
              else if cmd = ''bench'' then backtest_cmd_bench bw pow_d allocs fixture
              else Some \<lparr>exit_code = 2, stdout = []\<rparr>
          | _ \<Rightarrow> Some \<lparr>exit_code = 1, stdout = []\<rparr>)
      | _ \<Rightarrow> Some \<lparr>exit_code = 2, stdout = []\<rparr>)"

section \<open>The blend runner\<close>

definition SLOT0 :: "alpha_signal_t list" where "SLOT0 = [ALPHA_SIGNAL_BUY, ALPHA_SIGNAL_SELL, ALPHA_SIGNAL_HOLD]"

definition SLOT1 :: "alpha_signal_t list" where "SLOT1 = [ALPHA_SIGNAL_HOLD, ALPHA_SIGNAL_BUY, ALPHA_SIGNAL_SELL]"

definition SLOT2 :: "alpha_signal_t list" where "SLOT2 = [ALPHA_SIGNAL_SELL, ALPHA_SIGNAL_HOLD, ALPHA_SIGNAL_BUY]"

text \<open>The index of a case is a number from zero on, so the divisions of C are those of the integers. The largest product,
  \<open>i * 3\<close>, overflows for the largest indices, which is undefined.\<close>

definition blend_input :: "int \<Rightarrow> int \<Rightarrow> alpha_signal_t \<Rightarrow> alpha_blend_input_t" where
  "blend_input i j signal =
     \<lparr>bi_signal = signal, bi_confidence = of_i64 ((i * (j + 1)) mod 100) / lit 100, bi_weight = of_i64 ((i + j) mod 5 + 1)\<rparr>"

definition blend_case :: "int \<Rightarrow> alpha_signal_t option" where
  "blend_case i =
     (if i * 3 \<ge> 2 ^ 63 then None
      else Some (br_signal (alpha_blend_signals (Some
        [blend_input i 0 (SLOT0 ! nat (i mod 3)), blend_input i 1 (SLOT1 ! nat (i div 3 mod 3)), blend_input i 2 (SLOT2 ! nat (i div 9 mod 3))]))))"

text \<open>The loop counts up; \<open>n\<close> cases are left from \<open>i\<close> on.\<close>

fun blend_loop :: "nat \<Rightarrow> int \<Rightarrow> int \<Rightarrow> int option" where
  "blend_loop 0 i buys = Some buys"
| "blend_loop (Suc n) i buys =
     (case blend_case i of None \<Rightarrow> None
      | Some s \<Rightarrow> blend_loop n (i + 1) (if s = ALPHA_SIGNAL_BUY then buys + 1 else buys))"

definition blend_run_batch :: "int \<Rightarrow> int option" where
  "blend_run_batch cnt = blend_loop (nat cnt) 0 0"

definition blend_cmd_run :: "int \<Rightarrow> outcome option" where
  "blend_cmd_run cnt =
     map_option (\<lambda>buys. \<lparr>exit_code = 0, stdout = ''{\"count\":'' @ fmt_int cnt @ '',\"buy_checksum\":'' @ fmt_int buys @ ''}'' @ [CHR 0x0A]\<rparr>)
       (blend_run_batch cnt)"

fun blend_trials :: "bench_world \<Rightarrow> int \<Rightarrow> nat \<Rightarrow> nat \<Rightarrow> 64 word \<Rightarrow> (64 word \<times> double list) option" where
  "blend_trials bw cnt 0 c sink = Some (sink, [])"
| "blend_trials bw cnt (Suc n) c sink =
     (case blend_run_batch cnt of
        None \<Rightarrow> None
      | Some buys \<Rightarrow>
          map_option (\<lambda>(sink, samples). (sink, (monotonic_ms bw (c + 1) - monotonic_ms bw c) # samples))
            (blend_trials bw cnt n (c + 2) (sink + word_of_int buys)))"

definition blend_cmd_bench :: "bench_world \<Rightarrow> int \<Rightarrow> outcome option" where
  "blend_cmd_bench bw cnt =
     (case blend_run_batch cnt of
        None \<Rightarrow> None
      | Some buys \<Rightarrow>
          if \<not> bw_malloc bw then Some \<lparr>exit_code = 1, stdout = []\<rparr>
          else map_option (\<lambda>(sink, samples).
                 \<lparr>exit_code = 0, stdout = ''{\"count\":'' @ fmt_int cnt @ '',\"buy_checksum\":'' @ fmt_int buys
                    @ '',\"samples_ms\":['' @ print_samples samples @ ''],\"peak_rss_bytes\":'' @ fmt_int (peak_rss_bytes bw)
                    @ '',\"cpu_time_ms\":'' @ printf_g 10 (cpu_ms bw / of_i64 10) @ '',\"sink\":'' @ dec_digits (uint sink) @ ''}'' @ [CHR 0x0A]\<rparr>)
               (blend_trials bw cnt 10 0 0))"

definition blend_main :: "bench_world \<Rightarrow> alpha_err_t \<Rightarrow> string list \<Rightarrow> outcome option" where
  "blend_main bw initialized argv =
     (case argv of
        [prog, cmd, number] \<Rightarrow>
          if initialized \<noteq> ALPHA_OK then Some \<lparr>exit_code = 1, stdout = []\<rparr>
          else
            let cnt = fst (strtoll number)
            in if cnt \<le> 0 then Some \<lparr>exit_code = 2, stdout = []\<rparr>
               else if cmd = ''run'' then blend_cmd_run cnt
               else if cmd = ''bench'' then blend_cmd_bench bw cnt
               else Some \<lparr>exit_code = 2, stdout = []\<rparr>
      | _ \<Rightarrow> Some \<lparr>exit_code = 2, stdout = []\<rparr>)"

section \<open>The risk runner\<close>

record risk_counts_t =
  take_profit :: int
  stop_loss :: int
  daily_blocked :: int
  buy_allowed :: int

definition risk_position :: "int \<Rightarrow> alpha_position_t" where
  "risk_position i = \<lparr>pos_ticker = [], pos_quantity = 1, avg_fill_price = lit 100, current_price = lit 90 + of_i64 (i mod 21)\<rparr>"

text \<open>One turn of the loop: what the case adds to the four counters. \<open>i * 7\<close> may overflow.\<close>

definition risk_step :: "int \<Rightarrow> risk_counts_t \<Rightarrow> risk_counts_t option" where
  "risk_step i result =
     (if i * 7 \<ge> 2 ^ 63 then None
      else
        let config = alpha_risk_config_default;
            exit = fst (alpha_check_rule_based_exit (risk_position i) config False);
            blocked = alpha_is_daily_loss_blocked (of_i64 (i mod 9 - 5)) config;
            existing = of_i64 (i mod 25) * lit 100;
            intended = of_i64 ((i * 7) mod 20 + 1) * lit 100;
            tot = lit 10000 + of_i64 (i mod 100) * lit 100;
            denominator = alpha_max_position_denominator (i mod 2 = 0) tot (lit 10000) intended;
            allowed = fst (alpha_max_position_allows_buy config existing intended denominator False)
        in Some \<lparr>take_profit = take_profit result + (if exit = ALPHA_EXIT_TAKE_PROFIT then 1 else 0),
                 stop_loss = stop_loss result + (if exit = ALPHA_EXIT_STOP_LOSS then 1 else 0),
                 daily_blocked = daily_blocked result + (if blocked then 1 else 0),
                 buy_allowed = buy_allowed result + (if allowed then 1 else 0)\<rparr>)"

fun risk_loop :: "nat \<Rightarrow> int \<Rightarrow> risk_counts_t \<Rightarrow> risk_counts_t option" where
  "risk_loop 0 i result = Some result"
| "risk_loop (Suc n) i result = (case risk_step i result of None \<Rightarrow> None | Some result \<Rightarrow> risk_loop n (i + 1) result)"

definition risk_run_batch :: "int \<Rightarrow> risk_counts_t option" where
  "risk_run_batch cnt = risk_loop (nat cnt) 0 \<lparr>take_profit = 0, stop_loss = 0, daily_blocked = 0, buy_allowed = 0\<rparr>"

definition checksum :: "risk_counts_t \<Rightarrow> 64 word" where
  "checksum v = word_of_int (take_profit v) * 1000000009 + word_of_int (stop_loss v) * 1000003
     + word_of_int (daily_blocked v) * 1009 + word_of_int (buy_allowed v)"

definition print_counts :: "risk_counts_t \<Rightarrow> string" where
  "print_counts v = ''\"take_profit\":'' @ fmt_int (take_profit v) @ '',\"stop_loss\":'' @ fmt_int (stop_loss v)
     @ '',\"daily_blocked\":'' @ fmt_int (daily_blocked v) @ '',\"buy_allowed\":'' @ fmt_int (buy_allowed v)"

fun risk_trials :: "bench_world \<Rightarrow> int \<Rightarrow> nat \<Rightarrow> nat \<Rightarrow> 64 word \<Rightarrow> (64 word \<times> double list) option" where
  "risk_trials bw cnt 0 c sink = Some (sink, [])"
| "risk_trials bw cnt (Suc n) c sink =
     (case risk_run_batch cnt of
        None \<Rightarrow> None
      | Some counts \<Rightarrow>
          map_option (\<lambda>(sink, samples). (sink, (monotonic_ms bw (c + 1) - monotonic_ms bw c) # samples))
            (risk_trials bw cnt n (c + 2) (sink + checksum counts)))"

definition risk_bench :: "bench_world \<Rightarrow> int \<Rightarrow> risk_counts_t \<Rightarrow> outcome option" where
  "risk_bench bw cnt counts =
     map_option (\<lambda>(sink, samples).
       \<lparr>exit_code = 0, stdout = ''{\"count\":'' @ fmt_int cnt @ '',\"counts\":{'' @ print_counts counts
          @ ''},\"checksum\":'' @ dec_digits (uint (checksum counts)) @ '',\"samples_ms\":['' @ print_samples samples
          @ ''],\"peak_rss_bytes\":'' @ fmt_int (peak_rss_bytes bw) @ '',\"cpu_time_ms\":'' @ printf_g 10 (cpu_ms bw / of_i64 10)
          @ '',\"sink\":'' @ dec_digits (uint sink) @ ''}'' @ [CHR 0x0A]\<rparr>)
     (risk_trials bw cnt 10 0 0)"

definition risk_main :: "bench_world \<Rightarrow> string list \<Rightarrow> outcome option" where
  "risk_main bw argv =
     (case argv of
        [prog, cmd, number] \<Rightarrow>
          let cnt = fst (strtoll number)
          in if cnt \<le> 0 then Some \<lparr>exit_code = 2, stdout = []\<rparr>
             else (case risk_run_batch cnt of
               None \<Rightarrow> None
             | Some counts \<Rightarrow>
                 if cmd = ''run'' then
                   Some \<lparr>exit_code = 0, stdout = ''{\"count\":'' @ fmt_int cnt @ '',\"counts\":{'' @ print_counts counts
                          @ ''},\"checksum\":'' @ dec_digits (uint (checksum counts)) @ ''}'' @ [CHR 0x0A]\<rparr>
                 else if cmd \<noteq> ''bench'' then Some \<lparr>exit_code = 2, stdout = []\<rparr>
                 else risk_bench bw cnt counts)
      | _ \<Rightarrow> Some \<lparr>exit_code = 2, stdout = []\<rparr>)"

section \<open>Batches repeat\<close>

text \<open>The sink of a benchmark is ten times the checksum of its batch, so it does not depend on the clock.\<close>

lemma blend_trials_sink: "blend_run_batch cnt = Some buys \<Longrightarrow>
    \<exists>samples. blend_trials bw cnt n c sink = Some (sink + of_nat n * word_of_int buys, samples) \<and> length samples = n"
proof (induction n arbitrary: c sink)
  case (Suc n)
  from Suc.IH [OF Suc.prems, of "c + 2" "sink + word_of_int buys"] show ?case using Suc.prems by (auto simp: algebra_simps)
qed simp

lemma risk_trials_sink: "risk_run_batch cnt = Some counts \<Longrightarrow>
    \<exists>samples. risk_trials bw cnt n c sink = Some (sink + of_nat n * checksum counts, samples) \<and> length samples = n"
proof (induction n arbitrary: c sink)
  case (Suc n)
  from Suc.IH [OF Suc.prems, of "c + 2" "sink + checksum counts"] show ?case using Suc.prems by (auto simp: algebra_simps)
qed simp

text \<open>A case of the blend runner only depends on its index modulo 2700.\<close>

lemma blend_case_period: "0 \<le> i \<Longrightarrow> (i + 2700) * 3 < 2 ^ 63 \<Longrightarrow> blend_case (i + 2700) = blend_case i"
proof -
  assume i: "0 \<le> i" "(i + 2700) * 3 < 2 ^ 63"
  have d: "(i + 2700) div 3 = i div 3 + 900" "(i + 2700) div 9 = i div 9 + 300"
    using div_mult_self2 [of 3 i 900] div_mult_self2 [of 9 i 300] by simp_all
  have m: "(i + 2700) mod 3 = i mod 3" "(i div 3 + 900) mod 3 = i div 3 mod 3" "(i div 9 + 300) mod 3 = i div 9 mod 3"
    using mod_mult_self2 [of i 3 900] mod_mult_self2 [of "i div 3" 3 300] mod_mult_self2 [of "i div 9" 3 100] by simp_all
  have b: "blend_input (i + 2700) j s = blend_input i j s" for j s
  proof -
    have "((i + 2700) * (j + 1)) mod 100 = (i * (j + 1)) mod 100" using mod_mult_self2 [of "i * (j + 1)" 100 "27 * (j + 1)"] by (simp add: algebra_simps)
    moreover have "(i + 2700 + j) mod 5 = (i + j) mod 5" using mod_mult_self2 [of "i + j" 5 540] by (simp add: algebra_simps)
    ultimately show ?thesis by (simp only: blend_input_def)
  qed
  have "i * 3 < 2 ^ 63" using i(2) by (simp add: algebra_simps)
  then show ?thesis using i(2) unfolding blend_case_def b d m by (simp only: not_le [symmetric] if_False simp_thms)
qed

lemma blend_loop_add: "blend_loop (m + n) i b = Option.bind (blend_loop m i b) (blend_loop n (i + int m))"
  by (induction m i b rule: blend_loop.induct) (auto split: option.splits simp: algebra_simps)

lemma blend_loop_start: "blend_loop n i b = map_option ((+) b) (blend_loop n i 0)"
proof (induction n arbitrary: i b)
  case (Suc n)
  show ?case
  proof (cases "blend_case i")
    case (Some s)
    show ?thesis using Suc [of "i + 1" "b + 1"] Suc [of "i + 1" 1] Suc [of "i + 1" b] Some
      by (cases "blend_loop n (i + 1) 0") auto
  qed simp
qed simp

lemma blend_loop_defined: "0 \<le> i \<Longrightarrow> (i + int n) * 3 < 2 ^ 63 \<Longrightarrow> blend_loop n i b \<noteq> None"
proof (induction n arbitrary: i b)
  case (Suc n)
  then have "blend_case i \<noteq> None" "(i + 1 + int n) * 3 < 2 ^ 63" by (simp_all add: blend_case_def)
  then show ?case using Suc.IH [of "i + 1"] Suc.prems(1) by auto
qed simp

lemma blend_loop_period: "0 \<le> i \<Longrightarrow> (i + 2700 + int n) * 3 < 2 ^ 63 \<Longrightarrow> blend_loop n (i + 2700) b = blend_loop n i b"
proof (induction n arbitrary: i b)
  case (Suc n)
  have "blend_case (i + 2700) = blend_case i" using Suc.prems by (intro blend_case_period) (simp_all add: algebra_simps)
  moreover have "blend_loop n (i + 1 + 2700) c = blend_loop n (i + 1) c" for c using Suc.prems by (intro Suc.IH) (simp_all add: algebra_simps)
  ultimately show ?case by (simp add: algebra_simps split: option.split)
qed simp

text \<open>The count of a batch is fixed by one period.\<close>

lemma blend_batch_step:
  assumes "0 \<le> n" "(n + 2700) * 3 < 2 ^ 63"
  shows "blend_run_batch (n + 2700) = Some (the (blend_run_batch 2700) + the (blend_run_batch n))"
proof -
  obtain p where p: "blend_loop 2700 0 0 = Some p" using blend_loop_defined [of 0 2700 0] by auto
  obtain r where r: "blend_loop (nat n) 0 0 = Some r" using blend_loop_defined [of 0 "nat n" 0] assms by auto
  have "nat (n + 2700) = 2700 + nat n" using assms(1) by simp
  moreover have "blend_loop (nat n) 2700 p = blend_loop (nat n) 0 p" using blend_loop_period [of 0 "nat n" p] assms by (simp add: algebra_simps)
  moreover have "blend_loop (nat n) 0 p = Some (p + r)" using blend_loop_start [of "nat n" 0 p] r by simp
  ultimately show ?thesis using p r blend_loop_add [of 2700 "nat n" 0 0] by (simp add: blend_run_batch_def)
qed

section \<open>The risk counters\<close>

definition risk_sane :: "int \<Rightarrow> risk_counts_t \<Rightarrow> bool" where
  "risk_sane n v \<longleftrightarrow> 0 \<le> take_profit v \<and> 0 \<le> stop_loss v \<and> take_profit v + stop_loss v \<le> n
     \<and> 0 \<le> daily_blocked v \<and> daily_blocked v \<le> n \<and> 0 \<le> buy_allowed v \<and> buy_allowed v \<le> n"

lemma risk_step_sane: "risk_sane n v \<Longrightarrow> risk_step i v = Some w \<Longrightarrow> risk_sane (n + 1) w"
  by (auto simp: risk_sane_def risk_step_def Let_def split: if_splits)

lemma risk_loop_sane: "risk_loop k i v = Some w \<Longrightarrow> risk_sane n v \<Longrightarrow> risk_sane (n + int k) w"
proof (induction k arbitrary: i v n)
  case (Suc k)
  then obtain u where u: "risk_step i v = Some u" "risk_loop k (i + 1) u = Some w" by (auto split: option.splits)
  from Suc.IH [OF u(2) risk_step_sane [OF Suc.prems(2) u(1)]] show ?case by (simp add: algebra_simps)
qed simp

lemma risk_loop_defined: "0 \<le> i \<Longrightarrow> (i + int k) * 7 < 2 ^ 63 \<Longrightarrow> risk_loop k i v \<noteq> None"
proof (induction k arbitrary: i v)
  case (Suc k)
  then have "risk_step i v \<noteq> None" "(i + 1 + int k) * 7 < 2 ^ 63" by (simp_all add: risk_step_def Let_def)
  then show ?case using Suc.IH [of "i + 1"] Suc.prems(1) by auto
qed simp

lemma uint64_of_int: "0 \<le> k \<Longrightarrow> k < 2 ^ 64 \<Longrightarrow> uint (word_of_int k :: 64 word) = k"
  by (simp add: unsigned_of_int take_bit_int_eq_self)

text \<open>Up to \<open>2^33\<close> cases the checksum does not wrap around.\<close>

lemma checksum_exact:
  assumes "risk_sane n v" "n \<le> 2 ^ 33"
  shows "uint (checksum v) = take_profit v * 1000000009 + stop_loss v * 1000003 + daily_blocked v * 1009 + buy_allowed v"
proof -
  let ?s = "take_profit v * 1000000009 + stop_loss v * 1000003 + daily_blocked v * 1009 + buy_allowed v"
  have "checksum v = word_of_int ?s" by (simp add: checksum_def)
  moreover have "0 \<le> ?s" "?s < 2 ^ 64" using assms by (simp_all add: risk_sane_def)
  ultimately show ?thesis by (simp only: uint64_of_int)
qed

section \<open>Properties\<close>

text \<open>
  The checksum of the blend benchmark is fixed by one period of its cases: for every count that does not overflow, the
  batch returns, and the number of buy decisions among \<open>2700 * q + r\<close> cases is \<open>q\<close> times that of the first 2700 cases plus that
  of the first \<open>r\<close> cases.
\<close>

lemma blend_batch_periodic:
  assumes "0 \<le> r" "(2700 * int q + r) * 3 < 2 ^ 63"
  shows "blend_run_batch (2700 * int q + r) = Some (int q * the (blend_run_batch 2700) + the (blend_run_batch r))"
  using assms(2)
proof (induction q)
  case 0
  then show ?case using assms(1) blend_loop_defined [of 0 "nat r" 0] by (auto simp: blend_run_batch_def)
next
  case (Suc q)
  have "(2700 * int q + r) * 3 < 2 ^ 63" using Suc.prems by simp
  from Suc.IH [OF this] have "blend_run_batch (2700 * int q + r) = Some (int q * the (blend_run_batch 2700) + the (blend_run_batch r))" .
  moreover have "2700 * int (Suc q) + r = 2700 * int q + r + 2700" by simp
  moreover have "0 \<le> 2700 * int q + r" using assms(1) by simp
  ultimately show ?case using blend_batch_step [of "2700 * int q + r"] Suc.prems by (simp add: algebra_simps)
qed

text \<open>
  The counters of the risk benchmark are sound: for every count whose products do not overflow, the batch returns; no
  counter exceeds the number of cases, no case is counted both as a profit taken and as a loss stopped, and up to
  \<open>2^33\<close> cases the printed checksum is the weighted sum of the counters, without wrapping around.
\<close>

lemma risk_batch_sound:
  assumes "0 \<le> n" "n * 7 < 2 ^ 63"
  shows "\<exists>v. risk_run_batch n = Some v \<and> risk_sane n v \<and>
    (n \<le> 2 ^ 33 \<longrightarrow> uint (checksum v) = take_profit v * 1000000009 + stop_loss v * 1000003 + daily_blocked v * 1009 + buy_allowed v)"
proof -
  obtain v where v: "risk_run_batch n = Some v" using risk_loop_defined [of 0 "nat n"] assms by (auto simp: risk_run_batch_def)
  have "risk_sane 0 \<lparr>take_profit = 0, stop_loss = 0, daily_blocked = 0, buy_allowed = 0\<rparr>" by (simp add: risk_sane_def)
  from risk_loop_sane [OF v [unfolded risk_run_batch_def] this] have "risk_sane n v" using assms(1) by simp
  then show ?thesis using v checksum_exact by blast
qed

end
