(* ===== verification/Redis_Cache.thy ===== *)
theory Redis_Cache
  imports C_Text Market_Hours
begin

text \<open>
  The synchronous Redis driver (\<^verbatim>\<open>core/platform/cache/redis_cache.c\<close>): the cache of the latest
  ticks, the reader of the holiday calendars and the lockout of the circuit breaker. The hiredis library
  and the server behind it are a parameter: a function from the state of the connection and a
  command to the reply, \<open>None\<close> for a null reply, and the state after it. The format strings of
  \<^verbatim>\<open>redisCommand\<close> are written out as the argument lists they produce.
\<close>

section \<open>The code\<close>

datatype redis_reply =
    REDIS_REPLY_NIL
  | REDIS_REPLY_STRING string
  | REDIS_REPLY_STATUS string
  | REDIS_REPLY_ERROR string
  | REDIS_REPLY_INTEGER int
  | REDIS_REPLY_ARRAY "redis_reply list"

type_synonym 'c redis_command = "'c \<Rightarrow> string list \<Rightarrow> redis_reply option \<times> 'c"

record 'c alpha_redis_t =
  ctx :: 'c

definition redis_call :: "'c redis_command \<Rightarrow> 'c alpha_redis_t \<Rightarrow> string list \<Rightarrow> redis_reply option \<times> 'c alpha_redis_t" where
  "redis_call redisCommand redis args = (case redisCommand (ctx redis) args of (reply, c) \<Rightarrow> (reply, redis\<lparr>ctx := c\<rparr>))"

definition KEY_CAP :: nat where "KEY_CAP = 96"

definition MAX_HOLIDAYS :: nat where "MAX_HOLIDAYS = 512"

definition ALPHA_TTL_LATEST_TICKS :: int where "ALPHA_TTL_LATEST_TICKS = 60"

text \<open>\<open>snprintf\<close> into a key buffer; the code gives up when the text would be cut.\<close>

definition key_buf :: "string \<Rightarrow> alpha_err_t \<times> string" where
  "key_buf s = (if length s \<ge> KEY_CAP then ALPHA_ERR_RANGE else ALPHA_OK, snprintf KEY_CAP s)"

definition breaker_key :: "string option \<Rightarrow> alpha_err_t \<times> string" where
  "breaker_key scope =
     (case scope of None \<Rightarrow> (ALPHA_ERR_INVALID_ARG, [])
      | Some s \<Rightarrow> if s = [] then (ALPHA_ERR_INVALID_ARG, []) else key_buf (''hard_stop:lockout:'' @ s))"

definition parse_epoch :: "string \<Rightarrow> int option" where
  "parse_epoch s =
     (case strtoll s of (parsed, err, rest) \<Rightarrow>
        if err \<or> rest = s \<or> char_at rest \<noteq> CHR 0x00 \<or> parsed \<le> 0 then None else Some parsed)"

definition redis_server_time :: "'c redis_command \<Rightarrow> 'c alpha_redis_t \<Rightarrow> alpha_err_t \<times> int option \<times> 'c alpha_redis_t" where
  "redis_server_time redisCommand redis =
     (case redis_call redisCommand redis [''TIME''] of (reply, redis) \<Rightarrow>
        case reply of
          Some (REDIS_REPLY_ARRAY [REDIS_REPLY_STRING s, _]) \<Rightarrow>
            (case parse_epoch (c_str s) of
               None \<Rightarrow> (ALPHA_ERR_IO, None, redis)
             | Some epoch \<Rightarrow> (ALPHA_OK, Some epoch, redis))
        | _ \<Rightarrow> (ALPHA_ERR_IO, None, redis))"

text \<open>The driver has its own copies of the two civil date conversions.\<close>

definition redis_days_from_civil :: "int \<Rightarrow> 32 word \<Rightarrow> 32 word \<Rightarrow> int" where
  "redis_days_from_civil year month day =
     (let year = year - (if month \<le> 2 then 1 else 0);
          era = (if year \<ge> 0 then year else year - 399) sdiv 400;
          yoe = word_of_int (year - era * 400) :: 32 word;
          doy = (153 * (month + (if month > 2 then - 3 else 9)) + 2) div 5 + day - 1;
          doe = yoe * 365 + yoe div 4 - yoe div 100 + doy
      in era * 146097 + uint doe - 719468)"

definition civil_year_from_days :: "int \<Rightarrow> int" where
  "civil_year_from_days epoch_day =
     (let z = epoch_day + 719468;
          era = (if z \<ge> 0 then z else z - 146096) sdiv 146097;
          doe = word_of_int (z - era * 146097) :: 32 word;
          yoe = (doe - doe div 1460 + doe div 36524 - doe div 146096) div 365;
          year = uint yoe + era * 400;
          doy = doe - (365 * yoe + yoe div 4 - yoe div 100);
          mp = (5 * doy + 2) div 153;
          month = mp + (if mp < 10 then 3 else - 9)
      in year + (if month \<le> 2 then 1 else 0))"

definition skip_space :: "string \<Rightarrow> string" where
  "skip_space cursor = dropWhile is_space cursor"

fun parse_fixed_decimal :: "string \<Rightarrow> nat \<Rightarrow> 32 word \<Rightarrow> 32 word option" where
  "parse_fixed_decimal s 0 parsed = Some parsed"
| "parse_fixed_decimal s (Suc n) parsed =
     (if \<not> is_digit (char_at s) then None
      else parse_fixed_decimal (tl s) n (parsed * 10 + word_of_int (int (of_char (char_at s)) - 48)))"

text \<open>The checks on one entry, and the loop over the entries. The result is the list of days and
  the cursor at the closing bracket; the cursor moves on by at least twelve characters a round.\<close>

definition holiday_entry :: "int \<Rightarrow> string \<Rightarrow> int list \<Rightarrow> int option" where
  "holiday_entry expected_year cursor days =
     (if length days = MAX_HOLIDAYS \<or> length cursor < 12 \<or> cursor ! 0 \<noteq> CHR 0x22 \<or> cursor ! 5 \<noteq> CHR ''-''
         \<or> cursor ! 8 \<noteq> CHR ''-'' \<or> cursor ! 11 \<noteq> CHR 0x22 then None
      else case (parse_fixed_decimal (drop 1 cursor) 4 0, parse_fixed_decimal (drop 6 cursor) 2 0,
                 parse_fixed_decimal (drop 9 cursor) 2 0) of
        (Some year, Some month, Some day) \<Rightarrow>
          if year \<noteq> word_of_int expected_year \<or> month < 1 \<or> month > 12 \<or> day < 1 \<or> day > 31 then None
          else let epoch_day = redis_days_from_civil (uint year) month day
               in if civil_year_from_days epoch_day \<noteq> uint year \<or> (days \<noteq> [] \<and> epoch_day \<le> last days) then None
                  else Some epoch_day
      | _ \<Rightarrow> None)"

lemma length_skip_space: "length (skip_space s) \<le> length s"
  by (simp add: skip_space_def length_dropWhile_le)

lemma holiday_entry_length: "holiday_entry y s days = Some d \<Longrightarrow> 12 \<le> length s"
  by (simp add: holiday_entry_def split: if_splits)

function holiday_loop :: "int \<Rightarrow> string \<Rightarrow> int list \<Rightarrow> (int list \<times> string) option" where
  "holiday_loop expected_year cursor days =
     (if char_at cursor = CHR '']'' then Some (days, cursor)
      else case holiday_entry expected_year cursor days of
        None \<Rightarrow> None
      | Some epoch_day \<Rightarrow>
          let cursor' = skip_space (drop 12 cursor)
          in if char_at cursor' = CHR '','' then
               holiday_loop expected_year (skip_space (drop 1 cursor')) (days @ [epoch_day])
             else if char_at cursor' \<noteq> CHR '']'' then None
             else holiday_loop expected_year cursor' (days @ [epoch_day]))"
  by pat_completeness auto

termination
proof (relation "measure (\<lambda>(y, s, days). length s)", goal_cases)
  case (2 y s days d t)
  then show ?case
    using holiday_entry_length [of y s days d] length_skip_space [of "drop 12 s"] length_skip_space [of "drop 1 t"] by simp
next
  case (3 y s days d t)
  then show ?case using holiday_entry_length [of y s days d] length_skip_space [of "drop 12 s"] by simp
qed simp

declare holiday_loop.simps [simp del]

definition parse_holiday_json :: "string \<Rightarrow> int \<Rightarrow> int list option" where
  "parse_holiday_json json expected_year =
     (let cursor = skip_space json
      in if char_at cursor \<noteq> CHR ''['' then None
         else case holiday_loop expected_year (skip_space (drop 1 cursor)) [] of
           None \<Rightarrow> None
         | Some (days, cursor) \<Rightarrow>
             if char_at (skip_space (drop 1 cursor)) \<noteq> CHR 0x00 then None else Some days)"

definition load_calendar :: "'c redis_command \<Rightarrow> 'c alpha_redis_t \<Rightarrow> int \<Rightarrow> alpha_err_t \<times> int list \<times> 'c alpha_redis_t" where
  "load_calendar redisCommand redis year =
     (let (st, key) = key_buf (''krx:holidays:'' @ fmt_int year)
      in if st \<noteq> ALPHA_OK then (ALPHA_ERR_RANGE, [], redis)
         else case redis_call redisCommand redis [''GET'', key] of (reply, redis) \<Rightarrow>
           case reply of
             Some (REDIS_REPLY_STRING s) \<Rightarrow>
               (case parse_holiday_json (c_str s) year of
                  None \<Rightarrow> (ALPHA_ERR_IO, [], redis)
                | Some days \<Rightarrow>
                    (case redis_call redisCommand redis [''TTL'', key] of (ttl, redis) \<Rightarrow>
                       case ttl of
                         Some (REDIS_REPLY_INTEGER n) \<Rightarrow> (if n > 0 then ALPHA_OK else ALPHA_ERR_IO, days, redis)
                       | _ \<Rightarrow> (ALPHA_ERR_IO, days, redis)))
           | _ \<Rightarrow> (ALPHA_ERR_IO, [], redis))"

text \<open>\<open>redisConnect\<close> gives a context with an error flag, or none; the second argument says
  whether \<^verbatim>\<open>malloc\<close> succeeds. The third component is the contexts given to \<^verbatim>\<open>redisFree\<close>.\<close>

definition alpha_redis_connect ::
    "(string \<Rightarrow> int \<Rightarrow> ('c \<times> bool) option) \<Rightarrow> bool \<Rightarrow> string option \<Rightarrow> int \<Rightarrow> bool \<Rightarrow>
     alpha_err_t \<times> 'c alpha_redis_t option \<times> 'c list" where
  "alpha_redis_connect redisConnect malloc_ok host port out =
     (case host of None \<Rightarrow> (ALPHA_ERR_INVALID_ARG, None, [])
      | Some h \<Rightarrow>
          if \<not> out then (ALPHA_ERR_INVALID_ARG, None, [])
          else case redisConnect h port of
            None \<Rightarrow> (ALPHA_ERR_IO, None, [])
          | Some (c, err) \<Rightarrow>
              if err then (ALPHA_ERR_IO, None, [c])
              else if \<not> malloc_ok then (ALPHA_ERR_IO, None, [c])
              else (ALPHA_OK, Some \<lparr>ctx = c\<rparr>, []))"

definition alpha_redis_close :: "'c alpha_redis_t option \<Rightarrow> 'c list" where
  "alpha_redis_close redis = (case redis of None \<Rightarrow> [] | Some r \<Rightarrow> [ctx r])"

definition reply_is_ok :: "redis_reply option \<Rightarrow> bool" where
  "reply_is_ok reply =
     (case reply of None \<Rightarrow> False | Some (REDIS_REPLY_STATUS s) \<Rightarrow> c_str s = ''OK'' | Some _ \<Rightarrow> False)"

text \<open>The operations: a null pointer argument is \<open>None\<close>, respectively \<open>False\<close> for an output; an
  output that is not written is \<open>None\<close>.\<close>

definition alpha_redis_set_latest_tick ::
    "'c redis_command \<Rightarrow> 'c alpha_redis_t option \<Rightarrow> string option \<Rightarrow> string option \<Rightarrow> alpha_err_t \<times> 'c alpha_redis_t option" where
  "alpha_redis_set_latest_tick redisCommand redis ticker payload =
     (case (redis, ticker, payload) of
        (Some r, Some t, Some p) \<Rightarrow>
          let (st, key) = key_buf (''redis:cache:latest_ticks:'' @ t)
          in if st \<noteq> ALPHA_OK then (ALPHA_ERR_RANGE, redis)
             else case redis_call redisCommand r [''SET'', key, p, ''EX'', fmt_int ALPHA_TTL_LATEST_TICKS] of
               (reply, r) \<Rightarrow> (if reply_is_ok reply then ALPHA_OK else ALPHA_ERR_IO, Some r)
      | _ \<Rightarrow> (ALPHA_ERR_INVALID_ARG, redis))"

text \<open>The bytes written to the buffer, its terminating zero left out, and the flag.\<close>

definition alpha_redis_get_latest_tick ::
    "'c redis_command \<Rightarrow> 'c alpha_redis_t option \<Rightarrow> string option \<Rightarrow> bool \<Rightarrow> nat \<Rightarrow> bool \<Rightarrow>
     alpha_err_t \<times> string option \<times> bool option \<times> 'c alpha_redis_t option" where
  "alpha_redis_get_latest_tick redisCommand redis ticker out n has_value =
     (case (redis, ticker) of
        (Some r, Some t) \<Rightarrow>
          if \<not> out \<or> \<not> has_value \<or> n = 0 then (ALPHA_ERR_INVALID_ARG, None, None, redis)
          else
            let (st, key) = key_buf (''redis:cache:latest_ticks:'' @ t)
            in if st \<noteq> ALPHA_OK then (ALPHA_ERR_RANGE, None, None, redis)
               else case redis_call redisCommand r [''GET'', key] of (reply, r) \<Rightarrow>
                 case reply of
                   None \<Rightarrow> (ALPHA_ERR_IO, None, None, Some r)
                 | Some REDIS_REPLY_NIL \<Rightarrow> (ALPHA_OK, None, Some False, Some r)
                 | Some (REDIS_REPLY_STRING s) \<Rightarrow>
                     let len = (if length s \<ge> n then n - 1 else length s)
                     in (ALPHA_OK, Some (take len s), Some True, Some r)
                 | _ \<Rightarrow> (ALPHA_ERR_IO, None, None, Some r)
      | _ \<Rightarrow> (ALPHA_ERR_INVALID_ARG, None, None, redis))"

definition alpha_redis_set_breaker_lockout ::
    "'c redis_command \<Rightarrow> 'c alpha_redis_t option \<Rightarrow> string option \<Rightarrow> int \<Rightarrow> int \<Rightarrow> alpha_err_t \<times> 'c alpha_redis_t option" where
  "alpha_redis_set_breaker_lockout redisCommand redis scope now_epoch expires_at_epoch =
     (case (redis, scope) of
        (Some r, Some s) \<Rightarrow>
          if expires_at_epoch \<le> now_epoch then (ALPHA_ERR_INVALID_ARG, redis)
          else
            let (status, key) = breaker_key scope
            in if status \<noteq> ALPHA_OK then (status, redis)
               else case redis_server_time redisCommand r of (status, server_now, r) \<Rightarrow>
                 if status \<noteq> ALPHA_OK then (status, Some r)
                 else if expires_at_epoch \<le> the server_now then (ALPHA_ERR_INVALID_ARG, Some r)
                 else case redis_call redisCommand r
                        [''SET'', key, fmt_int expires_at_epoch, ''EXAT'', fmt_int expires_at_epoch] of
                   (reply, r) \<Rightarrow> (if reply_is_ok reply then ALPHA_OK else ALPHA_ERR_IO, Some r)
      | _ \<Rightarrow> (ALPHA_ERR_INVALID_ARG, redis))"

text \<open>The calendar part of the lockout until the next session: the expiry, with the second calendar
  loaded when the first does not reach far enough.\<close>

definition next_session_expiry ::
    "'c redis_command \<Rightarrow> 'c alpha_redis_t \<Rightarrow> int \<Rightarrow> alpha_err_t \<times> int \<times> 'c alpha_redis_t" where
  "next_session_expiry redisCommand r now_epoch =
     (let kst_day = (now_epoch + ALPHA_KST_OFFSET_SECONDS) sdiv SECONDS_PER_DAY;
          year = civil_year_from_days kst_day
      in case load_calendar redisCommand r year of (status, holidays, r) \<Rightarrow>
        if status \<noteq> ALPHA_OK then (status, 0, r)
        else
          let expiry = alpha_next_trading_session_start_holiday_aware now_epoch holidays
                         (redis_days_from_civil year 12 31)
          in if expiry = ALPHA_SESSION_CALENDAR_INSUFFICIENT then
               case load_calendar redisCommand r (year + 1) of (status, next_holidays, r) \<Rightarrow>
                 if status \<noteq> ALPHA_OK \<or> length holidays + length next_holidays > MAX_HOLIDAYS
                 then (ALPHA_ERR_IO, 0, r)
                 else (ALPHA_OK, alpha_next_trading_session_start_holiday_aware now_epoch
                         (holidays @ next_holidays) (redis_days_from_civil (year + 1) 12 31), r)
             else (ALPHA_OK, expiry, r))"

definition alpha_redis_set_breaker_lockout_next_session ::
    "'c redis_command \<Rightarrow> 'c alpha_redis_t option \<Rightarrow> string option \<Rightarrow> int \<Rightarrow> bool \<Rightarrow>
     alpha_err_t \<times> int option \<times> 'c alpha_redis_t option" where
  "alpha_redis_set_breaker_lockout_next_session redisCommand redis scope now_epoch expires_at_out =
     (case (redis, scope) of
        (Some r, Some s) \<Rightarrow>
          (case redis_server_time redisCommand r of (status, server_now, r) \<Rightarrow>
             if status \<noteq> ALPHA_OK then (status, None, Some r)
             else if now_epoch < the server_now - 5 \<or> now_epoch > the server_now + 5
             then (ALPHA_ERR_INVALID_ARG, None, Some r)
             else case next_session_expiry redisCommand r now_epoch of (status, expiry, r) \<Rightarrow>
               if status \<noteq> ALPHA_OK then (status, None, Some r)
               else if expiry = ALPHA_SESSION_CALENDAR_INSUFFICIENT \<or> expiry \<le> the server_now
               then (ALPHA_ERR_IO, None, Some r)
               else case alpha_redis_set_breaker_lockout redisCommand (Some r) scope now_epoch expiry of
                 (status, r) \<Rightarrow>
                   (status, if status = ALPHA_OK \<and> expires_at_out then Some expiry else None, r))
      | _ \<Rightarrow> (ALPHA_ERR_INVALID_ARG, None, redis))"

definition alpha_redis_is_breaker_locked ::
    "'c redis_command \<Rightarrow> 'c alpha_redis_t option \<Rightarrow> string option \<Rightarrow> bool \<Rightarrow> bool \<Rightarrow>
     alpha_err_t \<times> bool option \<times> int option \<times> 'c alpha_redis_t option" where
  "alpha_redis_is_breaker_locked redisCommand redis scope locked expires_at_out =
     (case (redis, scope) of
        (Some r, Some s) \<Rightarrow>
          if \<not> locked then (ALPHA_ERR_INVALID_ARG, None, None, redis)
          else
            let (status, key) = breaker_key scope
            in if status \<noteq> ALPHA_OK then (status, None, None, redis)
               else case redis_call redisCommand r [''GET'', key] of (reply, r) \<Rightarrow>
                 case reply of
                   None \<Rightarrow> (ALPHA_ERR_IO, None, None, Some r)
                 | Some REDIS_REPLY_NIL \<Rightarrow> (ALPHA_OK, Some False, None, Some r)
                 | Some (REDIS_REPLY_STRING v) \<Rightarrow>
                     (case parse_epoch (c_str v) of
                        None \<Rightarrow> (ALPHA_ERR_IO, Some True, None, Some r)
                      | Some expiry \<Rightarrow>
                          (case redis_server_time redisCommand r of (status, server_now, r) \<Rightarrow>
                             if status \<noteq> ALPHA_OK then (ALPHA_ERR_IO, Some True, None, Some r)
                             else case redis_call redisCommand r [''TTL'', key] of (ttl_reply, r) \<Rightarrow>
                               case ttl_reply of
                                 Some (REDIS_REPLY_INTEGER ttl) \<Rightarrow>
                                   if ttl \<le> 0 \<or> expiry \<le> the server_now \<or> expiry - the server_now < ttl
                                      \<or> expiry - the server_now > ttl + 1
                                   then (ALPHA_ERR_IO, Some True, None, Some r)
                                   else (ALPHA_OK, Some True, if expires_at_out then Some expiry else None, Some r)
                               | _ \<Rightarrow> (ALPHA_ERR_IO, Some True, None, Some r)))
                 | _ \<Rightarrow> (ALPHA_ERR_IO, None, None, Some r)
      | _ \<Rightarrow> (ALPHA_ERR_INVALID_ARG, None, None, redis))"

definition alpha_redis_clear_breaker_lockout ::
    "'c redis_command \<Rightarrow> 'c alpha_redis_t option \<Rightarrow> string option \<Rightarrow> alpha_err_t \<times> 'c alpha_redis_t option" where
  "alpha_redis_clear_breaker_lockout redisCommand redis scope =
     (case (redis, scope) of
        (Some r, Some s) \<Rightarrow>
          let (status, key) = breaker_key scope
          in if status \<noteq> ALPHA_OK then (status, redis)
             else (case redis_call redisCommand r [''DEL'', key] of (reply, r) \<Rightarrow>
               (if reply = None then ALPHA_ERR_IO else ALPHA_OK, Some r))
      | _ \<Rightarrow> (ALPHA_ERR_INVALID_ARG, redis))"

section \<open>The civil date copies\<close>

lemma redis_days_from_civil_same: "redis_days_from_civil = days_from_civil"
  by (simp add: fun_eq_iff redis_days_from_civil_def days_from_civil_def)

lemma civil_year_same: "civil_year_from_days z = fst (civil_from_days z)"
  by (simp add: civil_year_from_days_def civil_from_days_def Let_def)

lemma civil_year_day_number: "valid_date (y, m, d) \<Longrightarrow> civil_year_from_days (day_number (y, m, d)) = y"
  by (simp add: civil_year_same civil_from_day_number)

lemma parse_fixed_decimal_digits:
  "parse_fixed_decimal s n (word_of_int v) = map_option word_of_int (parse_digits s n v)"
proof (induction n arbitrary: s v)
  case (Suc n)
  show ?case
  proof (cases s)
    case Nil
    then show ?thesis by (simp add: is_digit_def)
  next
    case (Cons c t)
    have "word_of_int v * 10 + word_of_int (int (of_char c) - 48) = (word_of_int (v * 10 + (int (of_char c) - 48)) :: 32 word)"
      by (simp only: of_int_add of_int_mult of_int_numeral)
    then show ?thesis using Suc.IH [of t "v * 10 + (int (of_char c) - 48)"] Cons by (simp add: is_digit_def not_le)
  qed
qed simp

section \<open>The calendar parser\<close>

lemma parse_digits_bounds:
  "parse_digits s n v = Some w \<Longrightarrow> 0 \<le> v \<Longrightarrow> 0 \<le> w \<and> w < (v + 1) * 10 ^ n"
proof (induction s n v rule: parse_digits.induct)
  case (3 c s n v)
  let ?d = "int (of_char c) - 48"
  have d: "0 \<le> ?d" "?d \<le> 9" "parse_digits s n (v * 10 + ?d) = Some w"
    using "3.prems"(1) by (auto split: if_splits)
  then have ih: "0 \<le> w" "w < (v * 10 + ?d + 1) * 10 ^ n"
    using "3.IH" "3.prems" by (auto split: if_splits)
  have "v * 10 + ?d + 1 \<le> (v + 1) * 10" using d(2) by simp
  then have "(v * 10 + ?d + 1) * 10 ^ n \<le> (v + 1) * 10 * 10 ^ n" by (intro mult_right_mono) simp_all
  then have "w < (v + 1) * 10 * 10 ^ n" using ih(2) by linarith
  with ih(1) show ?case unfolding power_Suc mult.assoc by blast
qed auto

lemma holiday_entry_Some:
  assumes "holiday_entry y s days = Some d" "- (2 ^ 31) \<le> y" "y < 2 ^ 31"
  shows "civil_year_from_days d = y \<and> (days \<noteq> [] \<longrightarrow> last days < d) \<and> length days \<noteq> MAX_HOLIDAYS"
proof -
  obtain yr where yr: "parse_fixed_decimal (drop 1 s) 4 0 = Some yr" "yr = word_of_int y" "civil_year_from_days d = uint yr"
    "days \<noteq> [] \<longrightarrow> last days < d" "length days \<noteq> MAX_HOLIDAYS"
    using assms(1) by (auto simp: holiday_entry_def Let_def not_le split: if_splits option.splits)
  have "map_option word_of_int (parse_digits (drop 1 s) 4 0) = Some yr"
    using parse_fixed_decimal_digits [of "drop 1 s" 4 0] yr(1) by simp
  then obtain w where w: "parse_digits (drop 1 s) 4 0 = Some w" "yr = word_of_int w" by auto
  have "0 \<le> w" "w < 10000" using parse_digits_bounds [OF w(1)] by simp_all
  then have u: "uint yr = w" by (simp add: w(2) uint32_of_int)
  have "y mod 2 ^ 32 = w" using u yr(2) by (simp add: uint_word_of_int take_bit_eq_mod)
  moreover have "y mod 2 ^ 32 = y + 2 ^ 32" if "y < 0"
    using that assms(2) mod_pos_pos_trivial [of "y + 2 ^ 32" "2 ^ 32"] by simp
  ultimately have "y = w" using assms(2,3) \<open>w < 10000\<close> by (cases "y < 0") simp_all
  with yr u show ?thesis by simp
qed

lemma sorted_wrt_snoc: "sorted_wrt (<) (xs @ [x]) \<longleftrightarrow> sorted_wrt (<) xs \<and> (xs \<noteq> [] \<longrightarrow> last xs < (x :: int))"
proof (cases "xs = []")
  case False
  have "\<forall>y\<in>set xs. y \<le> last xs" if "sorted_wrt (<) xs"
    using that strict_sorted_imp_sorted [of xs] by (metis False in_set_conv_nth last_conv_nth length_greater_0_conv diff_less less_numeral_extra(1) sorted_nth_mono le_simps(2) Suc_diff_1)
  then show ?thesis using False by (fastforce simp: sorted_wrt_append)
qed simp

lemma holiday_loop_Some:
  assumes "holiday_loop y s days = Some (ds, r)" "- (2 ^ 31) \<le> y" "y < 2 ^ 31"
    and "sorted_wrt (<) days" "\<forall>d\<in>set days. civil_year_from_days d = y" "length days \<le> MAX_HOLIDAYS"
  shows "sorted_wrt (<) ds \<and> (\<forall>d\<in>set ds. civil_year_from_days d = y) \<and> length ds \<le> MAX_HOLIDAYS"
  using assms
proof (induction y s days rule: holiday_loop.induct)
  case (1 y s days)
  show ?case
  proof (cases "char_at s = CHR '']''")
    case True
    then show ?thesis using "1.prems" by (simp add: holiday_loop.simps [of y s])
  next
    case False
    then obtain d where d: "holiday_entry y s days = Some d"
      using "1.prems"(1) by (auto simp: holiday_loop.simps [of y s] split: option.splits)
    note e = holiday_entry_Some [OF d "1.prems"(2,3)]
    have inv: "sorted_wrt (<) (days @ [d])" "\<forall>x\<in>set (days @ [d]). civil_year_from_days x = y" "length (days @ [d]) \<le> MAX_HOLIDAYS"
      using e "1.prems"(4-6) by (auto simp: sorted_wrt_snoc)
    show ?thesis
      using "1.IH" [OF False d refl] "1.prems"(1-3) inv False d
      by (auto simp: holiday_loop.simps [of y s] Let_def split: if_splits)
  qed
qed

lemma parse_holiday_json_Some:
  assumes "parse_holiday_json s y = Some ds" "- (2 ^ 31) \<le> y" "y < 2 ^ 31"
  shows "sorted_wrt (<) ds" "\<forall>d\<in>set ds. civil_year_from_days d = y" "length ds \<le> MAX_HOLIDAYS"
proof -
  obtain t r where "holiday_loop y t [] = Some (ds, r)"
    using assms(1) by (auto simp: parse_holiday_json_def Let_def split: if_splits option.splits)
  from holiday_loop_Some [OF this assms(2,3)]
  show "sorted_wrt (<) ds" "\<forall>d\<in>set ds. civil_year_from_days d = y" "length ds \<le> MAX_HOLIDAYS" by simp_all
qed

text \<open>The text of a calendar: ISO dates in quotes, with any blanks after the commas.\<close>

definition quoted_date :: "date \<Rightarrow> string" where
  "quoted_date = (\<lambda>(y, m, d). CHR 0x22 # fmt_date y (word_of_int m) (word_of_int d) @ [CHR 0x22])"

fun calendar_entries :: "string \<Rightarrow> date list \<Rightarrow> string" where
  "calendar_entries ws [] = '']''"
| "calendar_entries ws [t] = quoted_date t @ '']''"
| "calendar_entries ws (t # u # ts) = quoted_date t @ CHR '','' # ws @ calendar_entries ws (u # ts)"

definition calendar_json :: "string \<Rightarrow> date list \<Rightarrow> string" where
  "calendar_json ws ts = CHR ''['' # calendar_entries ws ts"

lemma length_quoted_date: "valid_date (y, m, d) \<Longrightarrow> 0 \<le> y \<Longrightarrow> y < 10000 \<Longrightarrow> length (quoted_date (y, m, d)) = 12"
  using fmt_date_parts(1) [of y m d] valid_date_month_day [of y m d] by (simp add: quoted_date_def)

lemma holiday_entry_quoted:
  assumes "valid_date (y, m, d)" "0 \<le> y" "y < 10000" "length days < MAX_HOLIDAYS"
    and "days = [] \<or> last days < day_number (y, m, d)"
  shows "holiday_entry y (quoted_date (y, m, d) @ r) days = Some (day_number (y, m, d))"
proof -
  let ?s = "fmt_date y (word_of_int m) (word_of_int d)"
  note md = valid_date_month_day [OF assms(1)]
  note p = fmt_date_parts [OF assms(2,3) md]
  have w: "parse_fixed_decimal (?s @ CHR 0x22 # r) 4 0 = Some (word_of_int y)"
    "parse_fixed_decimal (drop 5 ?s @ CHR 0x22 # r) 2 0 = Some (word_of_int m)"
    "parse_fixed_decimal (drop 8 ?s @ CHR 0x22 # r) 2 0 = Some (word_of_int d)"
    using parse_fixed_decimal_digits [of _ _ 0] p(4-6) [of "CHR 0x22 # r"] by simp_all
  have i: "(?s @ CHR 0x22 # r) ! 4 = CHR ''-''" "(?s @ CHR 0x22 # r) ! 7 = CHR ''-''" "(?s @ CHR 0x22 # r) ! 10 = CHR 0x22"
    using p(1-3) by (simp_all add: nth_append)
  have "drop 5 (?s @ CHR 0x22 # r) = drop 5 ?s @ CHR 0x22 # r" "drop 8 (?s @ CHR 0x22 # r) = drop 8 ?s @ CHR 0x22 # r"
    using p(1) by simp_all
  moreover have "\<not> word_of_int m < (1 :: 32 word)" "\<not> word_of_int m > (12 :: 32 word)"
    "\<not> word_of_int d < (1 :: 32 word)" "\<not> word_of_int d > (31 :: 32 word)"
    using md by (simp_all add: word_less_def uint32_of_int)
  ultimately show ?thesis
    using assms md i w p(1)
    by (simp add: holiday_entry_def quoted_date_def uint32_of_int redis_days_from_civil_same
        days_from_civil_day_number civil_year_day_number not_le nth_Cons' Let_def)
qed

lemma skip_space_blanks: "\<forall>c\<in>set ws. is_space c \<Longrightarrow> \<not> is_space c \<Longrightarrow> skip_space (ws @ c # s) = c # s"
  by (induction ws) (simp_all add: skip_space_def)

lemma not_space [simp]: "\<not> is_space (CHR 0x22)" "\<not> is_space (CHR '']'')" "\<not> is_space (CHR '','')" "\<not> is_space (CHR ''['')"
  by (simp_all add: is_space_def)

lemma skip_space_simps [simp]: "skip_space [] = []" "skip_space (c # s) = (if is_space c then skip_space s else c # s)"
  by (simp_all add: skip_space_def)

lemma calendar_entries_start:
  "\<exists>c s. calendar_entries ws ts = c # s \<and> \<not> is_space c"
  by (cases "(ws, ts)" rule: calendar_entries.cases) (auto simp: quoted_date_def split: prod.splits)

lemma skip_space_entries:
  "\<forall>c\<in>set ws. is_space c \<Longrightarrow> skip_space (ws @ calendar_entries ws ts) = calendar_entries ws ts"
  using calendar_entries_start [of ws ts] skip_space_blanks [of ws] by auto

definition calendar_of :: "int \<Rightarrow> date list \<Rightarrow> bool" where
  "calendar_of y ts \<longleftrightarrow> list_all (\<lambda>t. valid_date t \<and> fst t = y) ts \<and> sorted_wrt (<) (map day_number ts)"

lemma holiday_loop_entries:
  assumes "\<forall>c\<in>set ws. is_space c" "0 \<le> y" "y < 10000" "calendar_of y ts" "length days + length ts \<le> MAX_HOLIDAYS"
    and "days = [] \<or> ts = [] \<or> last days < day_number (hd ts)"
  shows "holiday_loop y (calendar_entries ws ts) days = Some (days @ map day_number ts, '']'')"
  using assms
proof (induction ws ts arbitrary: days rule: calendar_entries.induct)
  case (1 ws)
  then show ?case by (simp add: holiday_loop.simps)
next
  case (2 ws t)
  then obtain m d where t: "t = (y, m, d)" "valid_date (y, m, d)" by (cases t) (auto simp: calendar_of_def)
  have "holiday_entry y (quoted_date t @ '']'') days = Some (day_number t)"
    unfolding t(1) using 2 t by (intro holiday_entry_quoted) simp_all
  moreover have "length (quoted_date t) = 12" using length_quoted_date t 2 by simp
  moreover have "char_at (quoted_date t @ '']'') = CHR 0x22" by (simp add: t(1) quoted_date_def)
  ultimately show ?case by (simp add: holiday_loop.simps)
next
  case (3 ws t u ts)
  then obtain m d where t: "t = (y, m, d)" "valid_date (y, m, d)" by (cases t) (auto simp: calendar_of_def)
  let ?r = "CHR '','' # ws @ calendar_entries ws (u # ts)"
  have "holiday_entry y (quoted_date t @ ?r) days = Some (day_number t)"
    unfolding t(1) using 3 t by (intro holiday_entry_quoted) simp_all
  moreover have "length (quoted_date t) = 12" using length_quoted_date t 3 by simp
  moreover have "char_at (quoted_date t @ ?r) = CHR 0x22" by (simp add: t(1) quoted_date_def)
  moreover have "holiday_loop y (calendar_entries ws (u # ts)) (days @ [day_number t])
      = Some ((days @ [day_number t]) @ map day_number (u # ts), '']'')"
    using "3.prems" by (intro "3.IH") (auto simp: calendar_of_def)
  ultimately show ?case
    using skip_space_entries [OF "3.prems"(1), of "u # ts"]
    by (simp add: holiday_loop.simps [of y "quoted_date t @ ?r"])
qed

section \<open>The commands an operation sends\<close>

text \<open>A connection that also records every command with its reply. The operations are parametric in the
  connection, so that running them on a recording one shows what they send to any server.\<close>

type_synonym command_log = "(string list \<times> redis_reply option) list"

definition logging :: "'c redis_command \<Rightarrow> ('c \<times> command_log) redis_command" where
  "logging redisCommand = (\<lambda>(c, entries) args. case redisCommand c args of (r, c') \<Rightarrow> (r, (c', entries @ [(args, r)])))"

definition read_only :: "command_log \<Rightarrow> bool" where
  "read_only entries \<longleftrightarrow> list_all (\<lambda>(args, _). hd args \<in> {''TIME'', ''GET'', ''TTL''}) entries"

definition server_clock :: "command_log \<Rightarrow> int \<Rightarrow> bool" where
  "server_clock entries t \<longleftrightarrow>
     (\<exists>s u. ([''TIME''], Some (REDIS_REPLY_ARRAY [REDIS_REPLY_STRING s, u])) \<in> set entries \<and> parse_epoch (c_str s) = Some t)"

definition fresh_calendar :: "command_log \<Rightarrow> int \<Rightarrow> int list \<Rightarrow> bool" where
  "fresh_calendar entries year days \<longleftrightarrow>
     (\<exists>s ttl. let key = ''krx:holidays:'' @ fmt_int year in
        ([''GET'', key], Some (REDIS_REPLY_STRING s)) \<in> set entries \<and> parse_holiday_json (c_str s) year = Some days
        \<and> ([''TTL'', key], Some (REDIS_REPLY_INTEGER ttl)) \<in> set entries \<and> 0 < ttl)"

lemma redis_call_logging:
  "redis_call (logging cmd) r args =
     (case cmd (fst (ctx r)) args of (rep, c') \<Rightarrow> (rep, r\<lparr>ctx := (c', snd (ctx r) @ [(args, rep)])\<rparr>))"
  by (simp add: redis_call_def logging_def split: prod.splits)

lemma read_only_simps [simp]:
  "read_only []" "read_only (l @ l') \<longleftrightarrow> read_only l \<and> read_only l'"
  "read_only ((args, rep) # l) \<longleftrightarrow> hd args \<in> {''TIME'', ''GET'', ''TTL''} \<and> read_only l"
  by (simp_all add: read_only_def)

lemma server_clock_append: "server_clock l t \<Longrightarrow> server_clock (l @ l') t" "server_clock l' t \<Longrightarrow> server_clock (l @ l') t"
  by (auto simp: server_clock_def)

lemma fresh_calendar_append:
  "fresh_calendar l y ds \<Longrightarrow> fresh_calendar (l @ l') y ds" "fresh_calendar l' y ds \<Longrightarrow> fresh_calendar (l @ l') y ds"
  by (auto simp: fresh_calendar_def Let_def)

lemma server_time_log:
  assumes "redis_server_time (logging cmd) r = (st, t, r')"
  obtains l where "snd (ctx r') = snd (ctx r) @ l" "read_only l" "st = ALPHA_OK \<longleftrightarrow> t \<noteq> None"
    "st = ALPHA_OK \<longrightarrow> server_clock l (the t)"
proof -
  obtain rep c' where c: "cmd (fst (ctx r)) [''TIME''] = (rep, c')" by force
  have r': "snd (ctx r') = snd (ctx r) @ [([''TIME''], rep)]" and "st = ALPHA_OK \<longleftrightarrow> t \<noteq> None"
    "st = ALPHA_OK \<longrightarrow> server_clock [([''TIME''], rep)] (the t)"
    using assms c
    by (auto simp: redis_server_time_def redis_call_logging server_clock_def
        split: option.splits redis_reply.splits list.splits dest!: sym [of "Some _"])
  then show thesis by (intro that [of "[([''TIME''], rep)]"]) simp_all
qed

lemma server_time_shape:
  assumes "redis_server_time (logging cmd) \<lparr>ctx = (c, l)\<rparr> = (st, t, r')"
  shows "\<exists>rep c'. r' = \<lparr>ctx = (c', l @ [([''TIME''], rep)])\<rparr>
    \<and> (st = ALPHA_OK \<longrightarrow> (\<exists>s u e. rep = Some (REDIS_REPLY_ARRAY [REDIS_REPLY_STRING s, u]) \<and> parse_epoch (c_str s) = Some e \<and> t = Some e))"
  using assms
  by (auto simp: redis_server_time_def redis_call_logging
      split: prod.splits option.splits redis_reply.splits list.splits dest!: sym [of "Some _"])

lemma length_key_buf: "fst (key_buf s) = ALPHA_OK \<Longrightarrow> snd (key_buf s) = s"
  by (simp add: key_buf_def snprintf_def KEY_CAP_def split: if_splits)

lemma load_calendar_log:
  assumes "load_calendar (logging cmd) r y = (st, days, r')"
  obtains l where "snd (ctx r') = snd (ctx r) @ l" "read_only l" "st = ALPHA_OK \<longrightarrow> fresh_calendar l y days"
proof -
  let ?k = "''krx:holidays:'' @ fmt_int y"
  show thesis
  proof (cases "fst (key_buf ?k) = ALPHA_OK")
    case False
    then have "r' = r" "st \<noteq> ALPHA_OK" using assms by (auto simp: load_calendar_def split: prod.splits)
    then show thesis by (intro that [of "[]"]) simp_all
  next
    case True
    then have k: "key_buf ?k = (ALPHA_OK, ?k)" using length_key_buf [OF True] by (cases "key_buf ?k") simp
    obtain rep c1 where c: "cmd (fst (ctx r)) [''GET'', ?k] = (rep, c1)" by force
    obtain ttl c2 where d: "cmd c1 [''TTL'', ?k] = (ttl, c2)" by force
    let ?l = "[([''GET'', ?k], rep), ([''TTL'', ?k], ttl)]"
    have "(snd (ctx r') = snd (ctx r) @ [([''GET'', ?k], rep)] \<and> st \<noteq> ALPHA_OK)
        \<or> (snd (ctx r') = snd (ctx r) @ ?l \<and> (st = ALPHA_OK \<longrightarrow> fresh_calendar ?l y days))"
      using assms c d k
      by (auto simp: load_calendar_def redis_call_logging fresh_calendar_def Let_def
          split: option.splits redis_reply.splits if_splits)
    then show thesis using that [of "[([''GET'', ?k], rep)]"] that [of ?l] by auto
  qed
qed

text \<open>The calendars an expiry is computed from: the one of the year, or those of two years.\<close>

definition calendars :: "command_log \<Rightarrow> int \<Rightarrow> int list \<Rightarrow> int \<Rightarrow> bool" where
  "calendars entries year days mx \<longleftrightarrow>
     (fresh_calendar entries year days \<and> mx = days_from_civil year 12 31)
     \<or> (\<exists>d1 d2. days = d1 @ d2 \<and> fresh_calendar entries year d1 \<and> fresh_calendar entries (year + 1) d2
          \<and> mx = days_from_civil (year + 1) 12 31)"

lemma calendars_append: "calendars l y ds mx \<Longrightarrow> calendars (l @ l') y ds mx" "calendars l' y ds mx \<Longrightarrow> calendars (l @ l') y ds mx"
  by (auto simp: calendars_def intro: fresh_calendar_append)

lemma next_session_expiry_log:
  assumes "next_session_expiry (logging cmd) r now = (st, e, r')"
  obtains l where "snd (ctx r') = snd (ctx r) @ l" "read_only l"
    "st = ALPHA_OK \<longrightarrow> (\<exists>ds mx. calendars l (civil_year_from_days ((now + 32400) sdiv 86400)) ds mx
        \<and> e = alpha_next_trading_session_start_holiday_aware now ds mx)"
proof -
  let ?y = "civil_year_from_days ((now + ALPHA_KST_OFFSET_SECONDS) sdiv SECONDS_PER_DAY)"
  obtain s1 d1 r1 where c1: "load_calendar (logging cmd) r ?y = (s1, d1, r1)" by (metis prod_cases3)
  obtain s2 d2 r2 where c2: "load_calendar (logging cmd) r1 (?y + 1) = (s2, d2, r2)" by (metis prod_cases3)
  obtain l1 where l1: "snd (ctx r1) = snd (ctx r) @ l1" "read_only l1" "s1 = ALPHA_OK \<longrightarrow> fresh_calendar l1 ?y d1"
    by (rule load_calendar_log [OF c1])
  obtain l2 where l2: "snd (ctx r2) = snd (ctx r1) @ l2" "read_only l2" "s2 = ALPHA_OK \<longrightarrow> fresh_calendar l2 (?y + 1) d2"
    by (rule load_calendar_log [OF c2])
  have y: "?y = civil_year_from_days ((now + 32400) sdiv 86400)"
    by (simp add: ALPHA_KST_OFFSET_SECONDS_def SECONDS_PER_DAY_def)
  consider (one) "r' = r1" "st = ALPHA_OK \<longrightarrow> s1 = ALPHA_OK \<and> e = alpha_next_trading_session_start_holiday_aware now d1 (days_from_civil ?y 12 31)"
    | (two) "r' = r2" "s1 = ALPHA_OK" "st = ALPHA_OK \<longrightarrow> s2 = ALPHA_OK \<and>
        e = alpha_next_trading_session_start_holiday_aware now (d1 @ d2) (days_from_civil (?y + 1) 12 31)"
    using assms c1 c2
    by (auto simp: next_session_expiry_def Let_def redis_days_from_civil_same split: if_splits)
  then show thesis
  proof cases
    case one
    then show thesis using l1 y by (intro that [of l1]) (auto simp: calendars_def)
  next
    case two
    have "calendars (l1 @ l2) ?y (d1 @ d2) (days_from_civil (?y + 1) 12 31)" if "st = ALPHA_OK"
      using that two l1(3) l2(3) fresh_calendar_append unfolding calendars_def by blast
    then show thesis using two l1 l2 y by (intro that [of "l1 @ l2"]) auto
  qed
qed

text \<open>The one write an operation may send, and how its reply decides the result.\<close>

definition lockout_write :: "string \<Rightarrow> int \<Rightarrow> alpha_err_t \<Rightarrow> command_log \<Rightarrow> bool" where
  "lockout_write scope e st w \<longleftrightarrow> (w = [] \<and> st \<noteq> ALPHA_OK) \<or>
     (\<exists>rep. w = [([''SET'', ''hard_stop:lockout:'' @ scope, fmt_int e, ''EXAT'', fmt_int e], rep)]
        \<and> (st = ALPHA_OK \<longleftrightarrow> reply_is_ok rep))"

lemma breaker_key_ok: "fst (breaker_key (Some s)) = ALPHA_OK \<Longrightarrow> snd (breaker_key (Some s)) = ''hard_stop:lockout:'' @ s"
  using length_key_buf [of "''hard_stop:lockout:'' @ s"] by (auto simp: breaker_key_def split: if_splits)

lemma set_lockout_log:
  assumes "alpha_redis_set_breaker_lockout (logging cmd) (Some r) (Some scope) now e = (st, r')"
  obtains r'' l w where "r' = Some r''" "snd (ctx r'') = snd (ctx r) @ l @ w" "read_only l" "lockout_write scope e st w"
    "w \<noteq> [] \<longrightarrow> now < e \<and> (\<exists>t. server_clock l t \<and> t < e)"
proof -
  let ?k = "''hard_stop:lockout:'' @ scope"
  consider (early) "r' = Some r" "st \<noteq> ALPHA_OK" | (go) "now < e" "breaker_key (Some scope) = (ALPHA_OK, ?k)"
    using assms breaker_key_ok [of scope]
    by (cases "breaker_key (Some scope)") (auto simp: alpha_redis_set_breaker_lockout_def split: if_splits)
  then show thesis
  proof cases
    case early
    then show thesis by (intro that [of r "[]" "[]"]) (simp_all add: lockout_write_def)
  next
    case go
    obtain s t r1 where t: "redis_server_time (logging cmd) r = (s, t, r1)" by (metis prod_cases3)
    obtain l where l: "snd (ctx r1) = snd (ctx r) @ l" "read_only l" "s = ALPHA_OK \<longleftrightarrow> t \<noteq> None" "s = ALPHA_OK \<longrightarrow> server_clock l (the t)"
      by (rule server_time_log [OF t])
    show thesis
    proof (cases "s = ALPHA_OK \<and> the t < e")
      case False
      then have "r' = Some r1" "st \<noteq> ALPHA_OK" using assms go t
        by (auto simp: alpha_redis_set_breaker_lockout_def split: if_splits)
      then show thesis using l by (intro that [of r1 l "[]"]) (simp_all add: lockout_write_def)
    next
      case True
      obtain rep c' where c: "cmd (fst (ctx r1)) [''SET'', ?k, fmt_int e, ''EXAT'', fmt_int e] = (rep, c')" by force
      then show thesis using assms go t l True
        by (intro that [of "the r'" l "[([''SET'', ?k, fmt_int e, ''EXAT'', fmt_int e], rep)]"])
           (auto simp: alpha_redis_set_breaker_lockout_def redis_call_logging lockout_write_def split: if_splits)
    qed
  qed
qed

section \<open>Calendars of consecutive years\<close>

lemma day_number_in_year:
  assumes "valid_date (y, m, d)"
  shows "day_number (y, 1, 1) \<le> day_number (y, m, d)" "day_number (y, m, d) \<le> day_number (y, 12, 31)"
proof -
  have m: "1 \<le> m" "m \<le> 12" and d: "1 \<le> d" "d \<le> month_len y m" using assms by (simp_all add: valid_date_def)
  have "month_off 1 + 1 \<le> (if m \<le> 2 then month_off m + d else 365 + month_off m + d)"
    "(if m \<le> 2 then month_off m + d else 365 + month_off m + d) \<le> 365 + month_off 12 + 31"
    using m d by (cases rule: month_cases; simp add: month_off_def month_len_def split: if_splits)+
  moreover have "leap_days (y - 1) \<le> leap_days y" using leap_days_pred [of y] by simp
  ultimately show "day_number (y, 1, 1) \<le> day_number (y, m, d)" "day_number (y, m, d) \<le> day_number (y, 12, 31)"
    by (simp_all add: day_number_def Let_def split: if_splits)
qed

lemma civil_year_less:
  assumes "civil_year_from_days a = y" "civil_year_from_days b = y + 1"
  shows "a < b"
proof -
  obtain m d where a: "valid_date (y, m, d)" "day_number (y, m, d) = a"
    using civil_from_days_valid [of a] assms(1) by (metis civil_year_same fst_conv)
  obtain m' d' where b: "valid_date (y + 1, m', d')" "day_number (y + 1, m', d') = b"
    using civil_from_days_valid [of b] assms(2) by (metis civil_year_same fst_conv)
  have "valid_date (y, 12, 31)" "next_day (y, 12, 31) = (y + 1, 1, 1)"
    by (simp_all add: valid_date_def month_len_def next_day_def)
  then have "day_number (y, 12, 31) < day_number (y + 1, 1, 1)" using day_number_next by fastforce
  then show ?thesis using day_number_in_year(2) [OF a(1)] day_number_in_year(1) [OF b(1)] a b by simp
qed

lemma calendars_sorted:
  assumes "calendars l y ds mx" "- (2 ^ 31) \<le> y" "y + 1 < 2 ^ 31"
  shows "sorted ds"
proof -
  have one: "sorted_wrt (<) d1 \<and> (\<forall>d\<in>set d1. civil_year_from_days d = y')"
    if f: "fresh_calendar l y' d1" "- (2 ^ 31) \<le> y'" "y' < 2 ^ 31" for y' d1
  proof -
    obtain s where "parse_holiday_json (c_str s) y' = Some d1" using f(1) unfolding fresh_calendar_def Let_def by blast
    then show ?thesis using parse_holiday_json_Some f(2,3) by blast
  qed
  consider "fresh_calendar l y ds" | (two) d1 d2 where "ds = d1 @ d2" "fresh_calendar l y d1" "fresh_calendar l (y + 1) d2"
    using assms(1) by (auto simp: calendars_def)
  then have "sorted_wrt (<) ds"
  proof cases
    case two
    have "sorted_wrt (<) d1 \<and> (\<forall>d\<in>set d1. civil_year_from_days d = y)"
      "sorted_wrt (<) d2 \<and> (\<forall>d\<in>set d2. civil_year_from_days d = y + 1)"
      using one [OF two(2)] one [OF two(3)] assms(2,3) by simp_all
    then show ?thesis using civil_year_less unfolding two(1) sorted_wrt_append by blast
  qed (use one assms(2,3) in simp)
  then show ?thesis by (rule strict_sorted_imp_sorted)
qed

section \<open>Locking until the next session\<close>

lemma next_session_log:
  assumes "alpha_redis_set_breaker_lockout_next_session (logging cmd) (Some r) (Some scope) now True = (st, e, r')"
  obtains r'' l w e0 where "r' = Some r''" "snd (ctx r'') = snd (ctx r) @ l @ w" "read_only l" "lockout_write scope e0 st w"
    "e = (if st = ALPHA_OK then Some e0 else None)"
    "w \<noteq> [] \<longrightarrow> now < e0 \<and> (\<exists>t. server_clock l t \<and> t < e0 \<and> \<bar>now - t\<bar> \<le> 5)
       \<and> (\<exists>ds mx. calendars l (civil_year_from_days ((now + 32400) sdiv 86400)) ds mx
            \<and> e0 = alpha_next_trading_session_start_holiday_aware now ds mx \<and> e0 \<noteq> ALPHA_SESSION_CALENDAR_INSUFFICIENT)"
proof -
  obtain s1 t r1 where t: "redis_server_time (logging cmd) r = (s1, t, r1)" by (metis prod_cases3)
  obtain l1 where l1: "snd (ctx r1) = snd (ctx r) @ l1" "read_only l1" "s1 = ALPHA_OK \<longleftrightarrow> t \<noteq> None"
    "s1 = ALPHA_OK \<longrightarrow> server_clock l1 (the t)" by (rule server_time_log [OF t])
  obtain s2 e2 r2 where x: "next_session_expiry (logging cmd) r1 now = (s2, e2, r2)" by (metis prod_cases3)
  obtain l2 where l2: "snd (ctx r2) = snd (ctx r1) @ l2" "read_only l2"
    "s2 = ALPHA_OK \<longrightarrow> (\<exists>ds mx. calendars l2 (civil_year_from_days ((now + 32400) sdiv 86400)) ds mx
        \<and> e2 = alpha_next_trading_session_start_holiday_aware now ds mx)" by (rule next_session_expiry_log [OF x])
  obtain s3 r3 where y: "alpha_redis_set_breaker_lockout (logging cmd) (Some r2) (Some scope) now e2 = (s3, r3)" by fastforce
  obtain r4 l3 w where l3: "r3 = Some r4" "snd (ctx r4) = snd (ctx r2) @ l3 @ w" "read_only l3" "lockout_write scope e2 s3 w"
    "w \<noteq> [] \<longrightarrow> now < e2 \<and> (\<exists>t. server_clock l3 t \<and> t < e2)" by (rule set_lockout_log [OF y])
  let ?in_time = "s1 = ALPHA_OK \<and> the t - 5 \<le> now \<and> now \<le> the t + 5"
  let ?found = "s2 = ALPHA_OK \<and> e2 \<noteq> ALPHA_SESSION_CALENDAR_INSUFFICIENT \<and> the t < e2"
  show thesis
  proof (cases "?in_time")
    case False
    then have "r' = Some r1" "st \<noteq> ALPHA_OK" "e = None" using assms t
      by (auto simp: alpha_redis_set_breaker_lockout_next_session_def split: if_splits)
    then show thesis using l1 by (intro that [of r1 l1 "[]"]) (simp_all add: lockout_write_def)
  next
    case in_time: True
    show thesis
    proof (cases ?found)
      case False
      then have "r' = Some r2" "st \<noteq> ALPHA_OK" "e = None" using assms t x in_time
        by (auto simp: alpha_redis_set_breaker_lockout_next_session_def split: if_splits)
      then show thesis using l1 l2 by (intro that [of r2 "l1 @ l2" "[]"]) (simp_all add: lockout_write_def)
    next
      case True
      then have res: "r' = r3" "st = s3" "e = (if st = ALPHA_OK then Some e2 else None)" using assms t x y in_time
        by (auto simp: alpha_redis_set_breaker_lockout_next_session_def split: if_splits)
      have clock: "server_clock (l1 @ l2 @ l3) (the t)" "\<bar>now - the t\<bar> \<le> 5" using in_time l1 server_clock_append by auto
      obtain ds mx where c: "calendars l2 (civil_year_from_days ((now + 32400) sdiv 86400)) ds mx"
        "e2 = alpha_next_trading_session_start_holiday_aware now ds mx" using l2(3) True by blast
      then have "calendars (l1 @ l2 @ l3) (civil_year_from_days ((now + 32400) sdiv 86400)) ds mx"
        using calendars_append by blast
      then show thesis using res l1 l2 l3 c True clock
        by (intro that [of r4 "l1 @ l2 @ l3" w e2]) auto
    qed
  qed
qed

section \<open>The documented behaviour of the server\<close>

text \<open>What the lock relies on, with the clock of the server in milliseconds and its keys with their values
  and expiry in seconds: \<^verbatim>\<open>TIME\<close> reports whole seconds, a key with an expiry is gone once the
  clock has reached it, \<^verbatim>\<open>TTL\<close> rounds the rest of its life to the nearest second, and a command takes
  at most half a second.\<close>

definition live :: "int \<Rightarrow> (string \<rightharpoonup> string \<times> int) \<Rightarrow> string \<Rightarrow> (string \<times> int) option" where
  "live t m k = (case m k of None \<Rightarrow> None | Some (v, e) \<Rightarrow> if t < e * 1000 then Some (v, e) else None)"

definition redis_documented :: "'c redis_command \<Rightarrow> ('c \<Rightarrow> int) \<Rightarrow> ('c \<Rightarrow> string \<rightharpoonup> string \<times> int) \<Rightarrow> bool" where
  "redis_documented cmd clock store \<longleftrightarrow>
     (\<forall>c args. clock c \<le> clock (snd (cmd c args)) \<and> clock (snd (cmd c args)) \<le> clock c + 500)
     \<and> (\<forall>c. \<exists>u. fst (cmd c [''TIME'']) = Some (REDIS_REPLY_ARRAY [REDIS_REPLY_STRING (fmt_int (clock c div 1000)), u])
          \<and> store (snd (cmd c [''TIME''])) = store c)
     \<and> (\<forall>c k v e. 0 < e \<and> clock c < e * 1000 \<and> e \<le> LLONG_MAX \<longrightarrow>
          fst (cmd c [''SET'', k, v, ''EXAT'', fmt_int e]) = Some (REDIS_REPLY_STATUS ''OK'')
          \<and> store (snd (cmd c [''SET'', k, v, ''EXAT'', fmt_int e])) = (store c)(k \<mapsto> (v, e)))
     \<and> (\<forall>c k. fst (cmd c [''GET'', k])
            = Some (case live (clock c) (store c) k of None \<Rightarrow> REDIS_REPLY_NIL | Some (v, e) \<Rightarrow> REDIS_REPLY_STRING v)
          \<and> store (snd (cmd c [''GET'', k])) = store c)
     \<and> (\<forall>c k. fst (cmd c [''TTL'', k])
            = Some (REDIS_REPLY_INTEGER (case live (clock c) (store c) k of None \<Rightarrow> - 2 | Some (v, e) \<Rightarrow> (e * 1000 - clock c + 500) div 1000))
          \<and> store (snd (cmd c [''TTL'', k])) = store c)
     \<and> (\<forall>c k. fst (cmd c [''DEL'', k]) \<noteq> None \<and> store (snd (cmd c [''DEL'', k])) = (store c)(k := None))"

lemma parse_epoch_fmt: "0 < n \<Longrightarrow> n \<le> LLONG_MAX \<Longrightarrow> parse_epoch (fmt_int n) = Some n"
proof -
  assume n: "0 < n" "n \<le> LLONG_MAX"
  have "fmt_int n \<noteq> []" using n(1) dec_digits_nonempty [of n] by (simp add: fmt_int_def)
  then show ?thesis using n strtoll_fmt_int [of n] by (simp add: parse_epoch_def LLONG_MIN_def)
qed

lemma breaker_key_fits:
  "scope \<noteq> [] \<Longrightarrow> length scope \<le> 77 \<Longrightarrow> breaker_key (Some scope) = (ALPHA_OK, ''hard_stop:lockout:'' @ scope)"
  by (simp add: breaker_key_def key_buf_def KEY_CAP_def snprintf_def)

text \<open>Half a second between reading the clock and reading the remaining life does not disturb the
  consistency check.\<close>

lemma ttl_consistent:
  fixes t t' e :: int
  assumes "t \<le> t'" "t' \<le> t + 500" "t' + 1500 \<le> e * 1000"
  defines "ttl \<equiv> (e * 1000 - t' + 500) div 1000"
  shows "0 < ttl" "t div 1000 < e" "ttl \<le> e - t div 1000" "e - t div 1000 \<le> ttl + 1"
proof -
  define q f where "q = t div 1000" and "f = t mod 1000"
  have t: "t = 1000 * q + f" "0 \<le> f" "f < 1000" by (simp_all add: q_def f_def)
  have "1000 * ttl \<le> e * 1000 - t' + 500" "e * 1000 - t' + 500 < 1000 * ttl + 1000"
    unfolding ttl_def by simp_all
  then show "0 < ttl" "t div 1000 < e" "ttl \<le> e - t div 1000" "e - t div 1000 \<le> ttl + 1"
    using assms(1-3) t unfolding q_def [symmetric] by linarith+
qed

text \<open>The four operations on such a server.\<close>

lemma documented_clock:
  "redis_documented cmd clock store \<Longrightarrow> clock c \<le> clock (snd (cmd c args)) \<and> clock (snd (cmd c args)) \<le> clock c + 500"
  unfolding redis_documented_def by blast

lemma documented_time:
  assumes "redis_documented cmd clock store" "1000 \<le> clock c" "clock c < e * 1000" "e \<le> LLONG_MAX"
  shows "redis_server_time cmd \<lparr>ctx = c\<rparr> = (ALPHA_OK, Some (clock c div 1000), \<lparr>ctx = snd (cmd c [''TIME''])\<rparr>)"
    "store (snd (cmd c [''TIME''])) = store c"
proof -
  obtain u where u: "fst (cmd c [''TIME'']) = Some (REDIS_REPLY_ARRAY [REDIS_REPLY_STRING (fmt_int (clock c div 1000)), u])"
    and s: "store (snd (cmd c [''TIME''])) = store c" using assms(1) unfolding redis_documented_def by blast
  have "0 < clock c div 1000" "clock c div 1000 \<le> LLONG_MAX" using assms(2-4) by auto
  then show "redis_server_time cmd \<lparr>ctx = c\<rparr> = (ALPHA_OK, Some (clock c div 1000), \<lparr>ctx = snd (cmd c [''TIME''])\<rparr>)"
    using u by (cases "cmd c [''TIME'']") (simp add: redis_server_time_def redis_call_def parse_epoch_fmt)
qed (use assms(1) in \<open>unfold redis_documented_def, blast\<close>)

lemma documented_set:
  assumes "redis_documented cmd clock store" "breaker_key (Some scope) = (ALPHA_OK, k)" "1000 \<le> clock c"
    "clock c + 1000 \<le> e * 1000" "e \<le> LLONG_MAX" "now < e"
  obtains c' where "alpha_redis_set_breaker_lockout cmd (Some \<lparr>ctx = c\<rparr>) (Some scope) now e = (ALPHA_OK, Some \<lparr>ctx = c'\<rparr>)"
    "store c' = (store c)(k \<mapsto> (fmt_int e, e))" "clock c \<le> clock c'" "clock c' \<le> clock c + 1000"
proof -
  let ?c1 = "snd (cmd c [''TIME''])" and ?a = "[''SET'', k, fmt_int e, ''EXAT'', fmt_int e]"
  note t = documented_time [OF assms(1,3) _ assms(5)] and clk = documented_clock [OF assms(1)]
  have "0 < e" "clock ?c1 < e * 1000" using clk [of c "[''TIME'']"] assms(3,4) by linarith+
  then have st: "fst (cmd ?c1 ?a) = Some (REDIS_REPLY_STATUS ''OK'')" "store (snd (cmd ?c1 ?a)) = (store ?c1)(k \<mapsto> (fmt_int e, e))"
    using assms(1,5) unfolding redis_documented_def by blast+
  have "reply_is_ok (Some (REDIS_REPLY_STATUS ''OK''))" by (simp add: reply_is_ok_def c_str_def)
  moreover have "clock c div 1000 < e" using assms(4) by simp
  ultimately have "alpha_redis_set_breaker_lockout cmd (Some \<lparr>ctx = c\<rparr>) (Some scope) now e = (ALPHA_OK, Some \<lparr>ctx = snd (cmd ?c1 ?a)\<rparr>)"
    using assms(2,4,6) t st(1) by (cases "cmd ?c1 ?a") (simp add: alpha_redis_set_breaker_lockout_def redis_call_def)
  moreover have "store ?c1 = store c" using t(2) assms(4) by simp
  ultimately show thesis
    using that [of "snd (cmd ?c1 ?a)"] st(2) clk [of c "[''TIME'']"] clk [of ?c1 ?a] by simp
qed

lemma documented_check:
  assumes "redis_documented cmd clock store" "breaker_key (Some scope) = (ALPHA_OK, k)" "1000 \<le> clock c"
    "clock c + 2500 \<le> e * 1000" "e \<le> LLONG_MAX" "store c k = Some (fmt_int e, e)"
  obtains c' where "alpha_redis_is_breaker_locked cmd (Some \<lparr>ctx = c\<rparr>) (Some scope) True True = (ALPHA_OK, Some True, Some e, Some \<lparr>ctx = c'\<rparr>)"
    "store c' = store c"
proof -
  let ?c1 = "snd (cmd c [''GET'', k])"
  let ?c2 = "snd (cmd ?c1 [''TIME''])"
  note clk = documented_clock [OF assms(1)]
  have g: "fst (cmd c [''GET'', k]) = Some (REDIS_REPLY_STRING (fmt_int e))" "store ?c1 = store c"
    using assms(1,4,6) unfolding redis_documented_def by (auto simp: live_def)
  have c1: "1000 \<le> clock ?c1" "clock ?c1 \<le> clock c + 500" using clk [of c "[''GET'', k]"] assms(3) by linarith+
  then have lt: "clock ?c1 < e * 1000" using assms(4) by linarith
  note t = documented_time [OF assms(1) c1(1) lt assms(5)]
  have c2: "clock ?c1 \<le> clock ?c2" "clock ?c2 \<le> clock ?c1 + 500" using clk by blast+
  then have lt2: "clock ?c2 + 1500 \<le> e * 1000" using c1 assms(4) by linarith
  have live: "live (clock ?c2) (store ?c2) k = Some (fmt_int e, e)" using lt2 assms(6) g(2) t(2) by (simp add: live_def)
  have u: "fst (cmd ?c2 [''TTL'', k]) = Some (REDIS_REPLY_INTEGER ((e * 1000 - clock ?c2 + 500) div 1000))"
    "store (snd (cmd ?c2 [''TTL'', k])) = store c"
    using assms(1) live g(2) t(2) unfolding redis_documented_def by auto
  have "0 < e" using assms(3,4) by simp
  then have "alpha_redis_is_breaker_locked cmd (Some \<lparr>ctx = c\<rparr>) (Some scope) True True
      = (ALPHA_OK, Some True, Some e, Some \<lparr>ctx = snd (cmd ?c2 [''TTL'', k])\<rparr>)"
    using assms(2,5) g(1) t(1) u(1) ttl_consistent [OF c2 lt2] parse_epoch_fmt [of e]
    by (cases "cmd c [''GET'', k]"; cases "cmd ?c2 [''TTL'', k]") (simp add: alpha_redis_is_breaker_locked_def redis_call_def)
  then show thesis using that u(2) by blast
qed

section \<open>Examples\<close>

text \<open>A connection that gives the replies of a list, for the examples.\<close>

definition scripted :: "(redis_reply option list) redis_command" where
  "scripted c args = (case c of [] \<Rightarrow> (None, []) | r # rs \<Rightarrow> (r, rs))"

text \<open>A server with a standing clock that behaves as documented, for the example.\<close>

definition memory_redis :: "(int \<times> (string \<rightharpoonup> string \<times> int)) redis_command" where
  "memory_redis = (\<lambda>(t, m) args.
     if args = [''TIME''] then (Some (REDIS_REPLY_ARRAY [REDIS_REPLY_STRING (fmt_int (t div 1000)), REDIS_REPLY_NIL]), (t, m))
     else case args of
       [verb, k] \<Rightarrow>
         if verb = ''GET'' then
           (Some (case live t m k of None \<Rightarrow> REDIS_REPLY_NIL | Some (v, e) \<Rightarrow> REDIS_REPLY_STRING v), (t, m))
         else if verb = ''TTL'' then
           (Some (REDIS_REPLY_INTEGER (case live t m k of None \<Rightarrow> - 2 | Some (v, e) \<Rightarrow> (e * 1000 - t + 500) div 1000)), (t, m))
         else (Some (REDIS_REPLY_INTEGER 1), (t, m(k := None)))
     | [verb, k, v, ex, e] \<Rightarrow> (Some (REDIS_REPLY_STATUS ''OK''), (t, m(k \<mapsto> (v, fst (strtoll e)))))
     | _ \<Rightarrow> (None, (t, m)))"

text \<open>New Year's Eve 2025 in Seoul: the calendar of 2025 has no session left, and the first day of 2026
  is a holiday.\<close>

definition example_replies :: "redis_reply option list" where
  "example_replies =
     [Some (REDIS_REPLY_ARRAY [REDIS_REPLY_STRING ''1767150000'', REDIS_REPLY_STRING ''0'']),
      Some (REDIS_REPLY_STRING ''[]''), Some (REDIS_REPLY_INTEGER 100),
      Some (REDIS_REPLY_STRING (calendar_json '' '' [(2026, 1, 1), (2026, 2, 16)])), Some (REDIS_REPLY_INTEGER 100),
      Some (REDIS_REPLY_ARRAY [REDIS_REPLY_STRING ''1767150000'', REDIS_REPLY_STRING ''0'']),
      Some (REDIS_REPLY_STATUS ''OK'')]"

definition example_log :: command_log where
  "example_log = zip
     [[''TIME''], [''GET'', ''krx:holidays:2025''], [''TTL'', ''krx:holidays:2025''], [''GET'', ''krx:holidays:2026''],
      [''TTL'', ''krx:holidays:2026''], [''TIME''], [''SET'', ''hard_stop:lockout:kospi'', ''1767312000'', ''EXAT'', ''1767312000'']]
     example_replies"

section \<open>Properties\<close>

lemma example_next_session:
  "alpha_redis_set_breaker_lockout_next_session (logging scripted) (Some \<lparr>ctx = (example_replies, [])\<rparr>) (Some ''kospi'') 1767150002 True
     = (ALPHA_OK, Some (20455 * 86400), Some \<lparr>ctx = ([], example_log)\<rparr>)"
  by code_simp

text \<open>
  C4. Locking until the next session fails closed, whatever the server answers. Every command before
  the last only reads; there is at most one write, the last command, which sets the lock of the scope with
  its own expiry as the value, and only to a time after the caller's clock and after a clock the server has
  reported, which differs from the caller's by at most five seconds. The operation reports success, and an
  expiry, exactly when the server has acknowledged that write: on every error no write was acknowledged,
  and nothing is ever deleted.
\<close>

theorem lockout_fail_closed:
  assumes "alpha_redis_set_breaker_lockout_next_session (logging cmd) (Some \<lparr>ctx = (c, [])\<rparr>) (Some scope) now True
    = (st, e, Some \<lparr>ctx = (c', entries)\<rparr>)"
  shows "\<exists>reads w. entries = reads @ w \<and> read_only reads \<and>
    ((w = [] \<and> st \<noteq> ALPHA_OK \<and> e = None) \<or>
     (\<exists>rep expiry t. w = [([''SET'', ''hard_stop:lockout:'' @ scope, fmt_int expiry, ''EXAT'', fmt_int expiry], rep)]
        \<and> now < expiry \<and> t < expiry \<and> \<bar>now - t\<bar> \<le> 5 \<and> server_clock reads t
        \<and> (st = ALPHA_OK \<longleftrightarrow> reply_is_ok rep) \<and> e = (if reply_is_ok rep then Some expiry else None)))"
proof -
  obtain r'' l w e0 where r: "Some \<lparr>ctx = (c', entries)\<rparr> = Some r''" "snd (ctx r'') = [] @ l @ w" "read_only l" "lockout_write scope e0 st w"
    "e = (if st = ALPHA_OK then Some e0 else None)"
    "w \<noteq> [] \<longrightarrow> now < e0 \<and> (\<exists>t. server_clock l t \<and> t < e0 \<and> \<bar>now - t\<bar> \<le> 5)
       \<and> (\<exists>ds mx. calendars l (civil_year_from_days ((now + 32400) sdiv 86400)) ds mx
            \<and> e0 = alpha_next_trading_session_start_holiday_aware now ds mx \<and> e0 \<noteq> ALPHA_SESSION_CALENDAR_INSUFFICIENT)"
    by (rule next_session_log [OF assms]) simp
  then have "entries = l @ w" by auto
  with r(3-6) show ?thesis unfolding lockout_write_def by (intro exI [of _ l] exI [of _ w]) auto
qed

theorem lockout_fail_closed_witness:
  "\<exists>reads rep t. example_log = reads @ [([''SET'', ''hard_stop:lockout:'' @ ''kospi'', fmt_int (20455 * 86400), ''EXAT'', fmt_int (20455 * 86400)], rep)]
     \<and> read_only reads \<and> reply_is_ok rep \<and> server_clock reads t \<and> t < 20455 * 86400"
  using lockout_fail_closed [OF example_next_session] by (auto split: if_splits)

text \<open>
  C18. A successful lock lasts exactly until the next session of the calendars the server holds: it expires
  at the start of the first day after the caller's day in Korea that is neither a weekend nor a holiday of
  the calendar of that year, or of that year and the next together when the first has no session left. Each
  calendar was read in this call, parsed completely and had not expired.
\<close>

theorem lockout_until_open_day:
  assumes "alpha_redis_set_breaker_lockout_next_session (logging cmd) (Some \<lparr>ctx = (c, [])\<rparr>) (Some scope) now True
      = (ALPHA_OK, Some expiry, Some \<lparr>ctx = (c', entries)\<rparr>)"
    and "0 \<le> now + 32400" "year = civil_year_from_days (kst_day_of now)" "\<bar>year\<bar> < 2 ^ 31 - 1"
  shows "\<exists>holidays mx day. calendars entries year holidays mx \<and> expiry = day * 86400 \<and> kst_day_of now < day \<and> day \<le> mx
    \<and> open_day holidays day \<and> (\<forall>d. kst_day_of now < d \<and> d < day \<longrightarrow> \<not> open_day holidays d)"
proof -
  obtain r'' l w e0 where r: "Some \<lparr>ctx = (c', entries)\<rparr> = Some r''" "snd (ctx r'') = [] @ l @ w" "lockout_write scope e0 ALPHA_OK w"
    "Some expiry = (if ALPHA_OK = ALPHA_OK then Some e0 else None)"
    "w \<noteq> [] \<longrightarrow> now < e0 \<and> (\<exists>t. server_clock l t \<and> t < e0 \<and> \<bar>now - t\<bar> \<le> 5)
       \<and> (\<exists>ds mx. calendars l (civil_year_from_days ((now + 32400) sdiv 86400)) ds mx
            \<and> e0 = alpha_next_trading_session_start_holiday_aware now ds mx \<and> e0 \<noteq> ALPHA_SESSION_CALENDAR_INSUFFICIENT)"
    by (rule next_session_log [OF assms(1)]) simp
  have "w \<noteq> []" using r(3) by (auto simp: lockout_write_def)
  moreover have "(now + 32400) sdiv 86400 = kst_day_of now"
    using assms(2) by (cases "now + 32400 = 0")
      (simp_all add: kst_day_of_def floor_div_correct ALPHA_KST_OFFSET_SECONDS_def SECONDS_PER_DAY_def signed_divide_int_def)
  ultimately obtain ds mx where c: "calendars l year ds mx" "expiry = alpha_next_trading_session_start_holiday_aware now ds mx"
    "expiry \<noteq> ALPHA_SESSION_CALENDAR_INSUFFICIENT" using r(4,5) assms(3) by auto
  have "calendars entries year ds mx" using r(1,2) calendars_append(1) [OF c(1)] by auto
  moreover have "sorted ds" using calendars_sorted [OF c(1)] assms(4) by linarith
  ultimately show ?thesis using holiday_aware_found [of ds now mx] c(2,3) by auto
qed

theorem lockout_until_open_day_witness:
  "\<exists>holidays mx. calendars example_log 2025 holidays mx \<and> open_day holidays 20455 \<and> 20455 \<le> mx"
proof -
  have "civil_year_from_days (kst_day_of 1767150002) = 2025" by code_simp
  then show ?thesis using lockout_until_open_day [OF example_next_session, of 2025] by auto
qed

text \<open>
  C5. Checking the lock fails closed, whatever the server answers: it reports an open breaker only when
  the server says that there is no lock, and every stored value counts as locked. It confirms a lock, with its
  expiry, only when the stored value is a positive number of seconds after the clock of the server that agrees
  with the remaining life of the key to within a second.
\<close>

theorem breaker_check_fail_closed:
  assumes "alpha_redis_is_breaker_locked (logging cmd) (Some \<lparr>ctx = (c, [])\<rparr>) (Some scope) True True
    = (st, locked, e, Some \<lparr>ctx = (c', entries)\<rparr>)"
    and "key = ''hard_stop:lockout:'' @ scope"
  shows "(locked = Some False \<longleftrightarrow> entries = [([''GET'', key], Some REDIS_REPLY_NIL)])
    \<and> (\<forall>v. entries \<noteq> [] \<and> snd (hd entries) = Some (REDIS_REPLY_STRING v) \<longrightarrow> locked = Some True)
    \<and> (st = ALPHA_OK \<and> locked \<noteq> Some False \<longrightarrow>
        (\<exists>v u s t ttl expiry. entries = [([''GET'', key], Some (REDIS_REPLY_STRING v)),
             ([''TIME''], Some (REDIS_REPLY_ARRAY [REDIS_REPLY_STRING s, u])), ([''TTL'', key], Some (REDIS_REPLY_INTEGER ttl))]
           \<and> locked = Some True \<and> e = Some expiry \<and> parse_epoch (c_str v) = Some expiry \<and> parse_epoch (c_str s) = Some t
           \<and> t < expiry \<and> 0 < ttl \<and> ttl \<le> expiry - t \<and> expiry - t \<le> ttl + 1))"
proof (cases "breaker_key (Some scope) = (ALPHA_OK, key)")
  case False
  then have "fst (breaker_key (Some scope)) \<noteq> ALPHA_OK"
    using breaker_key_ok [of scope] assms(2) by (cases "breaker_key (Some scope)") auto
  then have "entries = []" "locked = None" "st \<noteq> ALPHA_OK"
    using assms(1) by (auto simp: alpha_redis_is_breaker_locked_def split: prod.splits)
  then show ?thesis by simp
next
  case True
  obtain g c1 where c1: "cmd c [''GET'', key] = (g, c1)" by force
  note run = alpha_redis_is_breaker_locked_def redis_call_logging
  show ?thesis
  proof (cases "\<exists>v ex. g = Some (REDIS_REPLY_STRING v) \<and> parse_epoch (c_str v) = Some ex")
    case False
    then show ?thesis using assms(1) True c1
      by (cases g; cases "the g") (auto simp: run split: option.splits)
  next
    case valued: True
    then obtain v ex where v: "g = Some (REDIS_REPLY_STRING v)" "parse_epoch (c_str v) = Some ex" by blast
    obtain s1 t r1 where t: "redis_server_time (logging cmd) \<lparr>ctx = (c1, [([''GET'', key], g)])\<rparr> = (s1, t, r1)" by (metis prod_cases3)
    obtain rep c2 where r1: "r1 = \<lparr>ctx = (c2, [([''GET'', key], g), ([''TIME''], rep)])\<rparr>"
      and ok: "s1 = ALPHA_OK \<longrightarrow> (\<exists>s u e. rep = Some (REDIS_REPLY_ARRAY [REDIS_REPLY_STRING s, u]) \<and> parse_epoch (c_str s) = Some e \<and> t = Some e)"
      using server_time_shape [OF t] by auto
    obtain u c3 where c3: "cmd c2 [''TTL'', key] = (u, c3)" by force
    show ?thesis
    proof (cases "s1 = ALPHA_OK \<and> (\<exists>ttl. u = Some (REDIS_REPLY_INTEGER ttl))")
      case False
      then show ?thesis using assms(1) True c1 v t r1 c3
        by (cases "s1 = ALPHA_OK"; cases u; cases "the u") (auto simp: run)
    next
      case True
      then obtain ttl s w now where o: "u = Some (REDIS_REPLY_INTEGER ttl)" "s1 = ALPHA_OK"
        "rep = Some (REDIS_REPLY_ARRAY [REDIS_REPLY_STRING s, w])" "parse_epoch (c_str s) = Some now" "t = Some now" using ok by blast
      let ?bad = "ttl \<le> 0 \<or> ex \<le> now \<or> ex - now < ttl \<or> ex - now > ttl + 1"
      have "(st, locked, e) = (if ?bad then (ALPHA_ERR_IO, Some True, None) else (ALPHA_OK, Some True, Some ex))"
        "entries = [([''GET'', key], Some (REDIS_REPLY_STRING v)), ([''TIME''], Some (REDIS_REPLY_ARRAY [REDIS_REPLY_STRING s, w])),
           ([''TTL'', key], Some (REDIS_REPLY_INTEGER ttl))]"
        using assms(1) \<open>breaker_key (Some scope) = (ALPHA_OK, key)\<close> c1 v t r1 c3 o by (simp_all add: run split: if_splits)
      then show ?thesis using v(2) o(4) by (cases ?bad) (simp_all add: not_le not_less)
    qed
  qed
qed

theorem breaker_check_fail_closed_witness:
  "\<exists>expiry. parse_epoch (c_str ''1767312000'') = Some expiry \<and> 1767150000 < expiry \<and> expiry - 1767150000 \<le> 162001"
proof -
  let ?s = "[Some (REDIS_REPLY_STRING ''1767312000''),
     Some (REDIS_REPLY_ARRAY [REDIS_REPLY_STRING ''1767150000'', REDIS_REPLY_STRING ''0'']), Some (REDIS_REPLY_INTEGER 162000)]"
  have r: "alpha_redis_is_breaker_locked (logging scripted) (Some \<lparr>ctx = (?s, [])\<rparr>) (Some ''kospi'') True True
     = (ALPHA_OK, Some True, Some 1767312000, Some \<lparr>ctx = ([], zip [[''GET'', ''hard_stop:lockout:kospi''], [''TIME''], [''TTL'', ''hard_stop:lockout:kospi'']] ?s)\<rparr>)"
    by code_simp
  have "parse_epoch (c_str ''1767150000'') = Some 1767150000" by code_simp
  then show ?thesis using breaker_check_fail_closed [OF r refl] by auto
qed

text \<open>
  C12. A lock that is set is seen and can be cleared: on a server that behaves as documented, for a scope that fits the key
  and an expiry at least four seconds ahead, setting the lock succeeds, the next check confirms it with the very expiry that
  was set, clearing it succeeds, and the check after that reports that there is no lock.
\<close>

theorem lockout_roundtrip:
  assumes "redis_documented cmd clock store" "scope \<noteq> []" "length scope \<le> 77"
    and "1000 \<le> clock c" "clock c + 4000 \<le> expiry * 1000" "expiry \<le> LLONG_MAX" "now < expiry"
    and "alpha_redis_set_breaker_lockout cmd (Some \<lparr>ctx = c\<rparr>) (Some scope) now expiry = (st1, r1)"
    and "alpha_redis_is_breaker_locked cmd r1 (Some scope) True True = (st2, locked2, e2, r2)"
    and "alpha_redis_clear_breaker_lockout cmd r2 (Some scope) = (st3, r3)"
    and "alpha_redis_is_breaker_locked cmd r3 (Some scope) True True = (st4, locked4, e4, r4)"
  shows "st1 = ALPHA_OK \<and> (st2, locked2, e2) = (ALPHA_OK, Some True, Some expiry)
    \<and> st3 = ALPHA_OK \<and> (st4, locked4, e4) = (ALPHA_OK, Some False, None)"
proof -
  let ?k = "''hard_stop:lockout:'' @ scope"
  note key = breaker_key_fits [OF assms(2,3)]
  obtain c1 where c1: "alpha_redis_set_breaker_lockout cmd (Some \<lparr>ctx = c\<rparr>) (Some scope) now expiry = (ALPHA_OK, Some \<lparr>ctx = c1\<rparr>)"
    "store c1 = (store c)(?k \<mapsto> (fmt_int expiry, expiry))" "clock c \<le> clock c1" "clock c1 \<le> clock c + 1000"
    using documented_set [OF assms(1) key assms(4) _ assms(6,7)] assms(5) by auto
  have "1000 \<le> clock c1" "clock c1 + 2500 \<le> expiry * 1000" "store c1 ?k = Some (fmt_int expiry, expiry)"
    using c1(2-4) assms(4,5) by simp_all
  then obtain c2 where c2: "alpha_redis_is_breaker_locked cmd (Some \<lparr>ctx = c1\<rparr>) (Some scope) True True = (ALPHA_OK, Some True, Some expiry, Some \<lparr>ctx = c2\<rparr>)"
    using documented_check [OF assms(1) key _ _ assms(6)] by blast
  let ?c3 = "snd (cmd c2 [''DEL'', ?k])"
  have d: "fst (cmd c2 [''DEL'', ?k]) \<noteq> None" "store ?c3 ?k = None"
    using assms(1) unfolding redis_documented_def by auto
  then have c3: "alpha_redis_clear_breaker_lockout cmd (Some \<lparr>ctx = c2\<rparr>) (Some scope) = (ALPHA_OK, Some \<lparr>ctx = ?c3\<rparr>)"
    using key by (cases "cmd c2 [''DEL'', ?k]") (simp add: alpha_redis_clear_breaker_lockout_def redis_call_def)
  have "fst (cmd ?c3 [''GET'', ?k]) = Some REDIS_REPLY_NIL"
    using assms(1) d(2) unfolding redis_documented_def by (auto simp: live_def)
  then have "alpha_redis_is_breaker_locked cmd (Some \<lparr>ctx = ?c3\<rparr>) (Some scope) True True
      = (ALPHA_OK, Some False, None, Some \<lparr>ctx = snd (cmd ?c3 [''GET'', ?k])\<rparr>)"
    using key by (cases "cmd ?c3 [''GET'', ?k]") (simp add: alpha_redis_is_breaker_locked_def redis_call_def)
  then show ?thesis using assms(8-11) c1(1) c2 c3 by simp
qed

lemma memory_redis_documented: "redis_documented memory_redis fst snd"
proof -
  have "fst (snd (memory_redis (t, m) args)) = t" for t m args
    by (simp add: memory_redis_def split: list.splits)
  moreover have "strtoll (fmt_int e) = (e, False, [])" if "0 < e" "e \<le> LLONG_MAX" for e
    using that strtoll_fmt_int [of e] by (simp add: LLONG_MIN_def)
  ultimately show ?thesis unfolding redis_documented_def by (auto simp: memory_redis_def split: option.splits)
qed

theorem lockout_roundtrip_witness:
  "\<exists>st1 r1 st2 locked2 e2 r2.
     alpha_redis_set_breaker_lockout memory_redis (Some \<lparr>ctx = (1767150000999, Map.empty)\<rparr>) (Some ''kospi'') 1767150000 1767312000 = (st1, r1)
     \<and> alpha_redis_is_breaker_locked memory_redis r1 (Some ''kospi'') True True = (st2, locked2, e2, r2)
     \<and> st1 = ALPHA_OK \<and> (st2, locked2, e2) = (ALPHA_OK, Some True, Some 1767312000)"
proof -
  let ?c = "(1767150000999, Map.empty)"
  obtain st1 r1 where a: "alpha_redis_set_breaker_lockout memory_redis (Some \<lparr>ctx = ?c\<rparr>) (Some ''kospi'') 1767150000 1767312000 = (st1, r1)" by fastforce
  obtain st2 l2 e2 r2 where b: "alpha_redis_is_breaker_locked memory_redis r1 (Some ''kospi'') True True = (st2, l2, e2, r2)" by (metis prod_cases4)
  obtain st3 r3 where d: "alpha_redis_clear_breaker_lockout memory_redis r2 (Some ''kospi'') = (st3, r3)" by fastforce
  obtain st4 l4 e4 r4 where e: "alpha_redis_is_breaker_locked memory_redis r3 (Some ''kospi'') True True = (st4, l4, e4, r4)" by (metis prod_cases4)
  show ?thesis
    using lockout_roundtrip [OF memory_redis_documented _ _ _ _ _ _ a b d e] a b by (simp add: LLONG_MAX_def)
qed

text \<open>
  C32. The calendar parser is the inverse of printing: the JSON text of up to 512 dates of one year, in
  order and with any blanks after the commas, parses to their day numbers. Conversely whatever text
  it accepts for a year gives strictly increasing days of that very year, at most 512 of them, so the search
  for the next session can rely on the list.
\<close>

theorem holiday_json_roundtrip:
  assumes "0 \<le> y" "y < 10000"
  shows "(calendar_of y ts \<and> length ts \<le> MAX_HOLIDAYS \<and> list_all is_space ws \<longrightarrow>
      parse_holiday_json (calendar_json ws ts) y = Some (map (\<lambda>(y, m, d). days_from_civil y (word_of_int m) (word_of_int d)) ts))
    \<and> (parse_holiday_json json y = Some days \<longrightarrow>
        sorted_wrt (<) days \<and> (\<forall>d\<in>set days. fst (civil_from_days d) = y) \<and> length days \<le> MAX_HOLIDAYS)"
proof (intro conjI impI)
  assume ts: "calendar_of y ts \<and> length ts \<le> MAX_HOLIDAYS \<and> list_all is_space ws"
  have loop: "holiday_loop y (calendar_entries ws ts) [] = Some ([] @ map day_number ts, '']'')"
    using ts assms by (intro holiday_loop_entries) (simp_all add: list_all_iff)
  have "skip_space (calendar_entries ws ts) = calendar_entries ws ts"
    using calendar_entries_start [of ws ts] by auto
  then have "parse_holiday_json (calendar_json ws ts) y = Some (map day_number ts)"
    using loop by (simp add: parse_holiday_json_def calendar_json_def Let_def)
  moreover have "day_number t = (\<lambda>(y, m, d). days_from_civil y (word_of_int m) (word_of_int d)) t" if "t \<in> set ts" for t
  proof -
    obtain y' m d where t: "t = (y', m, d)" by (cases t)
    then have "valid_date (y', m, d)" using that ts by (auto simp: calendar_of_def list_all_iff)
    from valid_date_month_day [OF this] show ?thesis by (simp add: t days_from_civil_day_number)
  qed
  ultimately show "parse_holiday_json (calendar_json ws ts) y = Some (map (\<lambda>(y, m, d). days_from_civil y (word_of_int m) (word_of_int d)) ts)"
    by simp
next
  assume p: "parse_holiday_json json y = Some days"
  have "- (2 ^ 31) \<le> y" "y < 2 ^ 31" using assms by simp_all
  from parse_holiday_json_Some [OF p this]
  show "sorted_wrt (<) days" "\<forall>d\<in>set days. fst (civil_from_days d) = y" "length days \<le> MAX_HOLIDAYS"
    by (simp_all add: civil_year_same)
qed

theorem holiday_json_roundtrip_witness:
  "parse_holiday_json (calendar_json '' '' [(2026, 1, 1), (2026, 2, 16)]) 2026 = Some [20454, 20500]"
proof -
  have "calendar_of 2026 [(2026, 1, 1), (2026, 2, 16)]" "days_from_civil 2026 1 1 = 20454" "days_from_civil 2026 2 16 = 20500"
    by code_simp+
  then show ?thesis
    using holiday_json_roundtrip [of 2026 "[(2026, 1, 1), (2026, 2, 16)]" "'' ''"]
    by (simp add: MAX_HOLIDAYS_def is_space_def)
qed

lemma holiday_json_lenient:
  "parse_holiday_json (CHR ''['' # quoted_date (2026, 1, 1) @ '',]'') 2026 = Some [20454]"
  "parse_holiday_json (CHR ''['' # quoted_date (2026, 2, 30) @ '']'') 2026 = Some [days_from_civil 2026 3 2]"
  by code_simp+

end
