(* ===== verification/Redis_Async.thy ===== *)
theory Redis_Async
  imports Redis_Cache
begin

unbundle bit_operations_syntax

text \<open>
  The asynchronous Redis driver (\<^verbatim>\<open>core/platform/cache/redis_async.c\<close>): an adapter between hiredis and
  the event loop of the caller. hiredis is a parameter, a record of functions on the state of its context; the calls that it
  makes back into the adapter are part of what these functions return. The callbacks of the caller are emitted events.
\<close>

section \<open>The code\<close>

subsection \<open>Types\<close>

definition ALPHA_REDIS_ASYNC_MAX_PENDING :: nat where "ALPHA_REDIS_ASYNC_MAX_PENDING = 64"

definition ALPHA_REDIS_WATCH_NONE :: "32 word" where "ALPHA_REDIS_WATCH_NONE = 0"

definition ALPHA_REDIS_WATCH_READ :: "32 word" where "ALPHA_REDIS_WATCH_READ = 1"

definition ALPHA_REDIS_WATCH_WRITE :: "32 word" where "ALPHA_REDIS_WATCH_WRITE = 2"

datatype 'u redis_event =
    Redis_Watch int "32 word"
  | Redis_Timer int
  | Redis_Connect alpha_err_t
  | Redis_Reply alpha_err_t "string option" int 'u

record 'h alpha_redis_async_t =
  ra_context :: "'h option"
  ra_host :: string
  ra_port :: int
  ra_watch :: "32 word"
  ra_pending :: nat

text \<open>A call from hiredis: the hooks of its event adapter, the two connection callbacks, the first with its status, and the
  callback of a command, with its reply and its user data.\<close>

datatype 'u hiredis_call =
    Add_Read
  | Del_Read
  | Add_Write
  | Del_Write
  | Cleanup
  | Schedule_Timer int int
  | Connected bool
  | Disconnected
  | Replied "redis_reply option" 'u

text \<open>The descriptor and the error code of a context are read with \<open>redis_fd\<close> and \<open>redis_err\<close>. The descriptor stays the same
  for the life of the context.\<close>

record ('h, 'u) hiredis =
  redisAsyncConnect :: "string \<Rightarrow> int \<Rightarrow> 'h option"
  redis_fd :: "'h \<Rightarrow> int"
  redis_err :: "'h \<Rightarrow> int"
  redisAsyncFree :: "'h \<Rightarrow> 'u hiredis_call list"
  redisAsyncSetConnectCallback :: "'h \<Rightarrow> bool \<times> 'u hiredis_call list \<times> 'h"
  redisAsyncSetDisconnectCallback :: "'h \<Rightarrow> bool \<times> 'u hiredis_call list \<times> 'h"
  redisAsyncHandleRead :: "'h \<Rightarrow> 'u hiredis_call list \<times> 'h"
  redisAsyncHandleWrite :: "'h \<Rightarrow> 'u hiredis_call list \<times> 'h"
  redisAsyncHandleTimeout :: "'h \<Rightarrow> 'u hiredis_call list \<times> 'h"
  redisAsyncCommandArgv :: "'h \<Rightarrow> 'u \<Rightarrow> string list \<Rightarrow> bool \<times> 'u hiredis_call list \<times> 'h"

subsection \<open>Calls from hiredis\<close>

definition publish_watch :: "('h, 'u) hiredis \<Rightarrow> 'h alpha_redis_async_t \<Rightarrow> 'u redis_event" where
  "publish_watch lib redis = Redis_Watch (case ra_context redis of None \<Rightarrow> - 1 | Some h \<Rightarrow> redis_fd lib h) (ra_watch redis)"

definition add_read :: "('h, 'u) hiredis \<Rightarrow> 'h alpha_redis_async_t \<Rightarrow> 'u redis_event list \<times> 'h alpha_redis_async_t" where
  "add_read lib redis = (let redis = redis\<lparr>ra_watch := ra_watch redis OR ALPHA_REDIS_WATCH_READ\<rparr> in ([publish_watch lib redis], redis))"

definition del_read :: "('h, 'u) hiredis \<Rightarrow> 'h alpha_redis_async_t \<Rightarrow> 'u redis_event list \<times> 'h alpha_redis_async_t" where
  "del_read lib redis = (let redis = redis\<lparr>ra_watch := ra_watch redis AND NOT ALPHA_REDIS_WATCH_READ\<rparr> in ([publish_watch lib redis], redis))"

definition add_write :: "('h, 'u) hiredis \<Rightarrow> 'h alpha_redis_async_t \<Rightarrow> 'u redis_event list \<times> 'h alpha_redis_async_t" where
  "add_write lib redis = (let redis = redis\<lparr>ra_watch := ra_watch redis OR ALPHA_REDIS_WATCH_WRITE\<rparr> in ([publish_watch lib redis], redis))"

definition del_write :: "('h, 'u) hiredis \<Rightarrow> 'h alpha_redis_async_t \<Rightarrow> 'u redis_event list \<times> 'h alpha_redis_async_t" where
  "del_write lib redis = (let redis = redis\<lparr>ra_watch := ra_watch redis AND NOT ALPHA_REDIS_WATCH_WRITE\<rparr> in ([publish_watch lib redis], redis))"

definition cleanup :: "('h, 'u) hiredis \<Rightarrow> 'h alpha_redis_async_t \<Rightarrow> 'u redis_event list \<times> 'h alpha_redis_async_t" where
  "cleanup lib redis = (let redis = redis\<lparr>ra_watch := ALPHA_REDIS_WATCH_NONE\<rparr> in ([publish_watch lib redis], redis))"

definition schedule_timer :: "int \<Rightarrow> int \<Rightarrow> 'u redis_event" where
  "schedule_timer tv_sec tv_usec = Redis_Timer (tv_sec * 1000 + tv_usec sdiv 1000)"

definition connected :: "bool \<Rightarrow> 'u redis_event" where
  "connected ok = Redis_Connect (if ok then ALPHA_OK else ALPHA_ERR_IO)"

definition disconnected :: "int \<Rightarrow> 'h alpha_redis_async_t \<Rightarrow> 'u redis_event list \<times> 'h alpha_redis_async_t" where
  "disconnected fd redis =
     ([Redis_Watch fd ALPHA_REDIS_WATCH_NONE, Redis_Connect ALPHA_ERR_IO], redis\<lparr>ra_context := None, ra_watch := ALPHA_REDIS_WATCH_NONE\<rparr>)"

definition replied :: "redis_reply option \<Rightarrow> 'u \<Rightarrow> 'h alpha_redis_async_t \<Rightarrow> 'u redis_event list \<times> 'h alpha_redis_async_t" where
  "replied reply user_data redis =
     (let redis = (if ra_pending redis > 0 then redis\<lparr>ra_pending := ra_pending redis - 1\<rparr> else redis);
          (status, txt, integer) =
            (case reply of
               Some (REDIS_REPLY_STRING s) \<Rightarrow> (ALPHA_OK, Some s, 0)
             | Some (REDIS_REPLY_STATUS s) \<Rightarrow> (ALPHA_OK, Some s, 0)
             | Some (REDIS_REPLY_INTEGER n) \<Rightarrow> (ALPHA_OK, None, n)
             | Some REDIS_REPLY_NIL \<Rightarrow> (ALPHA_OK, None, 0)
             | _ \<Rightarrow> (ALPHA_ERR_IO, None, 0))
      in ([Redis_Reply status txt integer user_data], redis))"

text \<open>\<open>fd\<close> is the descriptor of the context that makes the call.\<close>

fun hiredis_callback ::
    "('h, 'u) hiredis \<Rightarrow> int \<Rightarrow> 'u hiredis_call \<Rightarrow> 'h alpha_redis_async_t \<Rightarrow> 'u redis_event list \<times> 'h alpha_redis_async_t" where
  "hiredis_callback lib fd Add_Read redis = add_read lib redis"
| "hiredis_callback lib fd Del_Read redis = del_read lib redis"
| "hiredis_callback lib fd Add_Write redis = add_write lib redis"
| "hiredis_callback lib fd Del_Write redis = del_write lib redis"
| "hiredis_callback lib fd Cleanup redis = cleanup lib redis"
| "hiredis_callback lib fd (Schedule_Timer s us) redis = ([schedule_timer s us], redis)"
| "hiredis_callback lib fd (Connected ok) redis = ([connected ok], redis)"
| "hiredis_callback lib fd Disconnected redis = disconnected fd redis"
| "hiredis_callback lib fd (Replied reply u) redis = replied reply u redis"

fun hiredis_callbacks ::
    "('h, 'u) hiredis \<Rightarrow> int \<Rightarrow> 'u hiredis_call list \<Rightarrow> 'h alpha_redis_async_t \<Rightarrow> 'u redis_event list \<times> 'h alpha_redis_async_t" where
  "hiredis_callbacks lib fd [] redis = ([], redis)"
| "hiredis_callbacks lib fd (c # cs) redis =
     (case hiredis_callback lib fd c redis of (evs, redis) \<Rightarrow>
        case hiredis_callbacks lib fd cs redis of (evs', redis) \<Rightarrow> (evs @ evs', redis))"

text \<open>A function of hiredis runs on the context, and its calls on the adapter.\<close>

definition enter ::
    "('h, 'u) hiredis \<Rightarrow> 'u hiredis_call list \<Rightarrow> 'h \<Rightarrow> 'h alpha_redis_async_t \<Rightarrow> 'u redis_event list \<times> 'h alpha_redis_async_t" where
  "enter lib calls h redis = hiredis_callbacks lib (redis_fd lib h) calls (redis\<lparr>ra_context := Some h\<rparr>)"

subsection \<open>The adapter\<close>

text \<open>A context whose connection attempt failed has no hooks yet: releasing it makes no calls.\<close>

definition start_connection ::
    "('h, 'u) hiredis \<Rightarrow> 'h alpha_redis_async_t \<Rightarrow> alpha_err_t \<times> 'u redis_event list \<times> 'h alpha_redis_async_t" where
  "start_connection lib redis =
     (case redisAsyncConnect lib (ra_host redis) (ra_port redis) of
        None \<Rightarrow> (ALPHA_ERR_IO, [], redis\<lparr>ra_context := None\<rparr>)
      | Some h \<Rightarrow>
          if redis_err lib h \<noteq> 0 then (ALPHA_ERR_IO, [], redis\<lparr>ra_context := None\<rparr>)
          else
            (case redisAsyncSetConnectCallback lib h of (ok, calls, h) \<Rightarrow>
               case enter lib calls h redis of (evs, redis) \<Rightarrow>
                 if \<not> ok then
                   (case enter lib (redisAsyncFree lib h) h redis of (evs', redis) \<Rightarrow> (ALPHA_ERR_IO, evs @ evs', redis\<lparr>ra_context := None\<rparr>))
                 else
                   (case redisAsyncSetDisconnectCallback lib h of (ok, calls, h) \<Rightarrow>
                      case enter lib calls h redis of (evs', redis) \<Rightarrow>
                        if \<not> ok then
                          (case enter lib (redisAsyncFree lib h) h redis of
                             (evs'', redis) \<Rightarrow> (ALPHA_ERR_IO, evs @ evs' @ evs'', redis\<lparr>ra_context := None\<rparr>))
                        else (ALPHA_OK, evs @ evs', redis))))"

text \<open>Whether the four callbacks and the output are given, and the outcomes of the two allocations.\<close>

definition alpha_redis_async_connect ::
    "('h, 'u) hiredis \<Rightarrow> string option \<Rightarrow> int \<Rightarrow> bool \<Rightarrow> bool \<Rightarrow> bool \<Rightarrow> bool \<Rightarrow> bool \<Rightarrow> bool \<Rightarrow> bool \<Rightarrow>
     alpha_err_t \<times> 'u redis_event list \<times> 'h alpha_redis_async_t option" where
  "alpha_redis_async_connect lib host port watch_fn timer_fn connect_fn reply_fn out calloc_ok malloc_ok =
     (case host of None \<Rightarrow> (ALPHA_ERR_INVALID_ARG, [], None)
      | Some name \<Rightarrow>
        if port \<le> 0 \<or> \<not> watch_fn \<or> \<not> timer_fn \<or> \<not> connect_fn \<or> \<not> reply_fn \<or> \<not> out then (ALPHA_ERR_INVALID_ARG, [], None)
        else if \<not> calloc_ok then (ALPHA_ERR_IO, [], None)
        else if \<not> malloc_ok then (ALPHA_ERR_IO, [], None)
        else
          (case start_connection lib \<lparr>ra_context = None, ra_host = name, ra_port = port, ra_watch = 0, ra_pending = 0\<rparr> of
             (st, evs, redis) \<Rightarrow> if st \<noteq> ALPHA_OK then (ALPHA_ERR_IO, evs, None) else (ALPHA_OK, evs, Some redis)))"

definition alpha_redis_async_close :: "('h, 'u) hiredis \<Rightarrow> 'h alpha_redis_async_t option \<Rightarrow> 'u redis_event list" where
  "alpha_redis_async_close lib redis =
     (case redis of None \<Rightarrow> []
      | Some r \<Rightarrow> (case ra_context r of None \<Rightarrow> [] | Some h \<Rightarrow> fst (enter lib (redisAsyncFree lib h) h r)))"

definition context_status :: "('h, 'u) hiredis \<Rightarrow> 'h alpha_redis_async_t \<Rightarrow> alpha_err_t" where
  "context_status lib redis = (case ra_context redis of None \<Rightarrow> ALPHA_ERR_IO | Some h \<Rightarrow> if redis_err lib h = 0 then ALPHA_OK else ALPHA_ERR_IO)"

definition alpha_redis_async_service ::
    "('h, 'u) hiredis \<Rightarrow> 'h alpha_redis_async_t option \<Rightarrow> 32 word \<Rightarrow> alpha_err_t \<times> 'u redis_event list \<times> 'h alpha_redis_async_t option" where
  "alpha_redis_async_service lib redis ready =
     (case redis of None \<Rightarrow> (ALPHA_ERR_INVALID_ARG, [], None)
      | Some r \<Rightarrow>
        (case ra_context r of None \<Rightarrow> (ALPHA_ERR_INVALID_ARG, [], redis)
         | Some h \<Rightarrow>
             (case (if ready AND ALPHA_REDIS_WATCH_READ \<noteq> 0
                    then (case redisAsyncHandleRead lib h of (calls, h) \<Rightarrow> enter lib calls h r) else ([], r)) of (evs, r) \<Rightarrow>
                case (case ra_context r of
                        None \<Rightarrow> ([], r)
                      | Some h \<Rightarrow>
                          if ready AND ALPHA_REDIS_WATCH_WRITE \<noteq> 0
                          then (case redisAsyncHandleWrite lib h of (calls, h) \<Rightarrow> enter lib calls h r) else ([], r)) of (evs', r) \<Rightarrow>
                  (context_status lib r, evs @ evs', Some r))))"

definition alpha_redis_async_timeout ::
    "('h, 'u) hiredis \<Rightarrow> 'h alpha_redis_async_t option \<Rightarrow> alpha_err_t \<times> 'u redis_event list \<times> 'h alpha_redis_async_t option" where
  "alpha_redis_async_timeout lib redis =
     (case redis of None \<Rightarrow> (ALPHA_ERR_INVALID_ARG, [], None)
      | Some r \<Rightarrow>
        (case ra_context r of None \<Rightarrow> (ALPHA_ERR_INVALID_ARG, [], redis)
         | Some h \<Rightarrow>
             (case redisAsyncHandleTimeout lib h of (calls, h) \<Rightarrow>
                case enter lib calls h r of (evs, r) \<Rightarrow> (context_status lib r, evs, Some r))))"

text \<open>The arguments are the bytes at the pointers, each of its own length.\<close>

definition command_args :: "int \<Rightarrow> string list \<Rightarrow> nat list \<Rightarrow> string list" where
  "command_args argc argv lengths = map (\<lambda>(s, n). take n s) (take (nat argc) (zip argv lengths))"

definition alpha_redis_async_command ::
    "('h, 'u) hiredis \<Rightarrow> 'h alpha_redis_async_t option \<Rightarrow> int \<Rightarrow> string list option \<Rightarrow> nat list option \<Rightarrow> 'u \<Rightarrow>
     alpha_err_t \<times> 'u redis_event list \<times> 'h alpha_redis_async_t option" where
  "alpha_redis_async_command lib redis argc argv lengths user_data =
     (case (redis, argv, lengths) of
        (Some r, Some args, Some lens) \<Rightarrow>
          (case ra_context r of None \<Rightarrow> (ALPHA_ERR_INVALID_ARG, [], redis)
           | Some h \<Rightarrow>
             if argc \<le> 0 then (ALPHA_ERR_INVALID_ARG, [], redis)
             else if ra_pending r \<ge> ALPHA_REDIS_ASYNC_MAX_PENDING then (ALPHA_ERR_RANGE, [], redis)
             else
               (case redisAsyncCommandArgv lib h user_data (command_args argc args lens) of (ok, calls, h) \<Rightarrow>
                  case enter lib calls h r of (evs, r) \<Rightarrow>
                    if \<not> ok then (ALPHA_ERR_IO, evs, Some r)
                    else (ALPHA_OK, evs, Some (r\<lparr>ra_pending := ra_pending r + 1\<rparr>))))
      | _ \<Rightarrow> (ALPHA_ERR_INVALID_ARG, [], redis))"

text \<open>\<open>sizeof (prefix)\<close> counts the terminating zero.\<close>

definition latest_prefix :: string where "latest_prefix = ''redis:cache:latest_ticks:''"

definition latest_key :: "string option \<Rightarrow> nat \<Rightarrow> alpha_err_t \<times> string" where
  "latest_key ticker capacity =
     (case ticker of None \<Rightarrow> (ALPHA_ERR_INVALID_ARG, [])
      | Some t \<Rightarrow>
          if t = [] then (ALPHA_ERR_INVALID_ARG, [])
          else if length t > capacity - (length latest_prefix + 1) then (ALPHA_ERR_RANGE, [])
          else (ALPHA_OK, latest_prefix @ t))"

definition alpha_redis_async_set_latest_tick ::
    "('h, 'u) hiredis \<Rightarrow> 'h alpha_redis_async_t option \<Rightarrow> string option \<Rightarrow> string option \<Rightarrow> 'u \<Rightarrow>
     alpha_err_t \<times> 'u redis_event list \<times> 'h alpha_redis_async_t option" where
  "alpha_redis_async_set_latest_tick lib redis ticker json_payload user_data =
     (case latest_key ticker 256 of (key_status, key) \<Rightarrow>
        if key_status \<noteq> ALPHA_OK then (key_status, [], redis)
        else case json_payload of
          None \<Rightarrow> (ALPHA_ERR_INVALID_ARG, [], redis)
        | Some payload \<Rightarrow>
            alpha_redis_async_command lib redis 5 (Some [''SET'', key, payload, ''EX'', ''60''])
              (Some [3, length key, length payload, 2, 2]) user_data)"

definition alpha_redis_async_get_latest_tick ::
    "('h, 'u) hiredis \<Rightarrow> 'h alpha_redis_async_t option \<Rightarrow> string option \<Rightarrow> 'u \<Rightarrow>
     alpha_err_t \<times> 'u redis_event list \<times> 'h alpha_redis_async_t option" where
  "alpha_redis_async_get_latest_tick lib redis ticker user_data =
     (case latest_key ticker 256 of (st, key) \<Rightarrow>
        if st \<noteq> ALPHA_OK then (st, [], redis)
        else alpha_redis_async_command lib redis 2 (Some [''GET'', key]) (Some [3, length key]) user_data)"

definition alpha_redis_async_reconnect ::
    "('h, 'u) hiredis \<Rightarrow> 'h alpha_redis_async_t option \<Rightarrow> alpha_err_t \<times> 'u redis_event list \<times> 'h alpha_redis_async_t option" where
  "alpha_redis_async_reconnect lib redis =
     (case redis of None \<Rightarrow> (ALPHA_ERR_INVALID_ARG, [], None)
      | Some r \<Rightarrow>
          if ra_context r \<noteq> None then (ALPHA_ERR_RANGE, [], redis)
          else (case start_connection lib r of (st, evs, r) \<Rightarrow> (st, evs, Some r)))"

definition alpha_redis_async_pending :: "'h alpha_redis_async_t option \<Rightarrow> nat" where
  "alpha_redis_async_pending redis = (case redis of Some r \<Rightarrow> ra_pending r | None \<Rightarrow> 0)"

definition alpha_redis_async_socket :: "('h, 'u) hiredis \<Rightarrow> 'h alpha_redis_async_t option \<Rightarrow> int" where
  "alpha_redis_async_socket lib redis =
     (case redis of None \<Rightarrow> - 1 | Some r \<Rightarrow> (case ra_context r of None \<Rightarrow> - 1 | Some h \<Rightarrow> redis_fd lib h))"

section \<open>The counter and the watch\<close>

text \<open>The trace of a run: what the adapter emits, and the commands that it accepts.\<close>

datatype 'u redis_trace = Emitted "'u redis_event" | Accepted 'u

text \<open>The number of outstanding commands, which never goes below zero, and the watch that was published last.\<close>

fun outstanding :: "nat \<Rightarrow> 'u redis_trace list \<Rightarrow> nat" where
  "outstanding n [] = n"
| "outstanding n (Accepted u # ts) = outstanding (n + 1) ts"
| "outstanding n (Emitted (Redis_Reply st txt i u) # ts) = outstanding (n - 1) ts"
| "outstanding n (Emitted ev # ts) = outstanding n ts"

fun published :: "32 word \<Rightarrow> 'u redis_trace list \<Rightarrow> 32 word" where
  "published w [] = w"
| "published w (Emitted (Redis_Watch fd w') # ts) = published w' ts"
| "published w (t # ts) = published w ts"

lemma outstanding_append [simp]: "outstanding n (a @ b) = outstanding (outstanding n a) b"
  by (induction n a rule: outstanding.induct) simp_all

lemma published_append [simp]: "published w (a @ b) = published (published w a) b"
  by (induction w a rule: published.induct) simp_all

text \<open>A step of the adapter is seen in its trace.\<close>

definition valid_watch :: "32 word \<Rightarrow> bool" where
  "valid_watch w \<longleftrightarrow> w = 0 \<or> w = 1 \<or> w = 2 \<or> w = 3"

definition async_step :: "'h alpha_redis_async_t \<Rightarrow> 'u redis_trace list \<Rightarrow> 'h alpha_redis_async_t \<Rightarrow> bool" where
  "async_step r ts r' \<longleftrightarrow> ra_pending r' = outstanding (ra_pending r) ts \<and> ra_watch r' = published (ra_watch r) ts
     \<and> (ra_pending r \<le> ALPHA_REDIS_ASYNC_MAX_PENDING \<longrightarrow> ra_pending r' \<le> ALPHA_REDIS_ASYNC_MAX_PENDING)
     \<and> (valid_watch (ra_watch r) \<longrightarrow> valid_watch (ra_watch r'))"

lemma async_step_refl: "async_step r [] r"
  by (simp add: async_step_def)

lemma async_step_trans: "async_step r a r' \<Longrightarrow> async_step r' b r'' \<Longrightarrow> async_step r (a @ b) r''"
  by (auto simp: async_step_def)

lemma async_step_context [simp]:
  "async_step (r\<lparr>ra_context := c\<rparr>) ts r' = async_step r ts r'" "async_step r ts (r'\<lparr>ra_context := c\<rparr>) = async_step r ts r'"
  by (simp_all add: async_step_def)

lemmas redis_watch_bits = ALPHA_REDIS_WATCH_READ_def ALPHA_REDIS_WATCH_WRITE_def ALPHA_REDIS_WATCH_NONE_def

lemma valid_watch_ops:
  assumes "valid_watch w"
  shows "valid_watch (w OR 1)" "valid_watch (w OR 2)" "valid_watch (w AND - 2)" "valid_watch (w AND - 3)" "valid_watch 0"
  using assms by (auto simp: valid_watch_def)

lemma outstanding_emitted_le: "outstanding n (map Emitted evs) \<le> n"
proof (induction evs arbitrary: n)
  case (Cons e evs)
  from Cons.IH [of n] Cons.IH [of "n - 1"] show ?case by (cases e) auto
qed simp

lemma hiredis_callback_step:
  "hiredis_callback lib fd c r = (evs, r') \<Longrightarrow> async_step r (map Emitted evs) r'"
proof (cases c)
  case (Replied reply u)
  assume "hiredis_callback lib fd c r = (evs, r')"
  with Replied show ?thesis
    by (auto simp: replied_def Let_def async_step_def split: option.splits redis_reply.splits if_splits prod.splits)
qed (auto simp: add_read_def del_read_def add_write_def del_write_def cleanup_def publish_watch_def schedule_timer_def connected_def
    disconnected_def Let_def async_step_def redis_watch_bits valid_watch_ops)

lemma hiredis_callbacks_step: "hiredis_callbacks lib fd cs r = (evs, r') \<Longrightarrow> async_step r (map Emitted evs) r'"
proof (induction cs arbitrary: r evs)
  case (Cons c cs)
  obtain e1 r1 e2 where d: "hiredis_callback lib fd c r = (e1, r1)" "hiredis_callbacks lib fd cs r1 = (e2, r')" "evs = e1 @ e2"
    using Cons.prems by (auto split: prod.splits)
  then show ?case using async_step_trans [OF hiredis_callback_step [OF d(1)] Cons.IH [OF d(2)]] by simp
qed (simp add: async_step_refl)

lemma enter_step: "enter lib calls h r = (evs, r') \<Longrightarrow> async_step r (map Emitted evs) r'"
  unfolding enter_def using hiredis_callbacks_step by fastforce

section \<open>The operations\<close>

lemma start_connection_step:
  assumes "start_connection lib r = (st, evs, r')"
  shows "async_step r (map Emitted evs) r'"
proof (cases "\<exists>h. redisAsyncConnect lib (ra_host r) (ra_port r) = Some h \<and> redis_err lib h = 0")
  case True
  then obtain h where h: "redisAsyncConnect lib (ra_host r) (ra_port r) = Some h" "redis_err lib h = 0" by blast
  obtain ok calls h1 where a: "redisAsyncSetConnectCallback lib h = (ok, calls, h1)" using prod_cases3 .
  obtain e1 r1 where e1: "enter lib calls h1 r = (e1, r1)" by fastforce
  obtain f1 q1 where f1: "enter lib (redisAsyncFree lib h1) h1 r1 = (f1, q1)" by fastforce
  obtain ok' calls' h2 where b: "redisAsyncSetDisconnectCallback lib h1 = (ok', calls', h2)" using prod_cases3 .
  obtain e2 r2 where e2: "enter lib calls' h2 r1 = (e2, r2)" by fastforce
  obtain f2 q2 where f2: "enter lib (redisAsyncFree lib h2) h2 r2 = (f2, q2)" by fastforce
  note s1 = enter_step [OF e1] and s2 = enter_step [OF e2] and t1 = enter_step [OF f1] and t2 = enter_step [OF f2]
  show ?thesis using assms h a e1 f1 b e2 f2 async_step_trans [OF s1 t1] async_step_trans [OF s1 s2] async_step_trans [OF s1 async_step_trans [OF s2 t2]]
    by (auto simp: start_connection_def split: if_splits)
qed (use assms in \<open>auto simp: start_connection_def async_step_refl split: option.splits if_splits\<close>)

lemma alpha_redis_async_service_step:
  assumes "alpha_redis_async_service lib (Some r) ready = (st, evs, Some r')"
  shows "async_step r (map Emitted evs) r'"
proof (cases "ra_context r")
  case (Some h)
  define p1 where "p1 = (if ready AND ALPHA_REDIS_WATCH_READ \<noteq> 0 then (case redisAsyncHandleRead lib h of (calls, h) \<Rightarrow> enter lib calls h r) else ([], r))"
  obtain e1 r1 where p1: "p1 = (e1, r1)" by fastforce
  define p2 where "p2 = (case ra_context r1 of None \<Rightarrow> ([], r1)
    | Some h \<Rightarrow> if ready AND ALPHA_REDIS_WATCH_WRITE \<noteq> 0 then (case redisAsyncHandleWrite lib h of (calls, h) \<Rightarrow> enter lib calls h r1) else ([], r1))"
  obtain e2 r2 where p2: "p2 = (e2, r2)" by fastforce
  have "async_step r (map Emitted e1) r1" "async_step r1 (map Emitted e2) r2"
    using p1 p2 enter_step [of lib] by (auto simp: p1_def p2_def async_step_refl split: if_splits option.splits prod.splits)
  moreover have "evs = e1 @ e2" "r' = r2" using assms Some p1 p2 by (simp_all add: alpha_redis_async_service_def p1_def p2_def)
  ultimately show ?thesis using async_step_trans by fastforce
qed (use assms in \<open>simp add: alpha_redis_async_service_def async_step_refl\<close>)

lemma alpha_redis_async_timeout_step:
  "alpha_redis_async_timeout lib (Some r) = (st, evs, Some r') \<Longrightarrow> async_step r (map Emitted evs) r'"
  using enter_step [of lib] by (auto simp: alpha_redis_async_timeout_def async_step_refl split: option.splits prod.splits)

definition async_accepted :: "alpha_err_t \<Rightarrow> 'u \<Rightarrow> 'u redis_trace list" where
  "async_accepted st u = (if st = ALPHA_OK then [Accepted u] else [])"

lemma alpha_redis_async_command_step:
  assumes "alpha_redis_async_command lib (Some r) argc argv lens u = (st, evs, Some r')"
  shows "async_step r (map Emitted evs @ async_accepted st u) r'"
proof (cases "\<exists>args ls h. argv = Some args \<and> lens = Some ls \<and> ra_context r = Some h \<and> argc > 0 \<and> ra_pending r < ALPHA_REDIS_ASYNC_MAX_PENDING")
  case True
  then obtain args ls h where d: "argv = Some args" "lens = Some ls" "ra_context r = Some h" "argc > 0" "ra_pending r < ALPHA_REDIS_ASYNC_MAX_PENDING" by blast
  obtain ok calls h1 where c: "redisAsyncCommandArgv lib h u (command_args argc args ls) = (ok, calls, h1)" using prod_cases3 .
  obtain e1 r1 where e: "enter lib calls h1 r = (e1, r1)" by fastforce
  note s = enter_step [OF e]
  have q: "(st, evs, Some r') = (if ok then (ALPHA_OK, e1, Some (r1\<lparr>ra_pending := ra_pending r1 + 1\<rparr>)) else (ALPHA_ERR_IO, e1, Some r1))"
    unfolding assms [symmetric] using d c e by (simp add: alpha_redis_async_command_def)
  show ?thesis
  proof (cases ok)
    case True
    have "ra_pending r1 \<le> ra_pending r" using s outstanding_emitted_le [of "ra_pending r" e1] by (simp add: async_step_def)
    then have "async_step r1 [Accepted u] (r1\<lparr>ra_pending := ra_pending r1 + 1\<rparr>)" using d(5) by (simp add: async_step_def)
    from async_step_trans [OF s this] show ?thesis using q True by (simp add: async_accepted_def)
  qed (use q s in \<open>simp add: async_accepted_def\<close>)
qed (use assms in \<open>auto simp: alpha_redis_async_command_def async_accepted_def async_step_refl split: option.splits if_splits\<close>)

lemma alpha_redis_async_reconnect_step:
  "alpha_redis_async_reconnect lib (Some r) = (st, evs, Some r') \<Longrightarrow> async_step r (map Emitted evs) r'"
  using start_connection_step [of lib r]
  by (auto simp: alpha_redis_async_reconnect_def async_step_refl split: if_splits prod.splits)

text \<open>The runs of the adapter; the commands for the latest tick are instances of the general command.\<close>

inductive async_run :: "('h, 'u) hiredis \<Rightarrow> 'h alpha_redis_async_t \<Rightarrow> 'u redis_trace list \<Rightarrow> 'h alpha_redis_async_t \<Rightarrow> bool" for lib r0 where
  start: "async_run lib r0 [] r0"
| service: "async_run lib r0 ts r \<Longrightarrow> alpha_redis_async_service lib (Some r) ready = (st, evs, Some r') \<Longrightarrow>
    async_run lib r0 (ts @ map Emitted evs) r'"
| timeout: "async_run lib r0 ts r \<Longrightarrow> alpha_redis_async_timeout lib (Some r) = (st, evs, Some r') \<Longrightarrow>
    async_run lib r0 (ts @ map Emitted evs) r'"
| command: "async_run lib r0 ts r \<Longrightarrow> alpha_redis_async_command lib (Some r) argc argv lens u = (st, evs, Some r') \<Longrightarrow>
    async_run lib r0 (ts @ map Emitted evs @ async_accepted st u) r'"
| reconnect: "async_run lib r0 ts r \<Longrightarrow> alpha_redis_async_reconnect lib (Some r) = (st, evs, Some r') \<Longrightarrow>
    async_run lib r0 (ts @ map Emitted evs) r'"

lemma async_run_step: "async_run lib r0 ts r \<Longrightarrow> async_step r0 ts r"
proof (induction rule: async_run.induct)
  case (service ts r ready st evs r')
  show ?case by (rule async_step_trans [OF service.IH alpha_redis_async_service_step [OF service.hyps(2)]])
next
  case (timeout ts r st evs r')
  show ?case by (rule async_step_trans [OF timeout.IH alpha_redis_async_timeout_step [OF timeout.hyps(2)]])
next
  case (command ts r argc argv lens u st evs r')
  show ?case by (rule async_step_trans [OF command.IH alpha_redis_async_command_step [OF command.hyps(2)]])
next
  case (reconnect ts r st evs r')
  show ?case by (rule async_step_trans [OF reconnect.IH alpha_redis_async_reconnect_step [OF reconnect.hyps(2)]])
qed (rule async_step_refl)

text \<open>Without a reply too many, the number of outstanding commands is the difference of the two counts.\<close>

fun replies :: "'u redis_trace list \<Rightarrow> nat" where
  "replies [] = 0"
| "replies (Emitted (Redis_Reply st txt i u) # ts) = Suc (replies ts)"
| "replies (t # ts) = replies ts"

fun acceptances :: "'u redis_trace list \<Rightarrow> nat" where
  "acceptances [] = 0"
| "acceptances (Accepted u # ts) = Suc (acceptances ts)"
| "acceptances (t # ts) = acceptances ts"

fun answers_follow :: "nat \<Rightarrow> 'u redis_trace list \<Rightarrow> bool" where
  "answers_follow n [] = True"
| "answers_follow n (Accepted u # ts) = answers_follow (n + 1) ts"
| "answers_follow n (Emitted (Redis_Reply st txt i u) # ts) = (0 < n \<and> answers_follow (n - 1) ts)"
| "answers_follow n (t # ts) = answers_follow n ts"

lemma outstanding_counts: "n + acceptances ts \<le> outstanding n ts + replies ts"
  by (induction n ts rule: outstanding.induct) auto

lemma outstanding_exact: "answers_follow n ts \<Longrightarrow> outstanding n ts + replies ts = n + acceptances ts"
  by (induction n ts rule: answers_follow.induct) auto

lemma answers_follow_emitted: "answers_follow 0 (map Emitted evs @ ts) \<Longrightarrow> answers_follow 0 ts"
proof (induction evs)
  case (Cons e evs)
  then show ?case by (cases e) auto
qed simp

section \<open>The two drivers\<close>

text \<open>What a command does once it has passed the checks of the adapter.\<close>

definition async_send ::
    "('h, 'u) hiredis \<Rightarrow> 'h alpha_redis_async_t \<Rightarrow> 'h \<Rightarrow> string list \<Rightarrow> 'u \<Rightarrow> alpha_err_t \<times> 'u redis_event list \<times> 'h alpha_redis_async_t option" where
  "async_send lib r h args u =
     (case redisAsyncCommandArgv lib h u args of (ok, calls, h) \<Rightarrow>
        case enter lib calls h r of (evs, r) \<Rightarrow>
          if ok then (ALPHA_OK, evs, Some (r\<lparr>ra_pending := ra_pending r + 1\<rparr>)) else (ALPHA_ERR_IO, evs, Some r))"

lemma latest_key_ok: "t \<noteq> [] \<Longrightarrow> length t \<le> 230 \<Longrightarrow> latest_key (Some t) 256 = (ALPHA_OK, latest_prefix @ t)"
  by (simp add: latest_key_def latest_prefix_def)

lemma async_tick_commands:
  assumes "ra_context r = Some h" "ra_pending r < ALPHA_REDIS_ASYNC_MAX_PENDING" "t \<noteq> []" "length t \<le> 230"
  shows "alpha_redis_async_set_latest_tick lib (Some r) (Some t) (Some p) u = async_send lib r h [''SET'', latest_prefix @ t, p, ''EX'', ''60''] u"
    and "alpha_redis_async_get_latest_tick lib (Some r) (Some t) u = async_send lib r h [''GET'', latest_prefix @ t] u"
  using assms latest_key_ok [OF assms(3,4)]
  by (simp_all add: alpha_redis_async_set_latest_tick_def alpha_redis_async_get_latest_tick_def alpha_redis_async_command_def command_args_def
      async_send_def case_prod_beta)

lemma sync_key:
  "key_buf (''redis:cache:latest_ticks:'' @ t) = (if length t \<le> 70 then (ALPHA_OK, latest_prefix @ t) else (ALPHA_ERR_RANGE, take 95 (latest_prefix @ t)))"
  by (auto simp: key_buf_def KEY_CAP_def snprintf_def latest_prefix_def)

lemma sync_tick_commands:
  "alpha_redis_set_latest_tick cmd (Some s) (Some t) (Some p) =
     (if length t \<le> 70
      then case redis_call cmd s [''SET'', latest_prefix @ t, p, ''EX'', ''60''] of
             (reply, s') \<Rightarrow> (if reply_is_ok reply then ALPHA_OK else ALPHA_ERR_IO, Some s')
      else (ALPHA_ERR_RANGE, Some s))"
  "n > 0 \<Longrightarrow> snd (snd (snd (alpha_redis_get_latest_tick cmd (Some s) (Some t) True n True))) =
     Some (if length t \<le> 70 then snd (redis_call cmd s [''GET'', latest_prefix @ t]) else s)"
proof -
  have f: "fmt_int ALPHA_TTL_LATEST_TICKS = ''60''" by code_simp
  show "alpha_redis_set_latest_tick cmd (Some s) (Some t) (Some p) =
     (if length t \<le> 70
      then case redis_call cmd s [''SET'', latest_prefix @ t, p, ''EX'', ''60''] of
             (reply, s') \<Rightarrow> (if reply_is_ok reply then ALPHA_OK else ALPHA_ERR_IO, Some s')
      else (ALPHA_ERR_RANGE, Some s))"
    unfolding alpha_redis_set_latest_tick_def prod.case option.case sync_key f by simp
  show "snd (snd (snd (alpha_redis_get_latest_tick cmd (Some s) (Some t) True n True))) =
     Some (if length t \<le> 70 then snd (redis_call cmd s [''GET'', latest_prefix @ t]) else s)" if "n > 0"
    using that unfolding alpha_redis_get_latest_tick_def prod.case option.case sync_key
    by (simp add: Let_def case_prod_beta split: option.splits redis_reply.splits)
qed

section \<open>Examples\<close>

text \<open>A hiredis that keeps the user data of the commands it was given and answers them all at the next read.\<close>

definition memory_hiredis :: "('u list, 'u) hiredis" where
  "memory_hiredis = \<lparr>
     redisAsyncConnect = (\<lambda>host port. Some []),
     redis_fd = (\<lambda>q. 9),
     redis_err = (\<lambda>q. 0),
     redisAsyncFree = (\<lambda>q. map (Replied None) q @ [Cleanup, Disconnected]),
     redisAsyncSetConnectCallback = (\<lambda>q. (True, [Add_Write], q)),
     redisAsyncSetDisconnectCallback = (\<lambda>q. (True, [], q)),
     redisAsyncHandleRead = (\<lambda>q. (map (Replied (Some (REDIS_REPLY_STATUS ''OK''))) q, [])),
     redisAsyncHandleWrite = (\<lambda>q. ([Del_Write, Add_Read], q)),
     redisAsyncHandleTimeout = (\<lambda>q. ([], q)),
     redisAsyncCommandArgv = (\<lambda>q u args. (True, [Add_Write], q @ [u]))\<rparr>"

definition example_async :: "nat list \<Rightarrow> 32 word \<Rightarrow> nat \<Rightarrow> nat list alpha_redis_async_t" where
  "example_async q w n = \<lparr>ra_context = Some q, ra_host = ''h'', ra_port = 6379, ra_watch = w, ra_pending = n\<rparr>"

lemma example_async_steps:
  "alpha_redis_async_connect memory_hiredis (Some ''h'') 6379 True True True True True True True = (ALPHA_OK, [Redis_Watch 9 2], Some (example_async [] 2 0))"
  "alpha_redis_async_command memory_hiredis (Some (example_async [] 2 0)) 1 (Some [''PING'']) (Some [4]) 7
     = (ALPHA_OK, [Redis_Watch 9 2], Some (example_async [7] 2 1))"
  "alpha_redis_async_service memory_hiredis (Some (example_async [7] 2 1)) 2 = (ALPHA_OK, [Redis_Watch 9 0, Redis_Watch 9 1], Some (example_async [7] 1 1))"
  by code_simp+

lemma example_async_run:
  "async_run memory_hiredis (example_async [] 2 0)
     [Emitted (Redis_Watch 9 2), Accepted 7, Emitted (Redis_Watch 9 0), Emitted (Redis_Watch 9 1)] (example_async [7] 1 1)"
  using async_run.service [OF async_run.command [OF async_run.start example_async_steps(2)] example_async_steps(3)] by (simp add: async_accepted_def)

section \<open>Properties\<close>

text \<open>
  C29. The state of the asynchronous Redis driver stays well formed and in step with its event loop: after any sequence of
  service calls, timeouts, commands and reconnections on a new connection, under any behaviour of hiredis, at most 64
  commands are pending, and at least those that were accepted and not answered, exactly those when no answer comes without
  a command; the set of watched events is a value of its enumeration, and the one that the event loop was told last.
\<close>

theorem async_state_sound:
  assumes "alpha_redis_async_connect lib host port w_fn t_fn c_fn r_fn out c_ok m_ok = (ALPHA_OK, evs0, Some r0)" "async_run lib r0 ts r"
  shows "alpha_redis_async_pending (Some r) \<le> ALPHA_REDIS_ASYNC_MAX_PENDING
    \<and> acceptances ts \<le> alpha_redis_async_pending (Some r) + replies ts
    \<and> (answers_follow 0 (map Emitted evs0 @ ts) \<longrightarrow> alpha_redis_async_pending (Some r) + replies ts = acceptances ts)
    \<and> valid_watch (ra_watch r) \<and> ra_watch r = published 0 (map Emitted evs0 @ ts)"
proof -
  define i :: "'b alpha_redis_async_t" where "i = \<lparr>ra_context = None, ra_host = the host, ra_port = port, ra_watch = 0, ra_pending = 0\<rparr>"
  have "start_connection lib i = (ALPHA_OK, evs0, r0)"
    using assms(1) by (auto simp: alpha_redis_async_connect_def i_def split: option.splits if_splits prod.splits)
  then have s0: "async_step i (map Emitted evs0) r0" by (rule start_connection_step)
  have s: "async_step i (map Emitted evs0 @ ts) r" by (rule async_step_trans [OF s0 async_run_step [OF assms(2)]])
  have p0: "ra_pending r0 = 0" using s0 outstanding_emitted_le [of 0 evs0] by (simp add: async_step_def i_def)
  have p: "ra_pending r = outstanding 0 ts" using async_run_step [OF assms(2)] p0 by (simp add: async_step_def)
  have a: "answers_follow 0 ts" if "answers_follow 0 (map Emitted evs0 @ ts)"
    using that answers_follow_emitted by blast
  have "valid_watch (ra_watch i)" "ra_pending i \<le> ALPHA_REDIS_ASYNC_MAX_PENDING" "ra_watch i = 0" by (simp_all add: i_def valid_watch_def)
  then have "valid_watch (ra_watch r)" "ra_pending r \<le> ALPHA_REDIS_ASYNC_MAX_PENDING" "ra_watch r = published 0 (map Emitted evs0 @ ts)"
    using s unfolding async_step_def by metis+
  moreover have "acceptances ts \<le> ra_pending r + replies ts" using p outstanding_counts [of 0 ts] by simp
  moreover have "answers_follow 0 (map Emitted evs0 @ ts) \<longrightarrow> ra_pending r + replies ts = acceptances ts" using p outstanding_exact [OF a] by simp
  ultimately show ?thesis unfolding alpha_redis_async_pending_def option.case by blast
qed

theorem async_state_sound_witness:
  "alpha_redis_async_pending (Some (example_async [7] 1 1)) = 1 \<and> ra_watch (example_async [7] 1 1) = 1
   \<and> alpha_redis_async_pending (Some (example_async [7] 1 1)) \<le> ALPHA_REDIS_ASYNC_MAX_PENDING"
proof (intro conjI)
  show "alpha_redis_async_pending (Some (example_async [7] 1 1)) = 1" by (simp add: example_async_def alpha_redis_async_pending_def)
  show "ra_watch (example_async [7] 1 1) = 1" by (simp add: example_async_def)
  show "alpha_redis_async_pending (Some (example_async [7] 1 1)) \<le> ALPHA_REDIS_ASYNC_MAX_PENDING"
    by (rule async_state_sound [OF example_async_steps(1) example_async_run, THEN conjunct1])
qed

text \<open>
  C38. The two Redis drivers write and read the latest tick with the same commands: for a ticker of at most 70 bytes the
  asynchronous driver hands exactly the arguments to hiredis that the synchronous driver sends, with the same key and the
  same life of 60 seconds. From 71 to 230 bytes the asynchronous driver still sends its commands and the synchronous driver
  refuses the key.
\<close>

theorem tick_drivers_agree:
  assumes "ra_context r = Some h" "ra_pending r < ALPHA_REDIS_ASYNC_MAX_PENDING" "t \<noteq> []" "length t \<le> 230" "0 < n"
  shows "\<exists>set_args get_args.
    alpha_redis_async_set_latest_tick lib (Some r) (Some t) (Some p) u = async_send lib r h set_args u
    \<and> alpha_redis_async_get_latest_tick lib (Some r) (Some t) u = async_send lib r h get_args u
    \<and> alpha_redis_set_latest_tick cmd (Some s) (Some t) (Some p) =
        (if length t \<le> 70
         then case redis_call cmd s set_args of (reply, s') \<Rightarrow> (if reply_is_ok reply then ALPHA_OK else ALPHA_ERR_IO, Some s')
         else (ALPHA_ERR_RANGE, Some s))
    \<and> snd (snd (snd (alpha_redis_get_latest_tick cmd (Some s) (Some t) True n True))) =
        Some (if length t \<le> 70 then snd (redis_call cmd s get_args) else s)"
  by (intro exI conjI) (rule async_tick_commands [OF assms(1-4)] sync_tick_commands(1) sync_tick_commands(2) [OF assms(5)])+

theorem tick_drivers_agree_witness:
  "\<exists>set_args get_args.
    alpha_redis_async_set_latest_tick memory_hiredis (Some (example_async [] 2 0)) (Some ''A'') (Some ''{}'') 7
      = async_send memory_hiredis (example_async [] 2 0) [] set_args 7
    \<and> alpha_redis_async_get_latest_tick memory_hiredis (Some (example_async [] 2 0)) (Some ''A'') 7
      = async_send memory_hiredis (example_async [] 2 0) [] get_args 7
    \<and> alpha_redis_set_latest_tick (\<lambda>c args. (Some (REDIS_REPLY_STATUS ''OK''), c @ [args])) (Some \<lparr>ctx = []\<rparr>) (Some ''A'') (Some ''{}'')
      = (ALPHA_OK, Some \<lparr>ctx = [set_args]\<rparr>)"
  using tick_drivers_agree [of "example_async [] 2 0" "[]" "''A''" 1 memory_hiredis "''{}''" 7
      "\<lambda>c args. (Some (REDIS_REPLY_STATUS ''OK''), c @ [args])" "\<lparr>ctx = []\<rparr>"]
  by (auto simp: example_async_def ALPHA_REDIS_ASYNC_MAX_PENDING_def redis_call_def reply_is_ok_def c_str_def)

end
