(* ===== verification/Driver_Adapter.thy ===== *)
theory Driver_Adapter
  imports Lws_Runtime Postgres_Client Redis_Async Backtest_Fixture
begin

text \<open>
  The driver benchmark adapter (\<^verbatim>\<open>core/apps/c_driver_adapter.c\<close>), where the event loop, the PostgreSQL client and
  the asynchronous Redis driver work together: a program that sends the operations of a case one after another and measures
  each. The libraries are those of the three components. What a component emits is handed to the callbacks of the adapter in
  its order; they read and write the adapter and the event loop, never the driver that is calling. A service call of
  libwebsockets makes the calls that it has decided on when it polls. \<open>None\<close> is a call that does not return, or undefined
  behaviour.
\<close>

section \<open>The code\<close>

subsection \<open>Types\<close>

definition OP_COUNT :: nat where "OP_COUNT = 3"

datatype case_kind_t = CASE_REDIS | CASE_DB

record token_t =
  tk_index :: nat
  tk_started_ns :: "64 word"

text \<open>The context of every callback is the adapter itself and the user data of every operation its only token, so both are
  the unit value; \<open>ad_readings\<close> counts the readings of the clock.\<close>

record ('l, 'w, 'h, 'q) adapter_t =
  ad_runtime :: "('l, 'w, unit, unit) alpha_lws_runtime_t"
  ad_watch :: "nat option"
  ad_redis :: "'h alpha_redis_async_t option"
  ad_pg :: "('q, unit, unit) alpha_pg_t option"
  ad_kind :: case_kind_t
  ad_repeat :: nat
  ad_concurrency :: nat
  ad_total :: nat
  ad_submitted :: nat
  ad_completed :: nat
  ad_connected :: bool
  ad_inflight :: bool
  ad_failed :: bool
  ad_latency_ns :: "64 word list"
  ad_token :: token_t
  ad_ticker :: string
  ad_namespace_text :: string
  ad_redis_value :: string
  ad_db_rows :: "alpha_pg_position_t list"
  ad_exposure :: alpha_pg_exposure_t
  ad_readings :: nat

text \<open>The libraries, the monotonic clock as the sequence of its readings, and \<^verbatim>\<open>dup\<close>.\<close>

record ('l, 'w, 'h, 'q) adapter_env =
  env_lws :: "('l, 'w) libwebsockets"
  env_hiredis :: "('h, unit) hiredis"
  env_libpq :: "'q libpq"
  env_clock :: "nat \<Rightarrow> 64 word"
  env_dup :: "int \<Rightarrow> int"

subsection \<open>Helpers\<close>

definition now_ns ::
    "('l, 'w, 'h, 'q) adapter_env \<Rightarrow> ('l, 'w, 'h, 'q) adapter_t \<Rightarrow> 64 word \<times> ('l, 'w, 'h, 'q) adapter_t" where
  "now_ns env a = (env_clock env (ad_readings a), a\<lparr>ad_readings := ad_readings a + 1\<rparr>)"

fun hash_loop :: "32 word \<Rightarrow> string \<Rightarrow> 32 word" where
  "hash_loop h [] = h"
| "hash_loop h (c # cs) = hash_loop ((h XOR of_char c) * 16777619) cs"

definition namespace_hash :: "string \<Rightarrow> 32 word" where
  "namespace_hash s = hash_loop 2166136261 s"

subsection \<open>Completion\<close>

definition finish_operation ::
    "('l, 'w, 'h, 'q) adapter_env \<Rightarrow> bool \<Rightarrow> ('l, 'w, 'h, 'q) adapter_t \<Rightarrow> ('l, 'w, 'h, 'q) adapter_t" where
  "finish_operation env ok a =
     (case now_ns env a of (ended, a) \<Rightarrow>
        let a = (if \<not> ok \<or> ended \<le> tk_started_ns (ad_token a) \<or> tk_index (ad_token a) \<ge> ad_total a then a\<lparr>ad_failed := True\<rparr>
                 else a\<lparr>ad_latency_ns := (ad_latency_ns a)[tk_index (ad_token a) := ended - tk_started_ns (ad_token a)]\<rparr>)
        in a\<lparr>ad_completed := ad_completed a + 1, ad_inflight := False\<rparr>)"

definition redis_reply_fn ::
    "('l, 'w, 'h, 'q) adapter_env \<Rightarrow> alpha_err_t \<Rightarrow> string option \<Rightarrow> int \<Rightarrow> ('l, 'w, 'h, 'q) adapter_t \<Rightarrow> ('l, 'w, 'h, 'q) adapter_t" where
  "redis_reply_fn env status txt integer a =
     (let operation = tk_index (ad_token a) mod OP_COUNT;
          ok = (status = ALPHA_OK);
          ok = (if operation = 0 then ok \<and> map_option c_str txt = Some ''OK''
                else if operation = 1 then ok \<and> map_option c_str txt = Some (ad_redis_value a)
                else ok \<and> integer = 0)
      in finish_operation env ok a)"

text \<open>Reading the wrong member of the union is undefined.\<close>

definition pg_reply ::
    "('l, 'w, 'h, 'q) adapter_env \<Rightarrow> alpha_pg_result_t \<Rightarrow> ('l, 'w, 'h, 'q) adapter_t \<Rightarrow> ('l, 'w, 'h, 'q) adapter_t option" where
  "pg_reply env result a =
     (let operation = tk_index (ad_token a) mod OP_COUNT; ok = (res_status result = ALPHA_OK)
      in if ok \<and> operation < 2 then
           (case res_value result of
              PG_POSITION p \<Rightarrow> Some (finish_operation env ok (a\<lparr>ad_db_rows := (ad_db_rows a)[operation := p]\<rparr>))
            | _ \<Rightarrow> None)
         else if ok then
           (case res_value result of
              PG_EXPOSURE e \<Rightarrow>
                Some (finish_operation env (exp_total_quantity e = 30 \<and> exp_total_market_value e = 34000) (a\<lparr>ad_exposure := e\<rparr>))
            | _ \<Rightarrow> None)
         else Some (finish_operation env ok a))"

fun pg_replies ::
    "('l, 'w, 'h, 'q) adapter_env \<Rightarrow> (unit, unit) pg_event list \<Rightarrow> ('l, 'w, 'h, 'q) adapter_t \<Rightarrow> ('l, 'w, 'h, 'q) adapter_t option" where
  "pg_replies env [] a = Some a"
| "pg_replies env ((f, u, result) # evs) a = Option.bind (pg_reply env result a) (pg_replies env evs)"

subsection \<open>The event loop\<close>

definition fail :: "bool \<Rightarrow> ('l, 'w, 'h, 'q) adapter_t \<Rightarrow> ('l, 'w, 'h, 'q) adapter_t" where
  "fail bad a = (if bad then a\<lparr>ad_failed := True\<rparr> else a)"

definition set_write ::
    "('l, 'w, 'h, 'q) adapter_env \<Rightarrow> bool \<Rightarrow> ('l, 'w, 'h, 'q) adapter_t \<Rightarrow> alpha_err_t \<times> ('l, 'w, 'h, 'q) adapter_t" where
  "set_write env b a =
     (case alpha_lws_watch_set_write (env_lws env) (ad_runtime a) (ad_watch a) b of (st, rt) \<Rightarrow> (st, a\<lparr>ad_runtime := rt\<rparr>))"

definition quiet :: "('f, 'x) lws_event list \<Rightarrow> bool" where
  "quiet evs = list_all (\<lambda>ev. case ev of Lws_Close n \<Rightarrow> True | _ \<Rightarrow> False) evs"

text \<open>Adopting a descriptor makes no call to a ready function.\<close>

definition redis_watch ::
    "('l, 'w, 'h, 'q) adapter_env \<Rightarrow> int \<Rightarrow> 32 word \<Rightarrow> ('l, 'w, 'h, 'q) adapter_t \<Rightarrow> ('l, 'w, 'h, 'q) adapter_t option" where
  "redis_watch env fd flags a =
     (if fd < 0 \<or> flags = ALPHA_REDIS_WATCH_NONE then Some a
      else
        let w = (flags = ALPHA_REDIS_WATCH_WRITE \<or> flags = 3)
        in case ad_watch a of
             None \<Rightarrow>
               (case alpha_lws_watch_add (env_lws env) (env_dup env fd) (Some (ad_runtime a)) fd w (Some ()) (Some ()) True of
                  (st, evs, h, Some rt) \<Rightarrow>
                    if quiet evs then Some (fail (st \<noteq> ALPHA_OK) (a\<lparr>ad_runtime := rt, ad_watch := h\<rparr>)) else None
                | _ \<Rightarrow> None)
           | Some i \<Rightarrow> (case set_write env w a of (st, a) \<Rightarrow> Some (fail (st \<noteq> ALPHA_OK) a)))"

definition redis_timer ::
    "('l, 'w, 'h, 'q) adapter_env \<Rightarrow> int \<Rightarrow> ('l, 'w, 'h, 'q) adapter_t \<Rightarrow> ('l, 'w, 'h, 'q) adapter_t option" where
  "redis_timer env timeout_ms a =
     (if ad_watch a = None then Some a
      else case alpha_lws_watch_set_timer (env_lws env) (ad_runtime a) (ad_watch a) timeout_ms of
        None \<Rightarrow> None
      | Some (st, rt) \<Rightarrow> Some (fail (st \<noteq> ALPHA_OK) (a\<lparr>ad_runtime := rt\<rparr>)))"

definition redis_connect :: "alpha_err_t \<Rightarrow> ('l, 'w, 'h, 'q) adapter_t \<Rightarrow> ('l, 'w, 'h, 'q) adapter_t" where
  "redis_connect status a = (let a = a\<lparr>ad_connected := (status = ALPHA_OK)\<rparr> in fail (\<not> ad_connected a) a)"

fun redis_callbacks ::
    "('l, 'w, 'h, 'q) adapter_env \<Rightarrow> unit redis_event list \<Rightarrow> ('l, 'w, 'h, 'q) adapter_t \<Rightarrow> ('l, 'w, 'h, 'q) adapter_t option" where
  "redis_callbacks env [] a = Some a"
| "redis_callbacks env (Redis_Watch fd flags # evs) a = Option.bind (redis_watch env fd flags a) (redis_callbacks env evs)"
| "redis_callbacks env (Redis_Timer ms # evs) a = Option.bind (redis_timer env ms a) (redis_callbacks env evs)"
| "redis_callbacks env (Redis_Connect st # evs) a = redis_callbacks env evs (redis_connect st a)"
| "redis_callbacks env (Redis_Reply st txt i u # evs) a = redis_callbacks env evs (redis_reply_fn env st txt i a)"

definition ready ::
    "('l, 'w, 'h, 'q) adapter_env \<Rightarrow> bool \<Rightarrow> bool \<Rightarrow> bool \<Rightarrow> ('l, 'w, 'h, 'q) adapter_t \<Rightarrow> ('l, 'w, 'h, 'q) adapter_t option" where
  "ready env readable writable timed_out a =
     (if ad_kind a = CASE_DB then
        (case alpha_pg_service (env_libpq env) (ad_pg a) readable writable of
           None \<Rightarrow> None
         | Some (st, evs, pg) \<Rightarrow>
             Option.bind (pg_replies env evs (a\<lparr>ad_pg := pg\<rparr>))
               (\<lambda>a. case (if st = ALPHA_OK then set_write env (alpha_pg_wants_write pg) a else (st, a)) of
                      (st, a) \<Rightarrow> Some (fail (st \<noteq> ALPHA_OK) a)))
      else
        (case (if timed_out then alpha_redis_async_timeout (env_hiredis env) (ad_redis a)
               else
                 let flags = (if readable then ALPHA_REDIS_WATCH_READ else ALPHA_REDIS_WATCH_NONE);
                     flags = (if writable then (if flags = ALPHA_REDIS_WATCH_READ then 3 else ALPHA_REDIS_WATCH_WRITE) else flags)
                 in alpha_redis_async_service (env_hiredis env) (ad_redis a) flags) of
           (st, evs, redis) \<Rightarrow>
             map_option (fail (st \<noteq> ALPHA_OK)) (redis_callbacks env evs (a\<lparr>ad_redis := redis\<rparr>))))"

text \<open>A service call of the event loop, with the ready functions run where they are called.\<close>

fun ready_events ::
    "('l, 'w, 'h, 'q) adapter_env \<Rightarrow> (unit, unit) lws_event list \<Rightarrow> ('l, 'w, 'h, 'q) adapter_t \<Rightarrow> ('l, 'w, 'h, 'q) adapter_t option" where
  "ready_events env [] a = Some a"
| "ready_events env (Lws_Close fd # evs) a = ready_events env evs a"
| "ready_events env (Lws_Ready (Some f) (Some x) r w t # evs) a = Option.bind (ready env r w t a) (ready_events env evs)"
| "ready_events env (Lws_Ready f x r w t # evs) a = None"

fun wakeup_watches ::
    "('l, 'w, 'h, 'q) adapter_env \<Rightarrow> nat \<Rightarrow> nat \<Rightarrow> ('l, 'w, 'h, 'q) adapter_t \<Rightarrow> ('l, 'w, 'h, 'q) adapter_t option" where
  "wakeup_watches env i 0 a = Some a"
| "wakeup_watches env i (Suc n) a =
     Option.bind (ready_events env (wakeup_loop (take 1 (drop i (rt_watches (ad_runtime a))))) a) (wakeup_watches env (i + 1) n)"

fun service_calls ::
    "('l, 'w, 'h, 'q) adapter_env \<Rightarrow> lws_call list \<Rightarrow> ('l, 'w, 'h, 'q) adapter_t \<Rightarrow> ('l, 'w, 'h, 'q) adapter_t option" where
  "service_calls env [] a = Some a"
| "service_calls env (Lws_Callback opaque reason # calls) a =
     (case foreign_fd_callback opaque reason (ad_runtime a) of (evs, rt) \<Rightarrow>
        Option.bind (ready_events env evs (a\<lparr>ad_runtime := rt\<rparr>)) (service_calls env calls))"
| "service_calls env (Lws_Wakeup # calls) a =
     Option.bind (wakeup_watches env 0 (rt_capacity (ad_runtime a)) a) (service_calls env calls)"

definition runtime_service ::
    "('l, 'w, 'h, 'q) adapter_env \<Rightarrow> int \<Rightarrow> ('l, 'w, 'h, 'q) adapter_t \<Rightarrow> (alpha_err_t \<times> ('l, 'w, 'h, 'q) adapter_t) option" where
  "runtime_service env timeout_ms a =
     (if timeout_ms < 0 then Some (ALPHA_ERR_INVALID_ARG, a)
      else
        let maximum_wait = (if timeout_ms = 0 then 1 else timeout_ms * LWS_US_PER_MS);
            c = lws_sul_schedule (env_lws env) (rt_context (ad_runtime a)) maximum_wait
        in case lws_service (env_lws env) c of (r, calls, c) \<Rightarrow>
             map_option (\<lambda>a. (if r < 0 then ALPHA_ERR_IO else ALPHA_OK, a))
               (service_calls env calls (a\<lparr>ad_runtime := (ad_runtime a)\<lparr>rt_context := c\<rparr>\<rparr>)))"

subsection \<open>The operations\<close>

definition redis_submit ::
    "('l, 'w, 'h, 'q) adapter_env \<Rightarrow> nat \<Rightarrow> ('l, 'w, 'h, 'q) adapter_t \<Rightarrow> (alpha_err_t \<times> ('l, 'w, 'h, 'q) adapter_t) option" where
  "redis_submit env operation a =
     (let key = snprintf 160 (if operation < 2 then ''redis:cache:latest_ticks:'' @ ad_ticker a else ''hard_stop:lockout:'' @ ad_namespace_text a);
          verb = (if operation = 1 then ''GET'' else ''EXISTS'')
      in case (if operation = 0
               then alpha_redis_async_command (env_hiredis env) (ad_redis a) 5 (Some [''SET'', key, ad_redis_value a, ''EX'', ''60''])
                      (Some [3, length key, length (ad_redis_value a), 2, 2]) ()
               else alpha_redis_async_command (env_hiredis env) (ad_redis a) 2 (Some [verb, key]) (Some [length verb, length key]) ()) of
           (st, evs, redis) \<Rightarrow> map_option (Pair st) (redis_callbacks env evs (a\<lparr>ad_redis := redis\<rparr>)))"

definition pg_submit ::
    "('l, 'w, 'h, 'q) adapter_env \<Rightarrow> nat \<Rightarrow> ('l, 'w, 'h, 'q) adapter_t \<Rightarrow> alpha_err_t \<times> ('l, 'w, 'h, 'q) adapter_t" where
  "pg_submit env operation a =
     (case (if operation < 2
            then alpha_pg_upsert_position (env_libpq env) (ad_pg a) (Some (ad_db_rows a ! operation)) (Some ()) ()
            else alpha_pg_query_exposure (env_libpq env) (ad_pg a) (Some (ad_ticker a)) (Some ()) ()) of
        (st, pg) \<Rightarrow> (st, a\<lparr>ad_pg := pg\<rparr>))"

definition submit_one ::
    "('l, 'w, 'h, 'q) adapter_env \<Rightarrow> ('l, 'w, 'h, 'q) adapter_t \<Rightarrow> (alpha_err_t \<times> ('l, 'w, 'h, 'q) adapter_t) option" where
  "submit_one env a =
     (let index = ad_submitted a; operation = index mod OP_COUNT
      in case now_ns env a of (started, a) \<Rightarrow>
           Option.bind
             (let a = a\<lparr>ad_token := \<lparr>tk_index = index, tk_started_ns = started\<rparr>\<rparr>
              in if ad_kind a = CASE_REDIS then redis_submit env operation a else Some (pg_submit env operation a))
             (\<lambda>(st, a).
                if st = ALPHA_OK then
                  let a = a\<lparr>ad_submitted := ad_submitted a + 1, ad_inflight := True\<rparr>
                  in if ad_kind a = CASE_DB then
                       (case set_write env (alpha_pg_wants_write (ad_pg a)) a of
                          (r, a) \<Rightarrow> Some (if r \<noteq> ALPHA_OK then ALPHA_ERR_IO else st, a))
                     else Some (st, a)
                else Some (st, a)))"

text \<open>One iteration of the loop of \<open>drive\<close>; a failed adapter leaves the loop.\<close>

definition drive_wait ::
    "('l, 'w, 'h, 'q) adapter_env \<Rightarrow> 64 word \<Rightarrow> ('l, 'w, 'h, 'q) adapter_t \<Rightarrow> ('l, 'w, 'h, 'q) adapter_t option" where
  "drive_wait env deadline a =
     Option.bind (runtime_service env 1 a)
       (\<lambda>(st, a). Some (if st \<noteq> ALPHA_OK then fail True a else case now_ns env a of (now, a) \<Rightarrow> fail (now > deadline) a))"

definition drive_step ::
    "('l, 'w, 'h, 'q) adapter_env \<Rightarrow> 64 word \<Rightarrow> ('l, 'w, 'h, 'q) adapter_t \<Rightarrow> ('l, 'w, 'h, 'q) adapter_t option" where
  "drive_step env deadline a =
     (if \<not> ad_inflight a \<and> (ad_kind a = CASE_REDIS \<or> alpha_pg_is_idle (ad_pg a))
      then Option.bind (submit_one env a) (\<lambda>(st, a). if st \<noteq> ALPHA_OK then Some (fail True a) else drive_wait env deadline a)
      else drive_wait env deadline a)"

partial_function (option) drive ::
    "('l, 'w, 'h, 'q) adapter_env \<Rightarrow> 64 word \<Rightarrow> ('l, 'w, 'h, 'q) adapter_t \<Rightarrow> (bool \<times> ('l, 'w, 'h, 'q) adapter_t) option" where
  "drive env deadline a =
     (if ad_failed a \<or> ad_completed a \<ge> ad_total a then Some (\<not> ad_failed a, a)
      else Option.bind (drive_step env deadline a) (drive env deadline))"

partial_function (option) wait_connection ::
    "('l, 'w, 'h, 'q) adapter_env \<Rightarrow> 64 word \<Rightarrow> ('l, 'w, 'h, 'q) adapter_t \<Rightarrow> (bool \<times> ('l, 'w, 'h, 'q) adapter_t) option" where
  "wait_connection env deadline a =
     (if ad_failed a then Some (False, a)
      else if (ad_kind a = CASE_REDIS \<and> ad_connected a) \<or> (ad_kind a = CASE_DB \<and> alpha_pg_state (ad_pg a) = ALPHA_PG_READY) then Some (True, a)
      else Option.bind (runtime_service env 1 a)
        (\<lambda>(st, a). if st \<noteq> ALPHA_OK then Some (False, a)
                   else case now_ns env a of (now, a) \<Rightarrow> if now > deadline then Some (False, a) else wait_connection env deadline a))"

definition terminal_matches_service :: "('l, 'w, 'h, 'q) adapter_t \<Rightarrow> bool" where
  "terminal_matches_service a =
     (if ad_kind a = CASE_REDIS then ad_completed a = ad_total a
      else
        let r0 = ad_db_rows a ! 0; r1 = ad_db_rows a ! 1; e = ad_exposure a
        in \<not> (pos_strategy_id r0 \<noteq> ''strategy-a'' \<or> pos_quantity r0 \<noteq> 10 \<or> pos_current_price r0 \<noteq> 1000 \<or>
               pos_strategy_id r1 \<noteq> ''strategy-b'' \<or> pos_quantity r1 \<noteq> 20 \<or> pos_current_price r1 \<noteq> 1200 \<or>
               exp_total_quantity e \<noteq> 30 \<or> exp_total_market_value e \<noteq> 34000))"

subsection \<open>Text\<close>

fun json_chars :: "string \<Rightarrow> string" where
  "json_chars [] = []"
| "json_chars (c # cs) = (if c = CHR 0x22 \<or> c = CHR 0x5C then [CHR 0x5C] else []) @ c # json_chars cs"

definition json_string :: "string \<Rightarrow> string" where
  "json_string s = CHR 0x22 # json_chars s @ [CHR 0x22]"

fun find_arg :: "string list \<Rightarrow> string \<Rightarrow> string option" where
  "find_arg (x # y # rest) name = (if x = name then Some y else find_arg (y # rest) name)"
| "find_arg args name = None"

definition arg_value :: "string list \<Rightarrow> string \<Rightarrow> string option" where
  "arg_value argv name = find_arg (tl argv) name"

definition hex_digit :: "int \<Rightarrow> char" where
  "hex_digit n = ''0123456789abcdef'' ! nat n"

text \<open>\<^verbatim>\<open>"%0*x"\<close> of a value that fits the width.\<close>

definition fmt_x :: "nat \<Rightarrow> int \<Rightarrow> string" where
  "fmt_x width n = map (\<lambda>i. hex_digit (n div 16 ^ i mod 16)) (rev [0..<width])"

text \<open>\<^verbatim>\<open>strtoul\<close> with base ten on a 64-bit machine: a minus sign negates in the unsigned type.\<close>

definition strtoul :: "string \<Rightarrow> int \<times> string" where
  "strtoul s =
     (let t = dropWhile is_space s;
          neg = (char_at t = CHR ''-'');
          u = (if neg \<or> char_at t = CHR ''+'' then tl t else t);
          ds = takeWhile is_digit u;
          v = digits_val ds
      in if ds = [] then (0, s)
         else if v > 2 ^ 64 - 1 then (2 ^ 64 - 1, dropWhile is_digit u)
         else ((if neg then - v mod 2 ^ 64 else v), dropWhile is_digit u))"

definition separated :: "string list \<Rightarrow> string" where
  "separated items = concat (map (\<lambda>(i, s). (if i = 0 then [] else '','') @ s) (enumerate 0 items))"

definition fmt_ms :: "64 word \<Rightarrow> string" where
  "fmt_ms ns = printf_f 9 (of_i64 (uint ns) / lit 1000000)"

definition emit ::
    "string \<Rightarrow> int \<Rightarrow> ('l, 'w, 'h, 'q) adapter_t \<Rightarrow> string \<Rightarrow> string \<Rightarrow> string \<Rightarrow> 64 word \<Rightarrow> 64 word \<Rightarrow> string \<Rightarrow> string \<Rightarrow> string" where
  "emit version rss a fixture_hash result_hash terminal_json elapsed_ns cpu_ns service_hash schema_hash =
     (let prefix = (if ad_kind a = CASE_REDIS then CHR ''r'' else CHR ''d'');
          operation = (\<lambda>i. prefix # pad 3 (dec_digits (int i + 1)))
      in ''{\"build\":{\"compiler\":'' @ json_string version
         @ '',\"dependencies\":{\"hiredis\":\"linked\",\"libpq\":\"linked\",\"libwebsockets\":\"4.3.3-v4.3.3\",\"openssl\":\"linked\"},''
         @ ''\"flags\":\"C11 -ffp-contract=off\",\"runtime\":\"C11\"},\"completed_ids\":[''
         @ separated (map (\<lambda>i. ''\"'' @ operation i @ ''\"'') [0..<OP_COUNT])
         @ ''],\"completed_tokens\":[''
         @ separated (map (\<lambda>i. ''\"'' @ pad 6 (dec_digits (int (i div OP_COUNT))) @ '':'' @ operation (i mod OP_COUNT) @ ''\"'') [0..<ad_total a])
         @ ''],\"configuration\":{\"concurrency\":'' @ dec_digits (int (ad_concurrency a))
         @ '',\"connection_count\":1,\"event_loop_mode\":\"lws\",\"operation_count\":'' @ dec_digits (int (ad_total a))
         @ '',\"pipeline_depth\":1,\"queue_depth\":1,\"retry_policy\":\"none\",\"saturation_policy\":\"bounded_wait\",\"schema_sha256\":\"''
         @ schema_hash @ ''\",\"service_config_sha256\":\"'' @ service_hash
         @ ''\",\"timeout_ms\":5000,\"worker_count\":1},\"dropped\":0,\"elapsed_ms\":'' @ fmt_ms elapsed_ns
         @ '',\"errors\":0,\"fixture_sha256\":\"'' @ fixture_hash @ ''\",\"operation_latency_ns\":[''
         @ separated (map (\<lambda>i. dec_digits (uint (ad_latency_ns a ! i))) [0..<ad_total a])
         @ ''],\"resources\":{\"cpu_time_ms\":'' @ fmt_ms cpu_ns @ '',\"peak_rss_bytes\":'' @ fmt_int rss
         @ ''},\"result_sha256\":\"'' @ result_hash @ ''\",\"terminal\":'' @ terminal_json @ '',\"trial_namespace\":''
         @ json_string (ad_namespace_text a) @ ''}'' @ [CHR 0x0A])"

subsection \<open>Setup and main\<close>

definition FIXTURE_MAX_SIZE :: nat where "FIXTURE_MAX_SIZE = 1024 * 1024"

text \<open>What the process is given: the bytes of a file and whether they end with it, the digest of OpenSSL, the JSON reader and
  writer, the environment, the blocking connection of libpq with its one statement, the outcomes of the allocations, the
  context of libwebsockets, and what the report says of the build and the resources.\<close>

record 'l adapter_world =
  w_fopen :: "string \<Rightarrow> (string \<times> bool) option"
  w_digest :: "string \<Rightarrow> 8 word list option"
  w_json_read :: "string \<Rightarrow> yyjson_val option"
  w_json_write :: "yyjson_val \<Rightarrow> string option"
  w_getenv :: "string \<Rightarrow> string option"
  w_pq_execute :: "string \<Rightarrow> (string \<Rightarrow> string list \<Rightarrow> bool) option"
  w_malloc_file :: bool
  w_calloc_latency :: bool
  w_calloc_runtime :: bool
  w_calloc_watches :: bool
  w_lws_context :: "'l option"
  w_calloc_redis :: bool
  w_malloc_host :: bool
  w_calloc_db :: bool
  w_calloc_fifo :: bool
  w_version :: string
  w_rss :: int
  w_cpu_ns :: "64 word"

definition sha256_bytes :: "'l adapter_world \<Rightarrow> string \<Rightarrow> string option" where
  "sha256_bytes world data =
     (case w_digest world data of None \<Rightarrow> None
      | Some digest \<Rightarrow> if length digest \<noteq> 32 then None else Some (concat (map (\<lambda>b. fmt_x 2 (uint b)) digest)))"

definition read_file :: "'l adapter_world \<Rightarrow> string \<Rightarrow> string option" where
  "read_file world path =
     (case w_fopen world path of None \<Rightarrow> None
      | Some (content, eof) \<Rightarrow>
          let bytes = (if w_malloc_file world then take (FIXTURE_MAX_SIZE + 1) content else [])
          in if \<not> w_malloc_file world \<or> length bytes = 0 \<or> length bytes > FIXTURE_MAX_SIZE \<or> \<not> eof then None else Some bytes)"

definition pg_cleanup :: "'l adapter_world \<Rightarrow> string \<Rightarrow> string \<Rightarrow> bool" where
  "pg_cleanup world conninfo ticker =
     (case w_pq_execute world conninfo of None \<Rightarrow> False
      | Some execute \<Rightarrow> execute ''DELETE FROM portfolio_positions WHERE ticker=$1'' [ticker])"

fun yyjson_get_uint :: "yyjson_val option \<Rightarrow> int" where
  "yyjson_get_uint (Some (J_Uint u)) = u"
| "yyjson_get_uint (Some (J_Sint i)) = i mod 2 ^ 64"
| "yyjson_get_uint v = 0"

record options_t =
  op_fixture_path :: string
  op_case_name :: string
  op_concurrency :: int
  op_namespace_text :: string

definition parse_options :: "string list \<Rightarrow> options_t option" where
  "parse_options argv =
     (case (arg_value argv ''--fixture'', arg_value argv ''--case'', arg_value argv ''--concurrency'', arg_value argv ''--trial'') of
        (Some fixture_path, Some case_name, Some concurrency_text, Some trial_text) \<Rightarrow>
          let namespace_text = (case arg_value argv ''--namespace'' of Some t \<Rightarrow> t | None \<Rightarrow> snprintf 96 (''c-trial-'' @ trial_text))
          in (case strtoul concurrency_text of (concurrency, rest) \<Rightarrow>
                if concurrency_text = [] \<or> rest \<noteq> [] \<or> (concurrency \<noteq> 1 \<and> concurrency \<noteq> 8 \<and> concurrency \<noteq> 32) then None
                else Some \<lparr>op_fixture_path = fixture_path, op_case_name = case_name, op_concurrency = concurrency,
                           op_namespace_text = namespace_text\<rparr>)
      | _ \<Rightarrow> None)"

record case_t =
  ca_fixture_hash :: string
  ca_terminal_json :: string
  ca_terminal_hash :: string
  ca_service_hash :: string
  ca_schema_hash :: string
  ca_repeat :: int

definition load_case :: "'l adapter_world \<Rightarrow> options_t \<Rightarrow> case_t option" where
  "load_case world options =
     (case Option.bind (read_file world (op_fixture_path options)) (\<lambda>bytes. map_option (Pair bytes) (sha256_bytes world bytes)) of
        None \<Rightarrow> None
      | Some (bytes, fixture_hash) \<Rightarrow>
          let doc_root = w_json_read world bytes;
              contract = yyjson_obj_get doc_root ''contract'';
              case_value = yyjson_obj_get (yyjson_obj_get doc_root ''cases'') (op_case_name options);
              repeat = yyjson_get_uint (yyjson_obj_get case_value ''repeat'')
          in (case (Option.bind (yyjson_obj_get case_value ''terminal'') (w_json_write world),
                    yyjson_get_str (yyjson_obj_get case_value ''terminal_sha256''),
                    yyjson_get_str (yyjson_obj_get contract ''service_config_sha256''),
                    yyjson_get_str (yyjson_obj_get contract ''schema_sha256'')) of
                (Some terminal_json, Some terminal_hash, Some service_hash, Some schema_hash) \<Rightarrow>
                  if repeat = 0 \<or> yyjson_get_uint (yyjson_obj_get case_value ''pipeline_depth'') \<noteq> 1 then None
                  else Some \<lparr>ca_fixture_hash = fixture_hash, ca_terminal_json = terminal_json, ca_terminal_hash = terminal_hash,
                             ca_service_hash = service_hash, ca_schema_hash = schema_hash, ca_repeat = repeat\<rparr>
              | _ \<Rightarrow> None))"

definition position_zero :: alpha_pg_position_t where
  "position_zero = \<lparr>pos_ticker = [], pos_name = [], pos_quantity = 0, pos_avg_price = 0, pos_current_price = 0,
     pos_is_paper = False, pos_account_scope = [], pos_strategy_id = []\<rparr>"

definition exposure_zero :: alpha_pg_exposure_t where
  "exposure_zero = \<lparr>exp_ticker = [], exp_total_quantity = 0, exp_total_market_value = 0, exp_total_aum = 0,
     exp_strategy_count = 0, exp_exposure_pct = 0\<rparr>"

text \<open>The adapter before the connections: its total is computed in \<^verbatim>\<open>size_t\<close>.\<close>

definition adapter_init :: "'l adapter_world \<Rightarrow> ('l, 'w, 'h, 'q) adapter_env \<Rightarrow> options_t \<Rightarrow> int \<Rightarrow> ('l, 'w, 'h, 'q) adapter_t option" where
  "adapter_init world env options repeat =
     (let kind = (if op_case_name options = ''redis-hot-path'' then CASE_REDIS else CASE_DB);
          total = nat (repeat * int OP_COUNT mod 2 ^ 64)
      in if (kind = CASE_DB \<and> op_case_name options \<noteq> ''db-read-write'') \<or> length (op_namespace_text options) \<ge> 96 then None
         else if \<not> w_calloc_latency world then None
         else case alpha_lws_runtime_create (env_lws env) (w_calloc_runtime world) (w_calloc_watches world) (w_lws_context world) 2 True of
           (ALPHA_OK, evs, Some rt) \<Rightarrow>
             Some \<lparr>ad_runtime = rt, ad_watch = None, ad_redis = None, ad_pg = None, ad_kind = kind, ad_repeat = nat repeat,
                   ad_concurrency = nat (op_concurrency options), ad_total = total, ad_submitted = 0, ad_completed = 0,
                   ad_connected = False, ad_inflight = False, ad_failed = False, ad_latency_ns = replicate total 0,
                   ad_token = \<lparr>tk_index = 0, tk_started_ns = 0\<rparr>, ad_ticker = [],
                   ad_namespace_text = snprintf 96 (op_namespace_text options),
                   ad_redis_value = snprintf 128 (''{\"price\":70000,\"volume\":10}''),
                   ad_db_rows = [position_zero, position_zero], ad_exposure = exposure_zero, ad_readings = 0\<rparr>
         | _ \<Rightarrow> None)"

definition setup_redis :: "'l adapter_world \<Rightarrow> ('l, 'w, 'h, 'q) adapter_env \<Rightarrow> ('l, 'w, 'h, 'q) adapter_t \<Rightarrow> ('l, 'w, 'h, 'q) adapter_t option" where
  "setup_redis world env a =
     (let a = a\<lparr>ad_ticker := snprintf 32 (''005930:'' @ fmt_x 8 (uint (namespace_hash (ad_namespace_text a))))\<rparr>
      in case alpha_redis_async_connect (env_hiredis env) (Some ''127.0.0.1'') 56379 True True True True True
                (w_calloc_redis world) (w_malloc_host world) of
           (st, evs, redis) \<Rightarrow> map_option (\<lambda>a. fail (st \<noteq> ALPHA_OK) (a\<lparr>ad_redis := redis\<rparr>)) (redis_callbacks env evs a))"

definition db_row :: "string \<Rightarrow> nat \<Rightarrow> alpha_pg_position_t" where
  "db_row ticker i =
     \<lparr>pos_ticker = snprintf ALPHA_PG_TEXT_CAP ticker, pos_name = snprintf ALPHA_PG_TEXT_CAP ''MVP-2 fixture'',
      pos_quantity = (if i = 0 then 10 else 20), pos_avg_price = 1000, pos_current_price = (if i = 0 then 1000 else 1200),
      pos_is_paper = True, pos_account_scope = snprintf ALPHA_PG_TEXT_CAP ''paper'',
      pos_strategy_id = snprintf ALPHA_PG_TEXT_CAP (''strategy-'' @ [char_of (97 + i)])\<rparr>"

definition conninfo_of :: "'l adapter_world \<Rightarrow> string" where
  "conninfo_of world =
     (case w_getenv world ''ALPHA_POSTGRES_URL'' of Some t \<Rightarrow> t
      | None \<Rightarrow> ''host=127.0.0.1 port=55432 dbname=alpha_test user=alpha_test '' @ ''password=alpha_test_only'')"

definition setup_db :: "'l adapter_world \<Rightarrow> ('l, 'w, 'h, 'q) adapter_env \<Rightarrow> ('l, 'w, 'h, 'q) adapter_t \<Rightarrow> ('l, 'w, 'h, 'q) adapter_t option" where
  "setup_db world env a =
     (let ticker = snprintf 32 (''M'' @ fmt_x 8 (uint (namespace_hash (ad_namespace_text a))));
          a = a\<lparr>ad_ticker := ticker, ad_db_rows := [db_row ticker 0, db_row ticker 1]\<rparr>
      in if \<not> pg_cleanup world (conninfo_of world) ticker then Some (fail True a)
         else case alpha_pg_connect_start (env_libpq env) (w_calloc_db world) (w_calloc_fifo world)
                     \<lparr>req_kind = ALPHA_PG_RESULT_POSITION, req_callback = None, req_user_data = ()\<rparr> (Some (conninfo_of world)) 1 True of
           (st, pg) \<Rightarrow>
             let a = a\<lparr>ad_pg := pg\<rparr>; fd = alpha_pg_socket (env_libpq env) pg
             in if st \<noteq> ALPHA_OK then Some (fail True a)
                else case alpha_lws_watch_add (env_lws env) (env_dup env fd) (Some (ad_runtime a)) fd True (Some ()) (Some ()) True of
                  (st, evs, h, Some rt) \<Rightarrow> if quiet evs then Some (fail (st \<noteq> ALPHA_OK) (a\<lparr>ad_runtime := rt, ad_watch := h\<rparr>)) else None
                | _ \<Rightarrow> None)"

text \<open>The connection, the measured part and the check of its results.\<close>

definition measure_case ::
    "('l, 'w, 'h, 'q) adapter_env \<Rightarrow> ('l, 'w, 'h, 'q) adapter_t \<Rightarrow> (bool \<times> 64 word \<times> ('l, 'w, 'h, 'q) adapter_t) option" where
  "measure_case env a =
     (case now_ns env a of (now, a) \<Rightarrow>
        Option.bind (wait_connection env (now + 5000000000) a) (\<lambda>(up, a).
          case now_ns env (fail (\<not> up) a) of (started, a) \<Rightarrow>
            Option.bind (drive env (started + 5000000000) a) (\<lambda>(ok, a).
              case now_ns env a of (ended, a) \<Rightarrow> Some (ok \<and> terminal_matches_service a, ended - started, a))))"

text \<open>The drivers and the runtime are released at the end; a ready function that is called then would use them after that.\<close>

definition shut_down ::
    "('l, 'w, 'h, 'q) adapter_env \<Rightarrow> ('l, 'w, 'h, 'q) adapter_t \<Rightarrow> unit option" where
  "shut_down env a =
     Option.bind (if ad_kind a = CASE_DB then Some a else redis_callbacks env (alpha_redis_async_close (env_hiredis env) (ad_redis a)) a)
       (\<lambda>a. if quiet (alpha_lws_runtime_destroy (env_lws env) (Some (ad_runtime a))) then Some () else None)"

text \<open>The exit code and the standard output.\<close>

definition adapter_main :: "'l adapter_world \<Rightarrow> ('l, 'w, 'h, 'q) adapter_env \<Rightarrow> string list \<Rightarrow> (int \<times> string) option" where
  "adapter_main world env argv =
     (case parse_options argv of None \<Rightarrow> Some (2, [])
      | Some options \<Rightarrow>
        (case load_case world options of None \<Rightarrow> Some (2, [])
         | Some ca \<Rightarrow>
           (case adapter_init world env options (ca_repeat ca) of None \<Rightarrow> Some (2, [])
            | Some a \<Rightarrow>
                Option.bind (if ad_kind a = CASE_REDIS then setup_redis world env a else setup_db world env a) (\<lambda>a.
                Option.bind (measure_case env a) (\<lambda>(ok, elapsed, a).
                Option.bind (shut_down env a) (\<lambda>_.
                  Some (if ok then 0 else 1,
                        if ok then emit (w_version world) (w_rss world) a (ca_fixture_hash ca) (ca_terminal_hash ca) (ca_terminal_json ca)
                                     elapsed (w_cpu_ns world) (ca_service_hash ca) (ca_schema_hash ca)
                        else [])))))))"

section \<open>One operation at a time\<close>

text \<open>The counters agree with the operation in flight, operations complete in the order of their indices, and every completed
  one has been measured unless the run has failed.\<close>

definition counters :: "('l, 'w, 'h, 'q) adapter_t \<Rightarrow> bool" where
  "counters a \<longleftrightarrow> length (ad_latency_ns a) = ad_total a \<and> ad_submitted a \<le> ad_total a
     \<and> ad_submitted a = ad_completed a + (if ad_inflight a then 1 else 0)
     \<and> (ad_inflight a \<longrightarrow> tk_index (ad_token a) = ad_completed a)
     \<and> (\<not> ad_failed a \<longrightarrow> (\<forall>i < ad_completed a. ad_latency_ns a ! i \<noteq> 0))"

text \<open>The operation in flight is the only request of the database client.\<close>

definition waits_for :: "('q, unit, unit) alpha_pg_t \<Rightarrow> nat \<Rightarrow> bool" where
  "waits_for db n \<longleftrightarrow> pg_inv db \<and> length (pg_items db) = n \<and> (\<forall>r \<in> set (pg_items db). req_callback r \<noteq> None)"

definition adapter_inv :: "('l, 'w, 'h, 'q) adapter_t \<Rightarrow> bool" where
  "adapter_inv a \<longleftrightarrow> ad_kind a = CASE_DB \<and> counters a
     \<and> (\<exists>db. ad_pg a = Some db \<and> waits_for db (if ad_inflight a then 1 else 0))"

lemma adapter_invE:
  assumes "adapter_inv a"
  obtains db where "ad_kind a = CASE_DB" "counters a" "ad_pg a = Some db" "waits_for db (if ad_inflight a then 1 else 0)"
  using assms by (auto simp: adapter_inv_def)

lemma completes_waits:
  assumes "completes db evs db'" "waits_for db n"
  shows "length evs \<le> n \<and> waits_for db' (n - length evs)"
proof -
  obtain f where f: "pg_items db = f @ pg_items db'" "map call_of evs = List.map_filter requested f"
    using assms(1) by (auto simp: completes_def)
  have "\<forall>r \<in> set f. requested r \<noteq> None" using assms(2) f(1) by (auto simp: waits_for_def requested_def)
  then have "length (List.map_filter requested f) = length f" by (induction f) (auto simp: List.map_filter_def)
  then have "length evs = length f" using f(2) by (metis length_map)
  then show ?thesis using assms f(1) by (auto simp: waits_for_def completes_def)
qed

text \<open>What a step leaves as it is.\<close>

definition same_task :: "('l, 'w, 'h, 'q) adapter_t \<Rightarrow> ('l, 'w, 'h, 'q) adapter_t \<Rightarrow> bool" where
  "same_task a b \<longleftrightarrow> ad_kind b = ad_kind a \<and> ad_total b = ad_total a \<and> ad_pg b = ad_pg a"

lemma finish_operation_counts:
  assumes "counters a" "ad_inflight a"
  shows "counters (finish_operation env ok a) \<and> \<not> ad_inflight (finish_operation env ok a) \<and> same_task a (finish_operation env ok a)"
  using assms by (auto simp: finish_operation_def now_ns_def counters_def same_task_def Let_def nth_list_update less_Suc_eq)

lemma counters_cong [simp]:
  "counters (a\<lparr>ad_runtime := rt\<rparr>) = counters a" "counters (a\<lparr>ad_pg := p\<rparr>) = counters a" "counters (a\<lparr>ad_db_rows := rows\<rparr>) = counters a"
  "counters (a\<lparr>ad_exposure := e\<rparr>) = counters a" "counters (a\<lparr>ad_readings := n\<rparr>) = counters a"
  by (simp_all add: counters_def)

lemma fail_simps [simp]:
  "ad_kind (fail b a) = ad_kind a" "ad_pg (fail b a) = ad_pg a" "ad_inflight (fail b a) = ad_inflight a" "ad_total (fail b a) = ad_total a"
  "ad_completed (fail b a) = ad_completed a" "ad_submitted (fail b a) = ad_submitted a" "ad_readings (fail b a) = ad_readings a"
  "ad_failed (fail b a) = (b \<or> ad_failed a)" "ad_latency_ns (fail b a) = ad_latency_ns a" "ad_token (fail b a) = ad_token a"
  by (simp_all add: fail_def)

lemma counters_fail: "counters a \<Longrightarrow> counters (fail b a)"
  by (simp add: counters_def)

lemma pg_reply_counts:
  assumes "pg_reply env result a = Some a'" "counters a" "ad_inflight a"
  shows "counters a' \<and> \<not> ad_inflight a' \<and> same_task a a'"
proof -
  obtain ok rows e where a': "a' = finish_operation env ok (a\<lparr>ad_db_rows := rows, ad_exposure := e\<rparr>)"
  proof -
    have "a = a\<lparr>ad_db_rows := ad_db_rows a, ad_exposure := ad_exposure a\<rparr>"
      "\<And>r. a\<lparr>ad_db_rows := r\<rparr> = a\<lparr>ad_db_rows := r, ad_exposure := ad_exposure a\<rparr>"
      "\<And>x. a\<lparr>ad_exposure := x\<rparr> = a\<lparr>ad_db_rows := ad_db_rows a, ad_exposure := x\<rparr>" by simp_all
    then show thesis using assms(1) that
      by (auto simp only: pg_reply_def Let_def split: if_splits alpha_pg_value_t.splits) (metis option.sel)+
  qed
  have "counters (a\<lparr>ad_db_rows := rows, ad_exposure := e\<rparr>)" "ad_inflight (a\<lparr>ad_db_rows := rows, ad_exposure := e\<rparr>)"
    using assms(2,3) by simp_all
  from finish_operation_counts [OF this, of env ok] show ?thesis by (simp add: a' same_task_def)
qed

lemma pg_replies_counts:
  assumes "pg_replies env evs a = Some a'" "counters a" "length evs \<le> (if ad_inflight a then 1 else 0)"
  shows "counters a' \<and> ad_inflight a' = (ad_inflight a \<and> evs = []) \<and> same_task a a'"
proof (cases evs)
  case Nil
  then show ?thesis using assms by (simp add: same_task_def)
next
  case (Cons ev rest)
  then have "rest = []" "ad_inflight a" using assms(3) by (auto split: if_splits)
  then show ?thesis using assms(1,2) Cons pg_reply_counts by (cases ev) (auto simp: Option.bind_eq_Some_conv)
qed

section \<open>The event loop as a sequence of calls\<close>

text \<open>What every call of a ready function keeps, a service call of the event loop keeps: \<open>inv\<close> holds before, and \<open>rel\<close> relates
  the adapter before to the adapter after.\<close>

locale loop_step =
  fixes env :: "('l, 'w, 'h, 'q) adapter_env"
    and inv :: "('l, 'w, 'h, 'q) adapter_t \<Rightarrow> bool"
    and rel :: "('l, 'w, 'h, 'q) adapter_t \<Rightarrow> ('l, 'w, 'h, 'q) adapter_t \<Rightarrow> bool"
  assumes rel_refl: "inv a \<Longrightarrow> rel a a"
    and rel_trans: "rel a b \<Longrightarrow> rel b c \<Longrightarrow> rel a c"
    and rel_inv: "rel a b \<Longrightarrow> inv b"
    and rel_runtime: "inv a \<Longrightarrow> rel a (a\<lparr>ad_runtime := rt\<rparr>)"
    and rel_ready: "ready env r w t a = Some b \<Longrightarrow> inv a \<Longrightarrow> rel a b"
begin

lemma rel_ready_events: "ready_events env evs a = Some b \<Longrightarrow> inv a \<Longrightarrow> rel a b"
proof (induction evs arbitrary: a)
  case (Cons ev evs)
  show ?case
  proof (cases ev)
    case (Lws_Ready f x r w t)
    then obtain c where "ready env r w t a = Some c" "ready_events env evs c = Some b"
      using Cons.prems(1) by (cases f; cases x) (auto simp: Option.bind_eq_Some_conv)
    then show ?thesis using Cons.IH Cons.prems(2) rel_ready rel_inv rel_trans by blast
  next
    case (Lws_Close fd)
    then show ?thesis using Cons by simp
  qed
qed (simp add: rel_refl)

lemma rel_wakeup_watches: "wakeup_watches env i n a = Some b \<Longrightarrow> inv a \<Longrightarrow> rel a b"
proof (induction n arbitrary: i a)
  case (Suc n)
  then obtain c where "ready_events env (wakeup_loop (take 1 (drop i (rt_watches (ad_runtime a))))) a = Some c"
    "wakeup_watches env (i + 1) n c = Some b" by (auto simp: Option.bind_eq_Some_conv)
  then show ?case using Suc.IH Suc.prems(2) rel_ready_events rel_inv rel_trans by blast
qed (simp add: rel_refl)

lemma rel_service_calls: "service_calls env calls a = Some b \<Longrightarrow> inv a \<Longrightarrow> rel a b"
proof (induction calls arbitrary: a)
  case (Cons call calls)
  have "\<exists>c. rel a c \<and> service_calls env calls c = Some b"
  proof (cases call)
    case (Lws_Callback opaque reason)
    obtain evs rt where "foreign_fd_callback opaque reason (ad_runtime a) = (evs, rt)" by force
    then obtain c where c: "ready_events env evs (a\<lparr>ad_runtime := rt\<rparr>) = Some c" "service_calls env calls c = Some b"
      using Cons.prems(1) Lws_Callback by (auto simp: Option.bind_eq_Some_conv)
    then show ?thesis using rel_runtime [OF Cons.prems(2)] rel_ready_events rel_inv rel_trans by blast
  next
    case Lws_Wakeup
    then obtain c where "wakeup_watches env 0 (rt_capacity (ad_runtime a)) a = Some c" "service_calls env calls c = Some b"
      using Cons.prems(1) by (auto simp: Option.bind_eq_Some_conv)
    then show ?thesis using rel_wakeup_watches Cons.prems(2) by blast
  qed
  then show ?case using Cons.IH rel_inv rel_trans by blast
qed (simp add: rel_refl)

lemma rel_runtime_service: "runtime_service env ms a = Some (st, b) \<Longrightarrow> inv a \<Longrightarrow> rel a b"
  by (auto simp: runtime_service_def Let_def rel_refl split: if_splits prod.splits
      dest!: rel_service_calls intro: rel_trans [OF rel_runtime] rel_inv [OF rel_runtime])

end

subsection \<open>The operation in flight\<close>

text \<open>A part of a run keeps the invariant and the number of operations.\<close>

definition keeps :: "('l, 'w, 'h, 'q) adapter_t \<Rightarrow> ('l, 'w, 'h, 'q) adapter_t \<Rightarrow> bool" where
  "keeps a b \<longleftrightarrow> adapter_inv b \<and> ad_total b = ad_total a"

lemma keeps_basic:
  "keeps a b \<Longrightarrow> adapter_inv b" "adapter_inv a \<Longrightarrow> keeps a a" "adapter_inv a \<Longrightarrow> keeps a (a\<lparr>ad_runtime := rt\<rparr>)"
  "adapter_inv a \<Longrightarrow> keeps a (snd (now_ns env a))" "keeps a b \<Longrightarrow> keeps a (fail c b)"
  by (auto simp: keeps_def adapter_inv_def now_ns_def counters_fail)

lemma keeps_trans: "keeps a b \<Longrightarrow> keeps b c \<Longrightarrow> keeps a c"
  by (auto simp: keeps_def)

lemma set_write_keeps: "adapter_inv a \<Longrightarrow> keeps a (snd (set_write env w a))"
  by (simp add: set_write_def case_prod_beta keeps_basic)

lemma ready_keeps:
  assumes "ready env r w t a = Some b" "adapter_inv a"
  shows "keeps a b"
proof -
  obtain db where inv: "ad_kind a = CASE_DB" "counters a" "ad_pg a = Some db" "waits_for db (if ad_inflight a then 1 else 0)"
    using assms(2) by (rule adapter_invE)
  obtain st evs pg c where svc: "alpha_pg_service (env_libpq env) (Some db) r w = Some (st, evs, pg)"
    and rep: "pg_replies env evs (a\<lparr>ad_pg := pg\<rparr>) = Some c"
    and b: "b = (let x = (if st = ALPHA_OK then set_write env (alpha_pg_wants_write pg) c else (st, c)) in fail (fst x \<noteq> ALPHA_OK) (snd x))"
    using assms(1) inv(1,3) by (auto simp: ready_def Option.bind_eq_Some_conv case_prod_beta Let_def split: option.splits)
  obtain db' where db': "pg = Some db'" "completes db evs db'"
    using service_completes [OF svc] inv(4) by (auto simp: waits_for_def)
  have n: "length evs \<le> (if ad_inflight a then 1 else 0)" "waits_for db' ((if ad_inflight a then 1 else 0) - length evs)"
    using completes_waits [OF db'(2) inv(4)] by simp_all
  have c: "counters c" "ad_inflight c = (ad_inflight a \<and> evs = [])" "same_task (a\<lparr>ad_pg := pg\<rparr>) c"
    using pg_replies_counts [OF rep] inv(2) n(1) by simp_all
  have "((if ad_inflight a then 1 else 0) - length evs) = (if ad_inflight c then 1 else 0)"
    using n(1) c(2) by (cases evs) (auto split: if_splits)
  then have "keeps a c" using c inv n(2) db'(1) by (auto simp: keeps_def adapter_inv_def same_task_def)
  moreover from this have "keeps c (snd (set_write env x c))" for x using set_write_keeps keeps_basic(1) by blast
  ultimately show ?thesis using keeps_trans keeps_basic(5) by (fastforce simp: b Let_def)
qed

interpretation keeping: loop_step env adapter_inv keeps for env
  by unfold_locales (auto simp: keeps_basic ready_keeps intro: keeps_trans)

lemma pg_submit_waits:
  assumes "pg_submit env operation a = (st, b)" "ad_pg a = Some db" "waits_for db 0"
  obtains db' where "b = a\<lparr>ad_pg := Some db'\<rparr>" "waits_for db' (if st = ALPHA_OK then 1 else 0)"
proof -
  let ?p = "Some (ad_db_rows a ! operation)"
  obtain db' where db': "b = a\<lparr>ad_pg := Some db'\<rparr>"
    "(if operation < 2 then alpha_pg_upsert_position (env_libpq env) (Some db) ?p (Some ()) ()
      else alpha_pg_query_exposure (env_libpq env) (Some db) (Some (ad_ticker a)) (Some ()) ()) = (st, Some db')"
    using assms(1,2)
    by (auto simp: pg_submit_def alpha_pg_upsert_position_def alpha_pg_query_exposure_def send_request_def Let_def
        split: if_splits prod.splits)
  have "pg_inv db' \<and> (\<exists>kind. pg_items db' = pg_items db @ accepted st kind (Some ()) ())"
    using db'(2) upsert_pushes [of "env_libpq env" db ?p] exposure_pushes [of "env_libpq env" db] assms(3)
    by (auto simp: waits_for_def split: if_splits)
  then have "waits_for db' (if st = ALPHA_OK then 1 else 0)" using assms(3) by (auto simp: waits_for_def accepted_def)
  with db'(1) show thesis by (rule that)
qed

lemma submit_one_keeps:
  assumes "submit_one env a = Some (st, b)" "adapter_inv a" "\<not> ad_inflight a" "ad_completed a < ad_total a"
  shows "keeps a b"
proof -
  obtain db where inv: "ad_kind a = CASE_DB" "counters a" "ad_pg a = Some db" "waits_for db 0"
    using assms(2,3) by (auto elim: adapter_invE)
  let ?a = "a\<lparr>ad_readings := ad_readings a + 1, ad_token := \<lparr>tk_index = ad_submitted a, tk_started_ns = env_clock env (ad_readings a)\<rparr>\<rparr>"
  obtain r c where c: "pg_submit env (ad_submitted a mod OP_COUNT) ?a = (r, c)" by force
  obtain db' where db': "c = ?a\<lparr>ad_pg := Some db'\<rparr>" "waits_for db' (if r = ALPHA_OK then 1 else 0)"
    using pg_submit_waits [OF c, of db] inv(3,4) by auto
  have n: "ad_submitted a = ad_completed a" using inv(2) assms(3) by (simp add: counters_def)
  show ?thesis
  proof (cases "r = ALPHA_OK")
    case True
    let ?c = "c\<lparr>ad_submitted := ad_submitted c + 1, ad_inflight := True\<rparr>"
    have "keeps a ?c" using inv assms(3,4) db' True n by (auto simp: keeps_def adapter_inv_def counters_def)
    moreover have "b = snd (set_write env (alpha_pg_wants_write (ad_pg ?c)) ?c)"
      using assms(1) inv(1) c db'(1) True by (simp add: submit_one_def now_ns_def Let_def split: prod.splits)
    ultimately show ?thesis using keeps_trans [OF _ set_write_keeps [OF keeps_basic(1)]] by simp
  next
    case False
    then have "b = c" using assms(1) inv(1) c db'(1) by (simp add: submit_one_def now_ns_def Let_def)
    then show ?thesis using inv assms(3) db' False by (auto simp: keeps_def adapter_inv_def counters_def)
  qed
qed

lemma drive_wait_keeps:
  assumes "drive_wait env deadline a = Some b" "adapter_inv a"
  shows "keeps a b"
proof -
  obtain st c where c: "runtime_service env 1 a = Some (st, c)"
    and b: "b = fail True c \<or> b = fail (fst (now_ns env c) > deadline) (snd (now_ns env c))"
    using assms(1) by (auto simp: drive_wait_def Option.bind_eq_Some_conv case_prod_beta split: if_splits)
  have k: "keeps a c" using keeping.rel_runtime_service [OF c assms(2)] .
  then have "keeps a (snd (now_ns env c))" using keeps_trans keeps_basic(1,4) by blast
  then show ?thesis using b k keeps_basic(5) by blast
qed

lemma drive_step_keeps:
  assumes "drive_step env deadline a = Some b" "adapter_inv a" "ad_completed a < ad_total a"
  shows "keeps a b"
proof (cases "\<not> ad_inflight a \<and> (ad_kind a = CASE_REDIS \<or> alpha_pg_is_idle (ad_pg a))")
  case True
  then obtain st c where c: "submit_one env a = Some (st, c)" "b = fail True c \<or> drive_wait env deadline c = Some b"
    using assms(1) by (auto simp: drive_step_def Option.bind_eq_Some_conv split: if_splits)
  then have "keeps a c" using submit_one_keeps assms(2,3) True by blast
  then show ?thesis using c(2) keeps_basic(5) [of a c True] keeps_trans [OF _ drive_wait_keeps [OF _ keeps_basic(1)]] by blast
next
  case False
  then have "drive_wait env deadline a = Some b" using assms(1) by (simp add: drive_step_def del: de_Morgan_conj)
  then show ?thesis using drive_wait_keeps assms(2) by blast
qed

text \<open>The states at the head of the loop of \<open>drive\<close>.\<close>

inductive drive_reaches ::
    "('l, 'w, 'h, 'q) adapter_env \<Rightarrow> 64 word \<Rightarrow> ('l, 'w, 'h, 'q) adapter_t \<Rightarrow> ('l, 'w, 'h, 'q) adapter_t \<Rightarrow> bool" for env deadline a where
  start: "drive_reaches env deadline a a"
| iterate: "drive_reaches env deadline a b \<Longrightarrow> \<not> ad_failed b \<Longrightarrow> ad_completed b < ad_total b \<Longrightarrow> drive_step env deadline b = Some c
    \<Longrightarrow> drive_reaches env deadline a c"

lemma drive_reaches_first:
  "drive_reaches env deadline c b \<Longrightarrow> \<not> ad_failed a \<Longrightarrow> ad_completed a < ad_total a \<Longrightarrow> drive_step env deadline a = Some c
    \<Longrightarrow> drive_reaches env deadline a b"
  by (induction rule: drive_reaches.induct) (auto intro: drive_reaches.intros)

lemma drive_reaches_keeps: "drive_reaches env deadline a b \<Longrightarrow> adapter_inv a \<Longrightarrow> keeps a b"
proof (induction rule: drive_reaches.induct)
  case (iterate b c)
  then have "keeps b c" using drive_step_keeps keeps_basic(1) by blast
  with iterate show ?case using keeps_trans by blast
qed (simp add: keeps_basic)

lemma drive_result:
  fixes a b :: "('l, 'w, 'h, 'q) adapter_t"
  assumes "drive env deadline a = Some (ok, b)"
  shows "drive_reaches env deadline a b \<and> ok = (\<not> ad_failed b) \<and> (ad_failed b \<or> ad_completed b \<ge> ad_total b)"
proof -
  define P where "P = (\<lambda>(env :: ('l, 'w, 'h, 'q) adapter_env) deadline a (y :: bool \<times> ('l, 'w, 'h, 'q) adapter_t).
    drive_reaches env deadline a (snd y) \<and> fst y = (\<not> ad_failed (snd y)) \<and> (ad_failed (snd y) \<or> ad_completed (snd y) \<ge> ad_total (snd y)))"
  have "P env deadline a (ok, b)"
  proof (rule drive.raw_induct [OF _ assms])
    fix f env deadline a y
    assume ih: "\<And>env deadline a y. f env deadline a = Some y \<Longrightarrow> P env deadline a y"
      and y: "(if ad_failed a \<or> ad_completed a \<ge> ad_total a then Some (\<not> ad_failed a, a)
        else Option.bind (drive_step env deadline a) (f env deadline)) = Some y"
    show "P env deadline a y"
    proof (cases "ad_failed a \<or> ad_completed a \<ge> ad_total a")
      case True
      then show ?thesis using y by (auto simp: P_def intro: drive_reaches.start)
    next
      case False
      then obtain c where c: "drive_step env deadline a = Some c" "f env deadline c = Some y"
        using y by (auto simp: Option.bind_eq_Some_conv)
      show ?thesis using ih [OF c(2)] drive_reaches_first [OF _ _ _ c(1)] False by (auto simp: P_def)
    qed
  qed
  then show ?thesis by (simp add: P_def)
qed

subsection \<open>The clock\<close>

















section \<open>Whole runs\<close>

lemma wait_connection_keeps:
  fixes a b :: "('l, 'w, 'h, 'q) adapter_t"
  assumes "wait_connection env deadline a = Some (up, b)" "adapter_inv a"
  shows "keeps a b"
proof -
  define P where "P = (\<lambda>(env :: ('l, 'w, 'h, 'q) adapter_env) (deadline :: 64 word) a (y :: bool \<times> ('l, 'w, 'h, 'q) adapter_t).
    adapter_inv a \<longrightarrow> keeps a (snd y))"
  have "P env deadline a (up, b)"
  proof (rule wait_connection.raw_induct [OF _ assms(1)])
    fix f env deadline a y
    assume ih: "\<And>env deadline a y. f env deadline a = Some y \<Longrightarrow> P env deadline a y"
      and y: "(if ad_failed a then Some (False, a)
        else if (ad_kind a = CASE_REDIS \<and> ad_connected a) \<or> (ad_kind a = CASE_DB \<and> alpha_pg_state (ad_pg a) = ALPHA_PG_READY) then Some (True, a)
        else Option.bind (runtime_service env 1 a)
          (\<lambda>(st, a). if st \<noteq> ALPHA_OK then Some (False, a)
             else case now_ns env a of (now, a) \<Rightarrow> if now > deadline then Some (False, a) else f env deadline a)) = Some y"
    show "P env deadline a y"
    proof (cases "snd y = a")
      case True
      then show ?thesis by (simp add: P_def keeps_basic)
    next
      case False
      then obtain st c where c: "runtime_service env 1 a = Some (st, c)"
        and or: "snd y = c \<or> snd y = snd (now_ns env c) \<or> f env deadline (snd (now_ns env c)) = Some y"
        using y by (auto simp: Option.bind_eq_Some_conv case_prod_beta split: if_splits)
      have "keeps a (snd y)" if "adapter_inv a"
      proof -
        have k: "keeps a c" using keeping.rel_runtime_service [OF c that] .
        have n: "keeps a (snd (now_ns env c))" using keeps_trans [OF k keeps_basic(4) [OF keeps_basic(1) [OF k]]] .
        from or show ?thesis using k n ih [of env deadline "snd (now_ns env c)" y] keeps_trans [OF n] keeps_basic(1) [OF n] by (auto simp: P_def)
      qed
      then show ?thesis by (simp add: P_def)
    qed
  qed
  then show ?thesis using assms(2) by (simp add: P_def)
qed

lemma adapter_init_fresh:
  assumes "adapter_init world env options repeat = Some a"
  shows "counters a \<and> \<not> ad_inflight a \<and> \<not> ad_failed a \<and> ad_total a = nat (repeat * 3 mod 2 ^ 64)
    \<and> ad_kind a = (if op_case_name options = ''redis-hot-path'' then CASE_REDIS else CASE_DB)"
  using assms by (auto simp: adapter_init_def Let_def counters_def OP_COUNT_def split: if_splits prod.splits option.splits alpha_err_t.splits)

lemma connect_start_waits:
  assumes "alpha_pg_connect_start lib x y zero info 1 True = (ALPHA_OK, pg)"
  obtains db where "pg = Some db" "waits_for db 0"
  using assms by (auto simp: alpha_pg_connect_start_def waits_for_def pg_inv_def pg_items_def Let_def ALPHA_PG_MAX_PIPELINE_DEPTH_def
      ALPHA_PG_MIN_PIPELINE_DEPTH_def split: option.splits if_splits prod.splits)

lemma setup_db_inv:
  assumes "setup_db world env a0 = Some a" "counters a0" "\<not> ad_inflight a0" "ad_kind a0 = CASE_DB"
  shows "ad_failed a \<or> (adapter_inv a \<and> ad_total a = ad_total a0)"
proof (cases "ad_failed a")
  case False
  let ?t = "snprintf 32 (''M'' @ fmt_x 8 (uint (namespace_hash (ad_namespace_text a0))))"
  obtain pg rt h where c: "alpha_pg_connect_start (env_libpq env) (w_calloc_db world) (w_calloc_fifo world)
      \<lparr>req_kind = ALPHA_PG_RESULT_POSITION, req_callback = None, req_user_data = ()\<rparr> (Some (conninfo_of world)) 1 True = (ALPHA_OK, pg)"
    and a: "a = a0\<lparr>ad_ticker := ?t, ad_db_rows := [db_row ?t 0, db_row ?t 1], ad_pg := pg, ad_runtime := rt, ad_watch := h\<rparr>"
    using assms(1) False by (auto simp: setup_db_def Let_def fail_def split: if_splits prod.splits option.splits)
  obtain db where "pg = Some db" "waits_for db 0" using connect_start_waits [OF c] .
  then show ?thesis using assms(2-4) by (auto simp: a adapter_inv_def counters_def)
qed simp

lemma measure_case_unfold:
  assumes "measure_case env a = Some (True, elapsed, b)"
  obtains up d e where "wait_connection env (env_clock env (ad_readings a) + 5000000000) (a\<lparr>ad_readings := ad_readings a + 1\<rparr>) = Some (up, d)"
    "drive env (env_clock env (ad_readings d) + 5000000000) ((fail (\<not> up) d)\<lparr>ad_readings := ad_readings d + 1\<rparr>) = Some (True, e)"
    "b = e\<lparr>ad_readings := ad_readings e + 1\<rparr>" "elapsed = env_clock env (ad_readings e) - env_clock env (ad_readings d)"
    "terminal_matches_service b"
  using assms by (auto simp: measure_case_def now_ns_def Option.bind_eq_Some_conv)

lemma measured_run:
  assumes "adapter_inv a \<or> ad_failed a" "measure_case env a = Some (True, elapsed, b)"
  shows "adapter_inv b \<and> ad_total b = ad_total a \<and> \<not> ad_failed a \<and> \<not> ad_failed b \<and> ad_total b \<le> ad_completed b
    \<and> terminal_matches_service b"
proof -
  let ?a = "a\<lparr>ad_readings := ad_readings a + 1\<rparr>"
  obtain up d e where w: "wait_connection env (env_clock env (ad_readings a) + 5000000000) ?a = Some (up, d)"
    and dr: "drive env (env_clock env (ad_readings d) + 5000000000) ((fail (\<not> up) d)\<lparr>ad_readings := ad_readings d + 1\<rparr>) = Some (True, e)"
    and b: "b = e\<lparr>ad_readings := ad_readings e + 1\<rparr>" and m: "terminal_matches_service b"
    using measure_case_unfold [OF assms(2)] .
  let ?d = "(fail (\<not> up) d)\<lparr>ad_readings := ad_readings d + 1\<rparr>"
  have "\<not> ad_failed ?d" using dr by (subst (asm) drive.simps) (auto split: if_splits)
  then have up: "\<not> ad_failed a" using w by (subst (asm) wait_connection.simps) (auto split: if_splits)
  then have i: "adapter_inv ?a" using assms(1) by (simp add: adapter_inv_def)
  have k: "keeps ?a d" using wait_connection_keeps [OF w i] .
  then have "keeps ?a ?d" using keeps_basic(5) [OF k, of "\<not> up"] by (simp add: keeps_def adapter_inv_def)
  moreover have r: "drive_reaches env (env_clock env (ad_readings d) + 5000000000) ?d e" "\<not> ad_failed e" "ad_completed e \<ge> ad_total e"
    using drive_result [OF dr] by auto
  ultimately have "keeps ?a e" using drive_reaches_keeps [OF r(1)] keeps_basic(1) keeps_trans by blast
  then have "adapter_inv b" "ad_total b = ad_total a" by (simp_all add: b keeps_def adapter_inv_def)
  then show ?thesis using r(2,3) up m by (simp add: b)
qed

section \<open>Examples\<close>

text \<open>A database that answers every statement of the adapter at once, an event loop that reports the socket as writable and
  then as readable, and a clock that ticks with every reading.\<close>

definition echo_libpq :: "(pg_result option list) libpq" where
  "echo_libpq = (scripted_libpq [])\<lparr>PQsendQueryParams := (\<lambda>c sql params.
     (1, c @ [Some (if length params = 8 then example_row params else example_row [params ! 0, ''30'', ''34000'', ''34000'', ''2'']), None,
              Some \<lparr>PQresultStatus = PGRES_PIPELINE_SYNC, PQntuples = 0, PQgetvalue = (\<lambda>_ _. []), PQresultErrorMessage = []\<rparr>]))\<rparr>"

definition polling_lws :: "(nat, nat) libwebsockets" where
  "polling_lws = memory_lws\<lparr>lws_service :=
     (\<lambda>c. (0, [Lws_Callback (Some 0) LWS_CALLBACK_RAW_WRITEABLE_FILE, Lws_Callback (Some 0) LWS_CALLBACK_RAW_RX_FILE], c))\<rparr>"

definition example_env :: "(nat, nat, unit list, pg_result option list) adapter_env" where
  "example_env = \<lparr>env_lws = polling_lws, env_hiredis = memory_hiredis, env_libpq = echo_libpq, env_clock = (\<lambda>n. word_of_int (min (1000 * int n + 7) (2 ^ 63))),
     env_dup = (\<lambda>fd. fd + 1)\<rparr>"

definition example_world :: "nat adapter_world" where
  "example_world = \<lparr>w_fopen = (\<lambda>_. None), w_digest = (\<lambda>_. None), w_json_read = (\<lambda>_. None), w_json_write = (\<lambda>_. None), w_getenv = (\<lambda>_. None),
     w_pq_execute = (\<lambda>_. Some (\<lambda>_ _. True)), w_malloc_file = True, w_calloc_latency = True, w_calloc_runtime = True,
     w_calloc_watches = True, w_lws_context = Some 0, w_calloc_redis = True, w_malloc_host = True, w_calloc_db = True, w_calloc_fifo = True,
     w_version = ''test'', w_rss = 0, w_cpu_ns = 0\<rparr>"

definition example_options :: options_t where
  "example_options = \<lparr>op_fixture_path = ''f'', op_case_name = ''db-read-write'', op_concurrency = 1, op_namespace_text = ''n''\<rparr>"

declare drive.simps [code] wait_connection.simps [code]

definition example_adapter :: "(nat, nat, unit list, pg_result option list) adapter_t option" where
  "example_adapter = Option.bind (adapter_init example_world example_env example_options 1) (setup_db example_world example_env)"

lemma example_measured:
  "map_option (\<lambda>(ok, elapsed, b). (ok, elapsed)) (Option.bind example_adapter (measure_case example_env)) = Some (True, 10000)"
  by code_simp


section \<open>Properties\<close>

text \<open>
  C13. A measured run of the database case is complete, whatever libpq and libwebsockets do: when the adapter has been set up
  and the measurement succeeds, every one of the three operations per repetition has been submitted and completed, each
  exactly once and in the order of the indices, each has a latency of at least one nanosecond, no request is left in
  the database client, and the rows and the exposure that the service returned last are those of the fixture.
\<close>

theorem adapter_run_complete:
  assumes "adapter_init world env options repeat = Some a0" "op_case_name options = ''db-read-write''"
    and "setup_db world env a0 = Some a" "measure_case env a = Some (True, elapsed, b)"
  shows "ad_total b = nat (repeat * 3 mod 2 ^ 64) \<and> ad_submitted b = ad_total b \<and> ad_completed b = ad_total b
    \<and> length (ad_latency_ns b) = ad_total b \<and> 0 \<notin> set (ad_latency_ns b) \<and> (\<exists>db. ad_pg b = Some db \<and> pg_items db = [])
    \<and> map pos_quantity [ad_db_rows b ! 0, ad_db_rows b ! 1] = [10, 20] \<and> exp_total_market_value (ad_exposure b) = 34000"
proof -
  have a0: "counters a0" "\<not> ad_inflight a0" "ad_kind a0 = CASE_DB" "ad_total a0 = nat (repeat * 3 mod 2 ^ 64)"
    using adapter_init_fresh [OF assms(1)] assms(2) by simp_all
  have a: "ad_failed a \<or> adapter_inv a \<and> ad_total a = ad_total a0" using setup_db_inv [OF assms(3) a0(1-3)] .
  then have b: "adapter_inv b" "ad_total b = ad_total a" "\<not> ad_failed a" "\<not> ad_failed b" "ad_total b \<le> ad_completed b"
    "terminal_matches_service b" using measured_run [OF _ assms(4)] by auto
  then obtain db where c: "ad_kind b = CASE_DB" "counters b" "ad_pg b = Some db" "waits_for db (if ad_inflight b then 1 else 0)"
    using adapter_invE by blast
  have n: "\<not> ad_inflight b" "ad_submitted b = ad_total b" "ad_completed b = ad_total b"
    using c(2) b(5) by (auto simp: counters_def split: if_splits)
  then have "0 \<notin> set (ad_latency_ns b)" "length (ad_latency_ns b) = ad_total b"
    using c(2) b(4) by (auto simp: counters_def in_set_conv_nth)
  then show ?thesis using n a a0(4) b(2,3,6) c(1,3,4) by (auto simp: waits_for_def terminal_matches_service_def Let_def)
qed

theorem adapter_run_complete_witness:
  "\<exists>a b. example_adapter = Some a \<and> measure_case example_env a = Some (True, 10000, b) \<and> ad_completed b = 3 \<and> 0 \<notin> set (ad_latency_ns b)"
proof -
  obtain a0 a where a: "adapter_init example_world example_env example_options 1 = Some a0" "setup_db example_world example_env a0 = Some a"
    "example_adapter = Some a" using example_measured by (auto simp: example_adapter_def Option.bind_eq_Some_conv)
  obtain b where b: "measure_case example_env a = Some (True, 10000, b)"
    using example_measured by (auto simp: a(3))
  have "op_case_name example_options = ''db-read-write''" by (simp add: example_options_def)
  from adapter_run_complete [OF a(1) this a(2) b] show ?thesis using a(3) b by auto
qed



end
