(* ===== verification/Event_Spike.thy ===== *)
theory Event_Spike
  imports Postgres_Client Redis_Cache
begin

unbundle bit_operations_syntax

text \<open>
  The feasibility spike of the single event loop (\<^verbatim>\<open>spike/event_loop/main.c\<close>): one thread of libwebsockets drives
  PostgreSQL, Redis and HTTP. Here the callbacks of the program call the library that is calling them, so a call into a
  library is a tree: the library finishes, or it makes a callback and goes on with what the callback returns and with the
  state that the calls of the callback leave. \<open>None\<close> is a call that does not return, or undefined behaviour.
\<close>

section \<open>Libraries that call back\<close>

datatype ('s, 'c, 'r) lib_run =
    Finish 'r 's
  | Callback 'c 's "int \<Rightarrow> 's \<Rightarrow> ('s, 'c, 'r) lib_run"

text \<open>The state of the library is a part of the state of the program; \<open>serve\<close> is the program's side of a callback.\<close>

primrec run_library ::
    "('a \<Rightarrow> 's) \<Rightarrow> ('s \<Rightarrow> 'a \<Rightarrow> 'a) \<Rightarrow> ('c \<Rightarrow> 'a \<Rightarrow> (int \<times> 'a) option) \<Rightarrow> ('s, 'c, 'r) lib_run \<Rightarrow> 'a \<Rightarrow> ('r \<times> 'a) option" where
  "run_library get put serve (Finish r s) = (\<lambda>a. Some (r, put s a))"
| "run_library get put serve (Callback c s next_call) =
     (\<lambda>a. Option.bind (serve c (put s a)) (\<lambda>(v, a). run_library get put serve (next_call v (get a)) a))"

section \<open>The code\<close>

subsection \<open>Types\<close>

definition QUEUE_CAPACITY :: nat where "QUEUE_CAPACITY = 4"

definition RUN_TIMEOUT_SECONDS :: int where "RUN_TIMEOUT_SECONDS = 20"

datatype owner_t = OWNER_PG | OWNER_REDIS | OWNER_CURL

record watched_fd_t =
  wf_owner :: owner_t
  wf_wsi :: "nat option"
  wf_fd :: int
  wf_curl_action :: "32 word"

record request_t =
  rq_id :: "64 word"
  rq_cancelled :: bool

text \<open>A pointer to a watch is the name of the member of the program's state it points to.\<close>

datatype watch_ref = Pg_Watch_Ref | Redis_Watch_Ref | Curl_Watch_Ref nat

record ('l, 'q, 'h, 'm) app_t =
  ap_context :: 'l
  ap_pg :: "'q option"
  ap_pg_watch :: watched_fd_t
  ap_pg_state :: int
  ap_pg_roundtrip :: bool
  ap_pg_abort_seen :: bool
  ap_pg_sync_seen :: bool
  ap_pg_recovered :: bool
  ap_hiredis :: 'h
  ap_redis :: "nat option"
  ap_redis_watch :: watched_fd_t
  ap_redis_generation :: int
  ap_redis_roundtrip :: bool
  ap_redis_disconnect :: bool
  ap_redis_recovered :: bool
  ap_curl_multi :: 'm
  ap_curl_watches :: "watched_fd_t list"
  ap_curl_watch_count :: nat
  ap_curl_roundtrip :: bool
  ap_curl_status :: int
  ap_queue :: "request_t list"
  ap_queue_len :: nat
  ap_backpressure :: bool
  ap_cancellation :: bool
  ap_request_match :: bool
  ap_clean_shutdown :: bool
  ap_failed :: bool
  ap_started :: int
  ap_polls :: nat
  ap_times :: nat

subsection \<open>The libraries\<close>

text \<open>libwebsockets calls the scheduled function or the protocol callback. libpq makes no callbacks. hiredis has contexts by
  number; the functions that the program calls from a callback only call the hooks of the event adapter, and a context that
  has been freed must not be used. libcurl calls with the pointer that was assigned to the socket.\<close>

datatype spike_reason = RAW_RX | RAW_WRITEABLE | RAW_TIMER | RAW_OTHER

datatype spike_lws_call = Tick_Call | Raw_Call "watch_ref option" spike_reason

record 'l spike_lws =
  sl_cancel_service :: "'l \<Rightarrow> 'l"
  sl_sul_schedule :: "'l \<Rightarrow> 'l"
  sl_service :: "'l \<Rightarrow> ('l, spike_lws_call, int) lib_run"

record 'q spike_libpq = "'q libpq" +
  PQsendFlushRequest :: "'q \<Rightarrow> int \<times> 'q"
  PQconnectStartParams :: "(string \<times> string) list \<Rightarrow> 'q option"

datatype redis_hook = Hook_Add_Read | Hook_Del_Read | Hook_Add_Write | Hook_Del_Write | Hook_Cleanup | Hook_Timer int int

datatype spike_redis_call =
    Redis_Hook redis_hook
  | Redis_Connected bool
  | Redis_Disconnected
  | Redis_Command_Reply nat "redis_reply option"

record 'h spike_hiredis =
  sr_connect :: "'h \<Rightarrow> string \<Rightarrow> int \<Rightarrow> nat option \<times> 'h"
  sr_err :: "'h \<Rightarrow> nat \<Rightarrow> int"
  sr_fd :: "'h \<Rightarrow> nat \<Rightarrow> int"
  sr_alive :: "'h \<Rightarrow> nat \<Rightarrow> bool"
  sr_set_connect_callback :: "'h \<Rightarrow> nat \<Rightarrow> bool \<times> redis_hook list \<times> 'h"
  sr_set_disconnect_callback :: "'h \<Rightarrow> nat \<Rightarrow> bool \<times> redis_hook list \<times> 'h"
  sr_command :: "'h \<Rightarrow> nat \<Rightarrow> bool \<Rightarrow> string \<Rightarrow> bool \<times> redis_hook list \<times> 'h"
  sr_disconnect :: "'h \<Rightarrow> nat \<Rightarrow> redis_hook list \<times> 'h"
  sr_handle_read :: "'h \<Rightarrow> nat \<Rightarrow> ('h, spike_redis_call, unit) lib_run"
  sr_handle_write :: "'h \<Rightarrow> nat \<Rightarrow> ('h, spike_redis_call, unit) lib_run"
  sr_handle_timeout :: "'h \<Rightarrow> nat \<Rightarrow> ('h, spike_redis_call, unit) lib_run"

datatype spike_curl_call =
    Curl_Socket int "32 word" "nat option"
  | Curl_Timer int
  | Curl_Write "64 word" "64 word"

text \<open>A message is about a finished transfer, with whether it succeeded and the response code of its handle, or another one.\<close>

datatype spike_curl_msg = Msg_Done bool int | Msg_Other

record 'm spike_libcurl =
  sc_assign :: "'m \<Rightarrow> int \<Rightarrow> nat option \<Rightarrow> 'm"
  sc_socket_action :: "'m \<Rightarrow> int \<Rightarrow> 32 word \<Rightarrow> ('m, spike_curl_call, bool) lib_run"
  sc_info_read :: "'m \<Rightarrow> spike_curl_msg option \<times> 'm"
  sc_add_handle :: "'m \<Rightarrow> string \<Rightarrow> ('m, spike_curl_call, bool) lib_run"

record ('l, 'q, 'h, 'm) spike_env =
  se_lws :: "'l spike_lws"
  se_pq :: "'q spike_libpq"
  se_hiredis :: "'h spike_hiredis"
  se_curl :: "'m spike_libcurl"
  se_poll :: "nat \<Rightarrow> (int \<times> 16 word) list \<Rightarrow> int \<times> (nat \<Rightarrow> 16 word)"
  se_time :: "nat \<Rightarrow> int"
  se_getenv :: "string \<Rightarrow> string option"

definition SPIKE_POLL_IN :: "32 word" where "SPIKE_POLL_IN = 1"

definition SPIKE_POLL_OUT :: "32 word" where "SPIKE_POLL_OUT = 2"

definition SPIKE_POLL_REMOVE :: "32 word" where "SPIKE_POLL_REMOVE = 4"

definition POLLIN :: "16 word" where "POLLIN = 1"

definition POLLOUT :: "16 word" where "POLLOUT = 4"

definition POLLERR :: "16 word" where "POLLERR = 8"

definition POLLHUP :: "16 word" where "POLLHUP = 16"

subsection \<open>Failure and the queue\<close>

definition cancel_service :: "('l, 'q, 'h, 'm) spike_env \<Rightarrow> ('l, 'q, 'h, 'm) app_t \<Rightarrow> ('l, 'q, 'h, 'm) app_t" where
  "cancel_service env app = app\<lparr>ap_context := sl_cancel_service (se_lws env) (ap_context app)\<rparr>"

definition spike_fail :: "('l, 'q, 'h, 'm) spike_env \<Rightarrow> ('l, 'q, 'h, 'm) app_t \<Rightarrow> ('l, 'q, 'h, 'm) app_t" where
  "spike_fail env app = cancel_service env (app\<lparr>ap_failed := True\<rparr>)"

definition register_socket :: "int \<Rightarrow> watched_fd_t \<Rightarrow> watched_fd_t" where
  "register_socket fd watch = watch\<lparr>wf_fd := fd\<rparr>"

text \<open>Writing past the end of the queue is undefined.\<close>

fun fill_queue :: "nat \<Rightarrow> 64 word \<Rightarrow> ('l, 'q, 'h, 'm) app_t \<Rightarrow> ('l, 'q, 'h, 'm) app_t option" where
  "fill_queue 0 i app = Some app"
| "fill_queue (Suc n) i app =
     (if ap_queue_len app \<ge> length (ap_queue app) then None
      else fill_queue n (i + 1)
             (app\<lparr>ap_queue := (ap_queue app)[ap_queue_len app := \<lparr>rq_id = i, rq_cancelled = (i = 2)\<rparr>],
                  ap_queue_len := ap_queue_len app + 1\<rparr>))"

fun check_queue :: "('l, 'q, 'h, 'm) spike_env \<Rightarrow> nat \<Rightarrow> nat \<Rightarrow> ('l, 'q, 'h, 'm) app_t \<Rightarrow> ('l, 'q, 'h, 'm) app_t" where
  "check_queue env 0 i app = app\<lparr>ap_request_match := True\<rparr>"
| "check_queue env (Suc n) i app =
     (if rq_cancelled (ap_queue app ! i) then check_queue env n (i + 1) (app\<lparr>ap_cancellation := True\<rparr>)
      else if rq_id (ap_queue app ! i) \<noteq> of_nat i + 1 then spike_fail env app
      else check_queue env n (i + 1) app)"

definition exercise_queue :: "('l, 'q, 'h, 'm) spike_env \<Rightarrow> ('l, 'q, 'h, 'm) app_t \<Rightarrow> ('l, 'q, 'h, 'm) app_t option" where
  "exercise_queue env app =
     Option.bind (fill_queue QUEUE_CAPACITY 1 app) (\<lambda>app.
       let app = (if ap_queue_len app = QUEUE_CAPACITY then app\<lparr>ap_backpressure := True\<rparr> else app)
       in Some (check_queue env (ap_queue_len app) 0 app))"

subsection \<open>PostgreSQL\<close>

text \<open>A sequence of calls, each of which must return 1 for the next one to be made.\<close>

fun pq_all :: "('q \<Rightarrow> int \<times> 'q) list \<Rightarrow> 'q \<Rightarrow> bool \<times> 'q" where
  "pq_all [] q = (True, q)"
| "pq_all (f # fs) q = (case f q of (r, q) \<Rightarrow> if r \<noteq> 1 then (False, q) else pq_all fs q)"

definition pg_send_initial :: "('l, 'q, 'h, 'm) spike_env \<Rightarrow> 'q \<Rightarrow> ('l, 'q, 'h, 'm) app_t \<Rightarrow> ('l, 'q, 'h, 'm) app_t" where
  "pg_send_initial env q app =
     (let lib = se_pq env
      in case pq_all [PQenterPipelineMode lib,
                      \<lambda>q. PQsendQueryParams lib q ''SELECT 1'' [],
                      PQsendFlushRequest lib,
                      \<lambda>q. PQsendQueryParams lib q ''SELECT alpha_intentional_failure'' [],
                      \<lambda>q. PQsendQueryParams lib q ''SELECT 2'' [],
                      PQpipelineSync lib] q of
           (ok, q) \<Rightarrow>
             let app = app\<lparr>ap_pg := Some q\<rparr>
             in if \<not> ok then spike_fail env app else cancel_service env (app\<lparr>ap_pg_state := 2\<rparr>))"

definition pg_no_result :: "('l, 'q, 'h, 'm) spike_env \<Rightarrow> 'q \<Rightarrow> ('l, 'q, 'h, 'm) app_t \<Rightarrow> ('l, 'q, 'h, 'm) app_t" where
  "pg_no_result env q app =
     (if ap_pg_state app = 2 \<and> ap_pg_sync_seen app then
        (case pq_all [\<lambda>q. PQsendQueryParams (se_pq env) q ''SELECT 42'' [], PQpipelineSync (se_pq env)] q of
           (ok, q) \<Rightarrow>
             let app = app\<lparr>ap_pg := Some q\<rparr>
             in if \<not> ok then spike_fail env app else cancel_service env (app\<lparr>ap_pg_state := 3\<rparr>))
      else app\<lparr>ap_pg := Some q\<rparr>)"

definition pg_result_seen :: "pg_result \<Rightarrow> ('l, 'q, 'h, 'm) app_t \<Rightarrow> ('l, 'q, 'h, 'm) app_t" where
  "pg_result_seen res app =
     (let status = PQresultStatus res
      in if status = PGRES_TUPLES_OK then
           (if ap_pg_state app = 2 then app\<lparr>ap_pg_roundtrip := True\<rparr>
            else if ap_pg_state app = 3 \<and> PQntuples res = 1 \<and> c_str (PQgetvalue res 0 0) = ''42'' then app\<lparr>ap_pg_recovered := True\<rparr>
            else app)
         else if status = PGRES_FATAL_ERROR \<or> status = PGRES_PIPELINE_ABORTED then app\<lparr>ap_pg_abort_seen := True\<rparr>
         else if status = PGRES_PIPELINE_SYNC then app\<lparr>ap_pg_sync_seen := True\<rparr>
         else app)"

partial_function (option) pg_results ::
    "('l, 'q, 'h, 'm) spike_env \<Rightarrow> 'q \<Rightarrow> ('l, 'q, 'h, 'm) app_t \<Rightarrow> ('l, 'q, 'h, 'm) app_t option" where
  "pg_results env q app =
     (case PQisBusy (se_pq env) q of (busy, q) \<Rightarrow>
        if busy then Some (app\<lparr>ap_pg := Some q\<rparr>)
        else case PQgetResult (se_pq env) q of (res, q) \<Rightarrow>
          (case res of None \<Rightarrow> Some (pg_no_result env q app) | Some res \<Rightarrow> pg_results env q (pg_result_seen res app)))"

definition pg_drain :: "('l, 'q, 'h, 'm) spike_env \<Rightarrow> 'q \<Rightarrow> ('l, 'q, 'h, 'm) app_t \<Rightarrow> ('l, 'q, 'h, 'm) app_t option" where
  "pg_drain env q app =
     (case PQconsumeInput (se_pq env) q of (r, q) \<Rightarrow>
        if r \<noteq> 1 then Some (spike_fail env (app\<lparr>ap_pg := Some q\<rparr>)) else pg_results env q app)"

definition pg_ready :: "('l, 'q, 'h, 'm) spike_env \<Rightarrow> bool \<Rightarrow> ('l, 'q, 'h, 'm) app_t \<Rightarrow> ('l, 'q, 'h, 'm) app_t option" where
  "pg_ready env writable app =
     (case ap_pg app of None \<Rightarrow> None
      | Some q \<Rightarrow>
        if ap_pg_state app = 0 then
          (case PQconnectPoll (se_pq env) q of (status, q) \<Rightarrow>
             let app = app\<lparr>ap_pg := Some q\<rparr>
             in Some (if status = PGRES_POLLING_FAILED then spike_fail env app
                      else if status = PGRES_POLLING_OK then pg_send_initial env q app
                      else if status = PGRES_POLLING_WRITING then cancel_service env app
                      else app))
        else if writable then
          (case PQflush (se_pq env) q of (r, q) \<Rightarrow> pg_drain env q (if r = 1 then cancel_service env app else app))
        else pg_drain env q app)"

subsection \<open>Redis\<close>

definition redis_add_write :: "('l, 'q, 'h, 'm) spike_env \<Rightarrow> ('l, 'q, 'h, 'm) app_t \<Rightarrow> ('l, 'q, 'h, 'm) app_t" where
  "redis_add_write env app = cancel_service env app"

text \<open>The other hooks do nothing.\<close>

fun redis_hook_call :: "('l, 'q, 'h, 'm) spike_env \<Rightarrow> redis_hook \<Rightarrow> ('l, 'q, 'h, 'm) app_t \<Rightarrow> ('l, 'q, 'h, 'm) app_t" where
  "redis_hook_call env Hook_Add_Write app = redis_add_write env app"
| "redis_hook_call env h app = app"

definition redis_hooks :: "('l, 'q, 'h, 'm) spike_env \<Rightarrow> redis_hook list \<Rightarrow> ('l, 'q, 'h, 'm) app_t \<Rightarrow> ('l, 'q, 'h, 'm) app_t" where
  "redis_hooks env hs app = fold (redis_hook_call env) hs app"

definition redis_send ::
    "('l, 'q, 'h, 'm) spike_env \<Rightarrow> bool \<Rightarrow> string \<Rightarrow> ('l, 'q, 'h, 'm) app_t \<Rightarrow> (bool \<times> ('l, 'q, 'h, 'm) app_t) option" where
  "redis_send env callback command app =
     (case ap_redis app of None \<Rightarrow> None
      | Some c \<Rightarrow>
          if \<not> sr_alive (se_hiredis env) (ap_hiredis app) c then None
          else case sr_command (se_hiredis env) (ap_hiredis app) c callback command of
            (ok, hs, h) \<Rightarrow> Some (ok, redis_hooks env hs (app\<lparr>ap_hiredis := h\<rparr>)))"

definition redis_command_callback ::
    "('l, 'q, 'h, 'm) spike_env \<Rightarrow> nat \<Rightarrow> redis_reply option \<Rightarrow> ('l, 'q, 'h, 'm) app_t \<Rightarrow> ('l, 'q, 'h, 'm) app_t" where
  "redis_command_callback env c reply app =
     (if reply = None \<or> sr_err (se_hiredis env) (ap_hiredis app) c \<noteq> 0 then spike_fail env app
      else case reply of
        Some (REDIS_REPLY_STRING s) \<Rightarrow>
          if ap_redis_generation app = 1 \<and> c_str s = ''alpha'' then
            (case sr_disconnect (se_hiredis env) (ap_hiredis app) c of
               (hs, h) \<Rightarrow> redis_hooks env hs (app\<lparr>ap_redis_roundtrip := True, ap_hiredis := h\<rparr>))
          else app
      | Some (REDIS_REPLY_STATUS s) \<Rightarrow>
          if ap_redis_generation app = 2 \<and> c_str s = ''PONG'' then app\<lparr>ap_redis_recovered := True\<rparr> else app
      | _ \<Rightarrow> app)"

definition redis_connect_callback ::
    "('l, 'q, 'h, 'm) spike_env \<Rightarrow> bool \<Rightarrow> ('l, 'q, 'h, 'm) app_t \<Rightarrow> ('l, 'q, 'h, 'm) app_t option" where
  "redis_connect_callback env ok app =
     (if \<not> ok then Some (spike_fail env app)
      else if ap_redis_generation app = 1 then
        Option.bind (redis_send env False ''SET alpha:lws alpha'' app) (\<lambda>(sent, app).
          if \<not> sent then Some (spike_fail env app)
          else Option.bind (redis_send env True ''GET alpha:lws'' app) (\<lambda>(sent, app). Some (if \<not> sent then spike_fail env app else app)))
      else Option.bind (redis_send env True ''PING'' app) (\<lambda>(sent, app). Some (if \<not> sent then spike_fail env app else app)))"

definition redis_port :: "('l, 'q, 'h, 'm) spike_env \<Rightarrow> int" where
  "redis_port env = (case se_getenv env ''ALPHA_REDIS_PORT'' of None \<Rightarrow> 56379 | Some t \<Rightarrow> fst (strtoll t))"

definition start_redis :: "('l, 'q, 'h, 'm) spike_env \<Rightarrow> ('l, 'q, 'h, 'm) app_t \<Rightarrow> bool \<times> ('l, 'q, 'h, 'm) app_t" where
  "start_redis env app =
     (let port = redis_port env; lib = se_hiredis env
      in if port \<le> 0 \<or> port > 65535 then (False, app)
         else case sr_connect lib (ap_hiredis app) ''127.0.0.1'' port of
           (None, h) \<Rightarrow> (False, app\<lparr>ap_hiredis := h\<rparr>)
         | (Some c, h) \<Rightarrow>
             if sr_err lib h c \<noteq> 0 then (False, app\<lparr>ap_hiredis := h\<rparr>)
             else
               let watch = \<lparr>wf_owner = OWNER_REDIS, wf_wsi = None, wf_fd = 0, wf_curl_action = 0\<rparr>;
                   app = app\<lparr>ap_redis := Some c, ap_redis_watch := register_socket (sr_fd lib h c) watch\<rparr>
               in case sr_set_connect_callback lib h c of (ok, hs, h) \<Rightarrow>
                    let app = redis_hooks env hs (app\<lparr>ap_hiredis := h\<rparr>)
                    in if \<not> ok then (False, app)
                       else case sr_set_disconnect_callback lib (ap_hiredis app) c of (ok, hs, h) \<Rightarrow>
                         let app = redis_hooks env hs (app\<lparr>ap_hiredis := h\<rparr>)
                         in if \<not> ok then (False, app) else (True, cancel_service env app))"

definition redis_disconnect_callback :: "('l, 'q, 'h, 'm) spike_env \<Rightarrow> ('l, 'q, 'h, 'm) app_t \<Rightarrow> ('l, 'q, 'h, 'm) app_t" where
  "redis_disconnect_callback env app =
     (if ap_redis_generation app = 1 \<and> ap_redis_roundtrip app then
        (case start_redis env (app\<lparr>ap_redis_disconnect := True, ap_redis := None,
                                   ap_redis_watch := (ap_redis_watch app)\<lparr>wf_wsi := None\<rparr>, ap_redis_generation := 2\<rparr>) of
           (ok, app) \<Rightarrow> if \<not> ok then spike_fail env app else app)
      else app)"

fun redis_serve :: "('l, 'q, 'h, 'm) spike_env \<Rightarrow> spike_redis_call \<Rightarrow> ('l, 'q, 'h, 'm) app_t \<Rightarrow> (int \<times> ('l, 'q, 'h, 'm) app_t) option" where
  "redis_serve env (Redis_Hook h) app = Some (0, redis_hook_call env h app)"
| "redis_serve env (Redis_Connected ok) app = map_option (Pair 0) (redis_connect_callback env ok app)"
| "redis_serve env Redis_Disconnected app = Some (0, redis_disconnect_callback env app)"
| "redis_serve env (Redis_Command_Reply c reply) app = Some (0, redis_command_callback env c reply app)"

text \<open>A call that handles the readiness of the context; nothing happens without one.\<close>

definition redis_handle ::
    "('l, 'q, 'h, 'm) spike_env \<Rightarrow> ('h \<Rightarrow> nat \<Rightarrow> ('h, spike_redis_call, unit) lib_run) \<Rightarrow> ('l, 'q, 'h, 'm) app_t \<Rightarrow>
     ('l, 'q, 'h, 'm) app_t option" where
  "redis_handle env handle app =
     (case ap_redis app of None \<Rightarrow> Some app
      | Some c \<Rightarrow>
          if \<not> sr_alive (se_hiredis env) (ap_hiredis app) c then None
          else map_option snd (run_library ap_hiredis (\<lambda>h. ap_hiredis_update (\<lambda>_. h)) (redis_serve env) (handle (ap_hiredis app) c) app))"

subsection \<open>HTTP\<close>

definition on_curl_socket ::
    "('l, 'q, 'h, 'm) spike_env \<Rightarrow> int \<Rightarrow> 32 word \<Rightarrow> nat option \<Rightarrow> ('l, 'q, 'h, 'm) app_t \<Rightarrow> (int \<times> ('l, 'q, 'h, 'm) app_t) option" where
  "on_curl_socket env fd what watch app =
     (let assign = (\<lambda>w app. app\<lparr>ap_curl_multi := sc_assign (se_curl env) (ap_curl_multi app) fd w\<rparr>);
          act = (\<lambda>i app. app\<lparr>ap_curl_watches := (ap_curl_watches app)[i := (ap_curl_watches app ! i)\<lparr>wf_curl_action := what\<rparr>]\<rparr>);
          wake = (\<lambda>app. if what AND SPIKE_POLL_OUT \<noteq> 0 then cancel_service env app else app)
      in case watch of
           Some i \<Rightarrow>
             if i \<ge> length (ap_curl_watches app) then None
             else if what = SPIKE_POLL_REMOVE then
               Some (0, assign None (app\<lparr>ap_curl_watches := (ap_curl_watches app)[i := (ap_curl_watches app ! i)\<lparr>wf_curl_action := 0\<rparr>]\<rparr>))
             else Some (0, wake (act i app))
         | None \<Rightarrow>
             if what = SPIKE_POLL_REMOVE then Some (0, app)
             else if ap_curl_watch_count app \<ge> length (ap_curl_watches app) then Some (- 1, app)
             else
               let i = ap_curl_watch_count app;
                   new = register_socket fd \<lparr>wf_owner = OWNER_CURL, wf_wsi = None, wf_fd = 0, wf_curl_action = 0\<rparr>;
                   app = app\<lparr>ap_curl_watches := (ap_curl_watches app)[i := new], ap_curl_watch_count := i + 1\<rparr>
               in Some (0, wake (act i (assign (Some i) app))))"

definition curl_timer_callback :: "('l, 'q, 'h, 'm) spike_env \<Rightarrow> int \<Rightarrow> ('l, 'q, 'h, 'm) app_t \<Rightarrow> int \<times> ('l, 'q, 'h, 'm) app_t" where
  "curl_timer_callback env timeout_ms app = (0, if timeout_ms = 0 then cancel_service env app else app)"

definition curl_discard :: "64 word \<Rightarrow> 64 word \<Rightarrow> 64 word" where
  "curl_discard size_n count_n = size_n * count_n"

fun curl_serve :: "('l, 'q, 'h, 'm) spike_env \<Rightarrow> spike_curl_call \<Rightarrow> ('l, 'q, 'h, 'm) app_t \<Rightarrow> (int \<times> ('l, 'q, 'h, 'm) app_t) option" where
  "curl_serve env (Curl_Socket fd what watch) app = on_curl_socket env fd what watch app"
| "curl_serve env (Curl_Timer ms) app = Some (curl_timer_callback env ms app)"
| "curl_serve env (Curl_Write size_n count_n) app = Some (uint (curl_discard size_n count_n), app)"

definition run_curl ::
    "('l, 'q, 'h, 'm) spike_env \<Rightarrow> ('m, spike_curl_call, bool) lib_run \<Rightarrow> ('l, 'q, 'h, 'm) app_t \<Rightarrow> (bool \<times> ('l, 'q, 'h, 'm) app_t) option" where
  "run_curl env run app = run_library ap_curl_multi (\<lambda>m. ap_curl_multi_update (\<lambda>_. m)) (curl_serve env) run app"

fun curl_message :: "('l, 'q, 'h, 'm) spike_env \<Rightarrow> spike_curl_msg \<Rightarrow> ('l, 'q, 'h, 'm) app_t \<Rightarrow> ('l, 'q, 'h, 'm) app_t" where
  "curl_message env (Msg_Done ok status) app =
     (let app = app\<lparr>ap_curl_status := status, ap_curl_roundtrip := (ok \<and> status = 200)\<rparr>
      in if \<not> ap_curl_roundtrip app then spike_fail env app else app)"
| "curl_message env Msg_Other app = app"

partial_function (option) curl_messages ::
    "('l, 'q, 'h, 'm) spike_env \<Rightarrow> ('l, 'q, 'h, 'm) app_t \<Rightarrow> ('l, 'q, 'h, 'm) app_t option" where
  "curl_messages env app =
     (case sc_info_read (se_curl env) (ap_curl_multi app) of
        (None, m) \<Rightarrow> Some (app\<lparr>ap_curl_multi := m\<rparr>)
      | (Some msg, m) \<Rightarrow> curl_messages env (curl_message env msg (app\<lparr>ap_curl_multi := m\<rparr>)))"

text \<open>\<open>fd\<close> is the descriptor of the watch, or \<^verbatim>\<open>CURL_SOCKET_TIMEOUT\<close>.\<close>

definition CURL_SOCKET_TIMEOUT :: int where "CURL_SOCKET_TIMEOUT = - 1"

definition curl_action :: "('l, 'q, 'h, 'm) spike_env \<Rightarrow> int \<Rightarrow> 32 word \<Rightarrow> ('l, 'q, 'h, 'm) app_t \<Rightarrow> ('l, 'q, 'h, 'm) app_t option" where
  "curl_action env fd action app =
     Option.bind (run_curl env (sc_socket_action (se_curl env) (ap_curl_multi app) fd action) app)
       (\<lambda>(ok, app). if \<not> ok then Some (spike_fail env app) else curl_messages env app)"

subsection \<open>The loop\<close>

definition spike_complete :: "('l, 'q, 'h, 'm) app_t \<Rightarrow> bool" where
  "spike_complete app \<longleftrightarrow> ap_pg_roundtrip app \<and> ap_pg_abort_seen app \<and> ap_pg_sync_seen app \<and> ap_pg_recovered app \<and>
     ap_redis_roundtrip app \<and> ap_redis_disconnect app \<and> ap_redis_recovered app \<and>
     ap_curl_roundtrip app \<and> ap_backpressure app \<and> ap_cancellation app \<and> ap_request_match app"

definition poll_events :: "32 word \<Rightarrow> 16 word" where
  "poll_events action =
     (let events = (if action AND SPIKE_POLL_IN \<noteq> 0 then 0 OR POLLIN else 0)
      in if action AND SPIKE_POLL_OUT \<noteq> 0 then events OR POLLOUT else events)"

text \<open>The watches of the transfers that are polled, from \<open>i\<close> on, while the array of 18 has room.\<close>

fun curl_fds :: "watched_fd_t list \<Rightarrow> nat \<Rightarrow> nat \<Rightarrow> nat \<Rightarrow> (watch_ref \<times> int \<times> 16 word) list" where
  "curl_fds ws 0 i cnt = []"
| "curl_fds ws (Suc n) i cnt =
     (if cnt \<ge> 18 then []
      else if wf_curl_action (ws ! i) = 0 then curl_fds ws n (i + 1) cnt
      else (Curl_Watch_Ref i, wf_fd (ws ! i), poll_events (wf_curl_action (ws ! i))) # curl_fds ws n (i + 1) (cnt + 1))"

definition poll_set :: "('l, 'q, 'h, 'm) spike_env \<Rightarrow> ('l, 'q, 'h, 'm) app_t \<Rightarrow> (watch_ref \<times> int \<times> 16 word) list option" where
  "poll_set env app =
     (case ap_pg app of None \<Rightarrow> None
      | Some q \<Rightarrow>
          let pg = [(Pg_Watch_Ref, PQsocket (se_pq env) q, POLLIN OR POLLOUT)]
          in case ap_redis app of
               None \<Rightarrow> Some (pg @ curl_fds (ap_curl_watches app) (ap_curl_watch_count app) 0 1)
             | Some c \<Rightarrow>
                 if \<not> sr_alive (se_hiredis env) (ap_hiredis app) c then None
                 else Some (pg @ (Redis_Watch_Ref, sr_fd (se_hiredis env) (ap_hiredis app) c, POLLIN OR POLLOUT)
                              # curl_fds (ap_curl_watches app) (ap_curl_watch_count app) 0 2))"

fun watch_of :: "('l, 'q, 'h, 'm) app_t \<Rightarrow> watch_ref \<Rightarrow> watched_fd_t" where
  "watch_of app Pg_Watch_Ref = ap_pg_watch app"
| "watch_of app Redis_Watch_Ref = ap_redis_watch app"
| "watch_of app (Curl_Watch_Ref i) = ap_curl_watches app ! i"

definition tick_fd ::
    "('l, 'q, 'h, 'm) spike_env \<Rightarrow> watch_ref \<Rightarrow> 16 word \<Rightarrow> ('l, 'q, 'h, 'm) app_t \<Rightarrow> ('l, 'q, 'h, 'm) app_t option" where
  "tick_fd env ref revents app =
     (if revents = 0 then Some app
      else
        let watch = watch_of app ref;
            readable = (revents AND (POLLIN OR POLLERR OR POLLHUP) \<noteq> 0);
            writable = (revents AND POLLOUT \<noteq> 0)
        in case wf_owner watch of
             OWNER_PG \<Rightarrow> pg_ready env writable app
           | OWNER_REDIS \<Rightarrow>
               if ap_redis app = None then Some app
               else Option.bind (if readable then redis_handle env (sr_handle_read (se_hiredis env)) app else Some app)
                      (\<lambda>app. if writable then redis_handle env (sr_handle_write (se_hiredis env)) app else Some app)
           | OWNER_CURL \<Rightarrow>
               curl_action env (wf_fd watch) ((if readable then 1 else 0) OR (if writable then 2 else 0)) app)"

fun tick_fds ::
    "('l, 'q, 'h, 'm) spike_env \<Rightarrow> (watch_ref \<times> 16 word) list \<Rightarrow> ('l, 'q, 'h, 'm) app_t \<Rightarrow> ('l, 'q, 'h, 'm) app_t option" where
  "tick_fds env [] app = Some app"
| "tick_fds env ((ref, revents) # rest) app = Option.bind (tick_fd env ref revents app) (tick_fds env rest)"

definition service_tick :: "('l, 'q, 'h, 'm) spike_env \<Rightarrow> ('l, 'q, 'h, 'm) app_t \<Rightarrow> ('l, 'q, 'h, 'm) app_t option" where
  "service_tick env app =
     Option.bind (poll_set env app) (\<lambda>fds.
       case se_poll env (ap_polls app) (map snd fds) of (poll_ready, revents) \<Rightarrow>
         let app = app\<lparr>ap_polls := ap_polls app + 1\<rparr>
         in if poll_ready < 0 then Some (spike_fail env app)
            else Option.bind (tick_fds env (zip (map fst fds) (map revents [0..<length fds])) app) (\<lambda>app.
                 Option.bind (curl_action env CURL_SOCKET_TIMEOUT 0 app) (\<lambda>app.
                   Some (if spike_complete app then cancel_service env app
                         else if \<not> ap_failed app then app\<lparr>ap_context := sl_sul_schedule (se_lws env) (ap_context app)\<rparr>
                         else app))))"

definition raw_callback ::
    "('l, 'q, 'h, 'm) spike_env \<Rightarrow> watch_ref option \<Rightarrow> spike_reason \<Rightarrow> ('l, 'q, 'h, 'm) app_t \<Rightarrow> (int \<times> ('l, 'q, 'h, 'm) app_t) option" where
  "raw_callback env opaque reason app =
     (case opaque of None \<Rightarrow> Some (0, app)
      | Some ref \<Rightarrow>
          let watch = watch_of app ref; act = wf_curl_action watch
          in map_option (\<lambda>app. (if ap_failed app then - 1 else 0, app))
               (case (reason, wf_owner watch) of
                  (RAW_RX, OWNER_PG) \<Rightarrow> pg_ready env False app
                | (RAW_RX, OWNER_REDIS) \<Rightarrow> redis_handle env (sr_handle_read (se_hiredis env)) app
                | (RAW_RX, OWNER_CURL) \<Rightarrow> if act AND SPIKE_POLL_IN \<noteq> 0 then curl_action env (wf_fd watch) 1 app else Some app
                | (RAW_WRITEABLE, OWNER_PG) \<Rightarrow> pg_ready env True app
                | (RAW_WRITEABLE, OWNER_REDIS) \<Rightarrow> redis_handle env (sr_handle_write (se_hiredis env)) app
                | (RAW_WRITEABLE, OWNER_CURL) \<Rightarrow> if act AND SPIKE_POLL_OUT \<noteq> 0 then curl_action env (wf_fd watch) 2 app else Some app
                | (RAW_TIMER, OWNER_REDIS) \<Rightarrow> redis_handle env (sr_handle_timeout (se_hiredis env)) app
                | _ \<Rightarrow> Some app))"

fun lws_serve :: "('l, 'q, 'h, 'm) spike_env \<Rightarrow> spike_lws_call \<Rightarrow> ('l, 'q, 'h, 'm) app_t \<Rightarrow> (int \<times> ('l, 'q, 'h, 'm) app_t) option" where
  "lws_serve env Tick_Call app = map_option (Pair 0) (service_tick env app)"
| "lws_serve env (Raw_Call opaque reason) app = raw_callback env opaque reason app"

subsection \<open>Setup and main\<close>

text \<open>What the initialisers of the libraries return.\<close>

record ('l, 'h, 'm) spike_world =
  sw_curl_global_init :: bool
  sw_create_context :: "'l option"
  sw_create_vhost :: bool
  sw_hiredis :: 'h
  sw_multi :: 'm
  sw_curl_init :: bool

definition watch_zero :: watched_fd_t where
  "watch_zero = \<lparr>wf_owner = OWNER_PG, wf_wsi = None, wf_fd = 0, wf_curl_action = 0\<rparr>"

definition app_zero :: "('l, 'h, 'm) spike_world \<Rightarrow> 'l \<Rightarrow> int \<Rightarrow> ('l, 'q, 'h, 'm) app_t" where
  "app_zero world l started =
     \<lparr>ap_context = l, ap_pg = None, ap_pg_watch = watch_zero, ap_pg_state = 0, ap_pg_roundtrip = False, ap_pg_abort_seen = False,
      ap_pg_sync_seen = False, ap_pg_recovered = False, ap_hiredis = sw_hiredis world, ap_redis = None, ap_redis_watch = watch_zero,
      ap_redis_generation = 0, ap_redis_roundtrip = False, ap_redis_disconnect = False, ap_redis_recovered = False,
      ap_curl_multi = sw_multi world, ap_curl_watches = replicate 16 watch_zero, ap_curl_watch_count = 0, ap_curl_roundtrip = False,
      ap_curl_status = 0, ap_queue = replicate QUEUE_CAPACITY \<lparr>rq_id = 0, rq_cancelled = False\<rparr>, ap_queue_len = 0, ap_backpressure = False,
      ap_cancellation = False, ap_request_match = False, ap_clean_shutdown = False, ap_failed = False, ap_started = started,
      ap_polls = 0, ap_times = 1\<rparr>"

definition setup_pg :: "('l, 'q, 'h, 'm) spike_env \<Rightarrow> ('l, 'q, 'h, 'm) app_t \<Rightarrow> ('l, 'q, 'h, 'm) app_t option" where
  "setup_pg env app =
     (let port = (case se_getenv env ''ALPHA_POSTGRES_PORT'' of None \<Rightarrow> ''55432'' | Some t \<Rightarrow> t)
      in case PQconnectStartParams (se_pq env)
                [(''host'', ''127.0.0.1''), (''port'', port), (''dbname'', ''alpha_test''), (''user'', ''alpha_test''),
                 (''password'', ''alpha_test_only''), (''connect_timeout'', ''5'')] of
           None \<Rightarrow> None
         | Some q \<Rightarrow>
             (case PQsetnonblocking (se_pq env) q of (r, q) \<Rightarrow>
                if r \<noteq> 0 then None
                else Some (app\<lparr>ap_pg := Some q,
                               ap_pg_watch := register_socket (PQsocket (se_pq env) q) watch_zero\<rparr>)))"

definition setup_curl :: "('l, 'q, 'h, 'm) spike_env \<Rightarrow> ('l, 'q, 'h, 'm) app_t \<Rightarrow> (bool \<times> ('l, 'q, 'h, 'm) app_t) option" where
  "setup_curl env app =
     (let url = (case se_getenv env ''ALPHA_HTTP_URL'' of None \<Rightarrow> ''http://127.0.0.1:58080/'' | Some t \<Rightarrow> t)
      in Option.bind (run_curl env (sc_add_handle (se_curl env) (ap_curl_multi app) url) app) (\<lambda>(ok, app).
           if \<not> ok then Some (False, app)
           else Option.bind (curl_action env CURL_SOCKET_TIMEOUT 0 app) (\<lambda>app.
             let app = app\<lparr>ap_context := sl_sul_schedule (se_lws env) (ap_context app)\<rparr>
             in Some (\<not> ap_failed app, app))))"

text \<open>\<open>Some None\<close> is a setup that fails.\<close>

definition spike_setup ::
    "('l, 'h, 'm) spike_world \<Rightarrow> ('l, 'q, 'h, 'm) spike_env \<Rightarrow> ('l, 'q, 'h, 'm) app_t option option" where
  "spike_setup world env =
     (case sw_create_context world of None \<Rightarrow> Some None
      | Some l \<Rightarrow>
        if \<not> sw_create_vhost world then Some None
        else Option.bind (exercise_queue env (app_zero world l (se_time env 0))) (\<lambda>app.
          case setup_pg env app of None \<Rightarrow> Some None
          | Some app \<Rightarrow>
              (case start_redis env (app\<lparr>ap_redis_generation := 1\<rparr>) of (ok, app) \<Rightarrow>
                 if \<not> ok then Some None
                 else if \<not> sw_curl_init world then Some None
                 else map_option (\<lambda>(ok, app). if ok then Some app else None) (setup_curl env app))))"

definition spike_service :: "('l, 'q, 'h, 'm) spike_env \<Rightarrow> ('l, 'q, 'h, 'm) app_t \<Rightarrow> ('l, 'q, 'h, 'm) app_t option" where
  "spike_service env app =
     map_option (\<lambda>(r, app). if r < 0 then app\<lparr>ap_failed := True\<rparr> else app)
       (run_library ap_context (\<lambda>l. ap_context_update (\<lambda>_. l)) (lws_serve env) (sl_service (se_lws env) (ap_context app)) app)"

partial_function (option) spike_loop ::
    "('l, 'q, 'h, 'm) spike_env \<Rightarrow> ('l, 'q, 'h, 'm) app_t \<Rightarrow> ('l, 'q, 'h, 'm) app_t option" where
  "spike_loop env app =
     (if ap_failed app \<or> spike_complete app then Some app
      else
        let now = se_time env (ap_times app); app = app\<lparr>ap_times := ap_times app + 1\<rparr>
        in if now - ap_started app < RUN_TIMEOUT_SECONDS then Option.bind (spike_service env app) (spike_loop env) else Some app)"

definition json_bool :: "bool \<Rightarrow> string" where
  "json_bool b = (if b then ''true'' else ''false'')"

definition print_result :: "('l, 'q, 'h, 'm) app_t \<Rightarrow> string" where
  "print_result app =
     ''{\"schema_version\":1,\"loop_owner\":\"libwebsockets\",\"service_threads\":1,\"worker_threads\":0,\"queue_capacity\":''
     @ fmt_int (int QUEUE_CAPACITY)
     @ '',\"backpressure\":'' @ json_bool (ap_backpressure app) @ '',\"cancellation\":'' @ json_bool (ap_cancellation app)
     @ '',\"request_result_match\":'' @ json_bool (ap_request_match app)
     @ '',\"postgres\":{\"roundtrip\":'' @ json_bool (ap_pg_roundtrip app) @ '',\"pipeline_abort\":'' @ json_bool (ap_pg_abort_seen app)
     @ '',\"pipeline_sync\":'' @ json_bool (ap_pg_sync_seen app) @ '',\"recovered\":'' @ json_bool (ap_pg_recovered app)
     @ ''},\"redis\":{\"roundtrip\":'' @ json_bool (ap_redis_roundtrip app) @ '',\"disconnect\":'' @ json_bool (ap_redis_disconnect app)
     @ '',\"recovered\":'' @ json_bool (ap_redis_recovered app)
     @ ''},\"curl_multi\":{\"roundtrip\":'' @ json_bool (ap_curl_roundtrip app) @ '',\"status\":'' @ fmt_int (ap_curl_status app)
     @ ''},\"alternate_event_loop\":false,\"clean_shutdown\":'' @ json_bool (ap_clean_shutdown app) @ ''}'' @ [CHR 0x0A]"

definition spike_finish :: "('l, 'q, 'h, 'm) app_t \<Rightarrow> ('l, 'q, 'h, 'm) app_t" where
  "spike_finish app =
     (let app = (if \<not> spike_complete app then app\<lparr>ap_failed := True\<rparr> else app)
      in app\<lparr>ap_clean_shutdown := (\<not> ap_failed app)\<rparr>)"

text \<open>The exit code and the standard output.\<close>

definition spike_main :: "('l, 'h, 'm) spike_world \<Rightarrow> ('l, 'q, 'h, 'm) spike_env \<Rightarrow> (int \<times> string) option" where
  "spike_main world env =
     (if \<not> sw_curl_global_init world then Some (1, [])
      else Option.bind (spike_setup world env) (\<lambda>started.
        case started of None \<Rightarrow> Some (1, [])
        | Some app \<Rightarrow> Option.bind (spike_loop env app) (\<lambda>app.
            let app = spike_finish app in Some (if ap_failed app then 1 else 0, print_result app))))"

section \<open>The phases of a run\<close>

text \<open>What is true between any two callbacks, whatever the libraries do: the exchange with each service goes through its phases in
  their order, and the table of watches is within its bounds.\<close>

definition pg_phase :: "int \<Rightarrow> bool \<Rightarrow> bool \<Rightarrow> bool \<Rightarrow> bool" where
  "pg_phase state roundtrip sync_seen recovered \<longleftrightarrow>
     state \<in> {0, 2, 3} \<and> (roundtrip \<longrightarrow> state \<noteq> 0) \<and> (state = 3 \<longrightarrow> sync_seen) \<and> (recovered \<longrightarrow> state = 3)"

definition redis_phase :: "int \<Rightarrow> bool \<Rightarrow> bool \<Rightarrow> bool \<Rightarrow> bool" where
  "redis_phase generation roundtrip disconnect recovered \<longleftrightarrow>
     generation \<in> {0, 1, 2} \<and> (disconnect \<longleftrightarrow> generation = 2) \<and> (disconnect \<longrightarrow> roundtrip) \<and> (recovered \<longrightarrow> disconnect)"

definition phases :: "('l, 'q, 'h, 'm) app_t \<Rightarrow> bool" where
  "phases app \<longleftrightarrow>
     pg_phase (ap_pg_state app) (ap_pg_roundtrip app) (ap_pg_sync_seen app) (ap_pg_recovered app)
     \<and> redis_phase (ap_redis_generation app) (ap_redis_roundtrip app) (ap_redis_disconnect app) (ap_redis_recovered app)
     \<and> (ap_curl_roundtrip app \<longrightarrow> ap_curl_status app = 200)
     \<and> length (ap_curl_watches app) = 16 \<and> ap_curl_watch_count app \<le> 16"

lemma phases_state [simp]:
  "phases (app\<lparr>ap_context := l\<rparr>) = phases app" "phases (app\<lparr>ap_pg := q\<rparr>) = phases app" "phases (app\<lparr>ap_hiredis := h\<rparr>) = phases app"
  "phases (app\<lparr>ap_redis := c\<rparr>) = phases app" "phases (app\<lparr>ap_redis_watch := w\<rparr>) = phases app" "phases (app\<lparr>ap_pg_watch := w\<rparr>) = phases app"
  "phases (app\<lparr>ap_curl_multi := m\<rparr>) = phases app" "phases (app\<lparr>ap_failed := b\<rparr>) = phases app" "phases (app\<lparr>ap_polls := n\<rparr>) = phases app"
  "phases (app\<lparr>ap_times := n\<rparr>) = phases app" "phases (app\<lparr>ap_clean_shutdown := b\<rparr>) = phases app"
  "phases (app\<lparr>ap_queue := rs\<rparr>) = phases app" "phases (app\<lparr>ap_queue_len := n\<rparr>) = phases app"
  "phases (app\<lparr>ap_backpressure := b\<rparr>) = phases app" "phases (app\<lparr>ap_cancellation := b\<rparr>) = phases app"
  "phases (app\<lparr>ap_request_match := b\<rparr>) = phases app"
  by (simp_all add: phases_def)

lemma phases_wake [simp]: "phases (cancel_service env app) = phases app" "phases (spike_fail env app) = phases app"
  by (simp_all add: cancel_service_def spike_fail_def)

lemma run_library_inv:
  assumes "run_library get put serve run a = Some (r, b)" "P a"
    and put: "\<And>s a. P a \<Longrightarrow> P (put s a)" and serve: "\<And>c a v b. serve c a = Some (v, b) \<Longrightarrow> P a \<Longrightarrow> P b"
  shows "P b"
  using assms(1,2)
proof (induction run arbitrary: a)
  case (Callback c s next_call)
  then obtain v a' where "serve c (put s a) = Some (v, a')" "run_library get put serve (next_call v (get a')) a' = Some (r, b)"
    by (auto simp: Option.bind_eq_Some_conv)
  then show ?case using Callback.IH serve put Callback.prems(2) by blast
qed (auto simp: put)

lemma phases_hook [simp]: "phases (redis_hook_call env h app) = phases app"
  by (cases h) (simp_all add: redis_add_write_def)

lemma phases_hooks [simp]: "phases (redis_hooks env hs app) = phases app"
  unfolding redis_hooks_def by (induction hs arbitrary: app) simp_all

subsection \<open>PostgreSQL\<close>

lemma phases_pg_send_initial:
  assumes "phases app" "ap_pg_state app = 0"
  shows "phases (pg_send_initial env q app)"
proof -
  have "phases (app\<lparr>ap_pg := p, ap_pg_state := 2\<rparr>)" for p using assms by (auto simp: phases_def pg_phase_def)
  then show ?thesis using assms(1) by (simp add: pg_send_initial_def Let_def case_prod_beta)
qed

lemma phases_pg_no_result:
  assumes "phases app"
  shows "phases (pg_no_result env q app)"
proof -
  have "phases (app\<lparr>ap_pg := p, ap_pg_state := 3\<rparr>)" if "ap_pg_state app = 2" "ap_pg_sync_seen app" for p
    using assms that by (auto simp: phases_def pg_phase_def)
  then show ?thesis using assms by (simp add: pg_no_result_def Let_def case_prod_beta)
qed

lemma phases_pg_result_seen: "phases app \<Longrightarrow> phases (pg_result_seen res app)"
  by (auto simp: pg_result_seen_def Let_def phases_def pg_phase_def)

lemma phases_pg_results:
  fixes app b :: "('l, 'q, 'h, 'm) app_t"
  assumes "pg_results env q app = Some b" "phases app"
  shows "phases b"
proof -
  define P where "P = (\<lambda>(env :: ('l, 'q, 'h, 'm) spike_env) (q :: 'q) (app :: ('l, 'q, 'h, 'm) app_t) (b :: ('l, 'q, 'h, 'm) app_t). phases app \<longrightarrow> phases b)"
  have "P env q app b"
  proof (rule pg_results.raw_induct [OF _ assms(1)])
    fix f env q app y
    assume ih: "\<And>env q app y. f env q app = Some y \<Longrightarrow> P env q app y"
      and y: "(case PQisBusy (se_pq env) q of (busy, q) \<Rightarrow>
        if busy then Some (app\<lparr>ap_pg := Some q\<rparr>)
        else case PQgetResult (se_pq env) q of (res, q) \<Rightarrow>
          (case res of None \<Rightarrow> Some (pg_no_result env q app) | Some res \<Rightarrow> f env q (pg_result_seen res app))) = Some y"
    show "P env q app y"
      using y ih phases_pg_no_result [of app env] phases_pg_result_seen [of app]
      by (auto simp: P_def split: prod.splits if_splits option.splits)
  qed
  then show ?thesis using assms(2) by (simp add: P_def)
qed

lemma phases_pg_drain: "pg_drain env q app = Some b \<Longrightarrow> phases app \<Longrightarrow> phases b"
  by (auto simp: pg_drain_def split: prod.splits if_splits intro: phases_pg_results)

lemma phases_pg_ready:
  assumes "pg_ready env writable app = Some b" "phases app"
  shows "phases b"
proof -
  obtain q where q: "ap_pg app = Some q" using assms(1) by (auto simp: pg_ready_def split: option.splits)
  show ?thesis
  proof (cases "ap_pg_state app = 0")
    case True
    then show ?thesis using assms q phases_pg_send_initial [of "app\<lparr>ap_pg := p\<rparr>" env for p]
      by (auto simp: pg_ready_def Let_def split: prod.splits if_splits)
  next
    case False
    then have "\<exists>q a. pg_drain env q a = Some b \<and> (a = app \<or> a = cancel_service env app)"
      using assms(1) q by (auto simp: pg_ready_def split: prod.splits if_splits)
    then show ?thesis using phases_pg_drain assms(2) by fastforce
  qed
qed

subsection \<open>Redis\<close>

lemma phases_redis_send: "redis_send env cb cmd app = Some (ok, b) \<Longrightarrow> phases b = phases app"
  by (auto simp: redis_send_def split: option.splits if_splits prod.splits)

lemma phases_redis_command: "phases app \<Longrightarrow> phases (redis_command_callback env c reply app)"
proof -
  assume p: "phases app"
  have "ap_redis_generation app = 1 \<Longrightarrow> phases (app\<lparr>ap_redis_roundtrip := True, ap_hiredis := h\<rparr>)" for h
    using p by (auto simp: phases_def redis_phase_def)
  moreover have "ap_redis_generation app = 2 \<Longrightarrow> phases (app\<lparr>ap_redis_recovered := True\<rparr>)" using p by (auto simp: phases_def redis_phase_def)
  ultimately show ?thesis using p by (auto simp: redis_command_callback_def split: option.splits redis_reply.splits prod.splits)
qed

lemma phases_redis_connect: "redis_connect_callback env ok app = Some b \<Longrightarrow> phases app \<Longrightarrow> phases b"
  by (auto simp: redis_connect_callback_def Option.bind_eq_Some_conv split: if_splits dest!: phases_redis_send)

lemma phases_start_redis [simp]: "phases (snd (start_redis env app)) = phases app"
  by (auto simp: start_redis_def Let_def split: prod.splits option.splits)

lemma phases_redis_disconnect: "phases app \<Longrightarrow> phases (redis_disconnect_callback env app)"
proof -
  assume "phases app"
  then have "phases (app\<lparr>ap_redis_disconnect := True, ap_redis := None, ap_redis_watch := w, ap_redis_generation := 2\<rparr>)"
    if "ap_redis_roundtrip app" for w using that by (auto simp: phases_def redis_phase_def)
  then show ?thesis using \<open>phases app\<close> by (auto simp: redis_disconnect_callback_def case_prod_beta)
qed

lemma phases_redis_serve: "redis_serve env call app = Some (v, b) \<Longrightarrow> phases app \<Longrightarrow> phases b"
  by (cases call) (auto simp: phases_redis_disconnect phases_redis_command dest: phases_redis_connect)

lemma phases_redis_handle:
  assumes "redis_handle env handle app = Some b" "phases app"
  shows "phases b"
proof (cases "ap_redis app")
  case None
  then show ?thesis using assms by (simp add: redis_handle_def)
next
  case (Some c)
  then obtain u where "run_library ap_hiredis (\<lambda>h. ap_hiredis_update (\<lambda>_. h)) (redis_serve env) (handle (ap_hiredis app) c) app = Some (u, b)"
    using assms(1) by (auto simp: redis_handle_def split: if_splits)
  then show ?thesis
  proof (rule run_library_inv [where P = phases, OF _ assms(2)])
    show "phases (a\<lparr>ap_hiredis := s\<rparr>)" if "phases a" for s and a :: "('a, 'b, 'c, 'd) app_t" using that by simp
  qed (rule phases_redis_serve)
qed

subsection \<open>HTTP\<close>

lemma phases_watches:
  "length ws = length (ap_curl_watches app) \<Longrightarrow> phases (app\<lparr>ap_curl_watches := ws\<rparr>) = phases app"
  "phases app \<Longrightarrow> n \<le> 16 \<Longrightarrow> phases (app\<lparr>ap_curl_watch_count := n\<rparr>)"
  "phases app \<Longrightarrow> length (ap_curl_watches app) = 16"
  by (auto simp: phases_def)

lemma phases_curl_socket:
  assumes "on_curl_socket env fd what watch app = Some (v, b)" "phases app"
  shows "phases b"
  using assms by (auto simp: on_curl_socket_def Let_def phases_watches split: option.splits if_splits)

lemma phases_curl_serve: "curl_serve env call app = Some (v, b) \<Longrightarrow> phases app \<Longrightarrow> phases b"
  by (cases call) (auto simp: curl_timer_callback_def dest: phases_curl_socket split: if_splits)

lemma phases_run_curl: "run_curl env run app = Some (ok, b) \<Longrightarrow> phases app \<Longrightarrow> phases b"
  unfolding run_curl_def by (erule run_library_inv [where P = phases]) (auto intro: phases_curl_serve)

lemma phases_curl_message: "phases app \<Longrightarrow> phases (curl_message env msg app)"
  by (cases msg) (auto simp: Let_def phases_def spike_fail_def cancel_service_def)

lemma phases_curl_messages:
  fixes app b :: "('l, 'q, 'h, 'm) app_t"
  assumes "curl_messages env app = Some b" "phases app"
  shows "phases b"
proof -
  define P where "P = (\<lambda>(env :: ('l, 'q, 'h, 'm) spike_env) (app :: ('l, 'q, 'h, 'm) app_t) (b :: ('l, 'q, 'h, 'm) app_t). phases app \<longrightarrow> phases b)"
  have "P env app b"
  proof (rule curl_messages.raw_induct [OF _ assms(1)])
    fix f env app y
    assume ih: "\<And>env app y. f env app = Some y \<Longrightarrow> P env app y"
      and y: "(case sc_info_read (se_curl env) (ap_curl_multi app) of
        (None, m) \<Rightarrow> Some (app\<lparr>ap_curl_multi := m\<rparr>)
      | (Some msg, m) \<Rightarrow> f env (curl_message env msg (app\<lparr>ap_curl_multi := m\<rparr>))) = Some y"
    show "P env app y"
      using y ih phases_curl_message [of "app\<lparr>ap_curl_multi := m\<rparr>" env for m] by (auto simp: P_def split: prod.splits option.splits)
  qed
  then show ?thesis using assms(2) by (simp add: P_def)
qed

lemma phases_curl_action:
  assumes "curl_action env fd action app = Some b" "phases app"
  shows "phases b"
proof -
  obtain ok a where "run_curl env (sc_socket_action (se_curl env) (ap_curl_multi app) fd action) app = Some (ok, a)"
    "b = spike_fail env a \<or> curl_messages env a = Some b"
    using assms(1) by (auto simp: curl_action_def Option.bind_eq_Some_conv split: if_splits)
  then show ?thesis using phases_run_curl assms(2) phases_curl_messages by fastforce
qed

subsection \<open>The loop\<close>

lemma phases_tick_fd:
  assumes "tick_fd env ref revents app = Some b" "phases app"
  shows "phases b"
proof (cases "revents = 0")
  case False
  show ?thesis
  proof (cases "wf_owner (watch_of app ref)")
    case OWNER_PG
    then show ?thesis using assms False by (auto simp: tick_fd_def Let_def intro: phases_pg_ready)
  next
    case OWNER_REDIS
    then show ?thesis using assms False
      by (auto simp: tick_fd_def Let_def Option.bind_eq_Some_conv split: if_splits dest: phases_redis_handle)
  next
    case OWNER_CURL
    then show ?thesis using assms False by (auto simp: tick_fd_def Let_def intro: phases_curl_action)
  qed
qed (use assms in \<open>simp add: tick_fd_def\<close>)

lemma phases_tick_fds: "tick_fds env fds app = Some b \<Longrightarrow> phases app \<Longrightarrow> phases b"
proof (induction fds arbitrary: app)
  case (Cons fd fds)
  then obtain a where "tick_fd env (fst fd) (snd fd) app = Some a" "tick_fds env fds a = Some b"
    by (cases fd) (auto simp: Option.bind_eq_Some_conv)
  then show ?case using Cons.IH Cons.prems(2) phases_tick_fd by blast
qed simp

lemma phases_service_tick:
  assumes "service_tick env app = Some b" "phases app"
  shows "phases b"
proof -
  let ?app = "app\<lparr>ap_polls := ap_polls app + 1\<rparr>"
  obtain fds where fds: "poll_set env app = Some fds" using assms(1) by (auto simp: service_tick_def Option.bind_eq_Some_conv)
  obtain n revents where poll: "se_poll env (ap_polls app) (map snd fds) = (n, revents)" by force
  show ?thesis
  proof (cases "n < 0")
    case True
    then show ?thesis using assms fds poll by (auto simp: service_tick_def)
  next
    case False
    then obtain a c where t: "tick_fds env (zip (map fst fds) (map revents [0..<length fds])) ?app = Some a"
      and c: "curl_action env CURL_SOCKET_TIMEOUT 0 a = Some c"
      and b: "b = (if spike_complete c then cancel_service env c
        else if \<not> ap_failed c then c\<lparr>ap_context := sl_sul_schedule (se_lws env) (ap_context c)\<rparr> else c)"
      using assms(1) fds poll by (auto simp: service_tick_def Let_def Option.bind_eq_Some_conv)
    have "phases c" using phases_curl_action [OF c phases_tick_fds [OF t]] assms(2) by simp
    then show ?thesis by (simp add: b)
  qed
qed

lemma phases_raw_callback:
  assumes "raw_callback env opaque reason app = Some (v, b)" "phases app"
  shows "phases b"
  using assms
  by (cases reason; auto simp: raw_callback_def Let_def split: option.splits owner_t.splits if_splits
      dest: phases_pg_ready phases_redis_handle phases_curl_action)

lemma phases_lws_serve: "lws_serve env call app = Some (v, b) \<Longrightarrow> phases app \<Longrightarrow> phases b"
  by (cases call) (auto dest: phases_service_tick phases_raw_callback)

lemma phases_spike_service:
  assumes "spike_service env app = Some b" "phases app"
  shows "phases b"
proof -
  obtain r a where "run_library ap_context (\<lambda>l. ap_context_update (\<lambda>_. l)) (lws_serve env) (sl_service (se_lws env) (ap_context app)) app = Some (r, a)"
    and b: "b = a \<or> b = a\<lparr>ap_failed := True\<rparr>"
    using assms(1) by (auto simp: spike_service_def split: if_splits)
  then have "phases a" using assms(2) by - (erule run_library_inv [where P = phases], auto intro: phases_lws_serve)
  then show ?thesis using b by auto
qed

lemma spike_loop_result:
  fixes app b :: "('l, 'q, 'h, 'm) app_t"
  assumes "spike_loop env app = Some b" "phases app"
  shows "phases b"
proof -
  define P where "P = (\<lambda>(env :: ('l, 'q, 'h, 'm) spike_env) (app :: ('l, 'q, 'h, 'm) app_t) (b :: ('l, 'q, 'h, 'm) app_t). phases app \<longrightarrow> phases b)"
  have "P env app b"
  proof (rule spike_loop.raw_induct [OF _ assms(1)])
    fix f env app y
    assume ih: "\<And>env app y. f env app = Some y \<Longrightarrow> P env app y"
      and y: "(if ap_failed app \<or> spike_complete app then Some app
        else let now = se_time env (ap_times app); app = app\<lparr>ap_times := ap_times app + 1\<rparr>
          in if now - ap_started app < RUN_TIMEOUT_SECONDS then Option.bind (spike_service env app) (f env) else Some app) = Some y"
    let ?app = "app\<lparr>ap_times := ap_times app + 1\<rparr>"
    have "y = app \<or> y = ?app \<or> (\<exists>a. spike_service env ?app = Some a \<and> f env a = Some y)"
      using y by (auto simp: Let_def Option.bind_eq_Some_conv split: if_splits)
    then show "P env app y" using ih phases_spike_service [of env ?app] by (auto simp: P_def)
  qed
  then show ?thesis using assms(2) by (simp add: P_def)
qed

lemma app_zero_phases: "phases (app_zero world l t)"
  by (simp add: app_zero_def phases_def pg_phase_def redis_phase_def)

lemma fill_queue_phases:
  "fill_queue n i app = Some b \<Longrightarrow> phases b = phases app \<and> ap_redis_generation b = ap_redis_generation app"
proof (induction n i app rule: fill_queue.induct)
  case (2 n i app)
  then show ?case by (auto split: if_splits)
qed simp

lemma check_queue_phases:
  "phases (check_queue env n i app) = phases app \<and> ap_redis_generation (check_queue env n i app) = ap_redis_generation app"
  by (induction env n i app rule: check_queue.induct) (auto simp: spike_fail_def cancel_service_def)

lemma exercise_queue_phases:
  "exercise_queue env app = Some b \<Longrightarrow> phases b = phases app \<and> ap_redis_generation b = ap_redis_generation app"
proof -
  assume "exercise_queue env app = Some b"
  then obtain a where "fill_queue QUEUE_CAPACITY 1 app = Some a"
    "b = check_queue env (ap_queue_len a) 0 a \<or> b = check_queue env (ap_queue_len a) 0 (a\<lparr>ap_backpressure := True\<rparr>)"
    by (auto simp: exercise_queue_def Option.bind_eq_Some_conv Let_def split: if_splits)
  then show ?thesis by (auto simp: check_queue_phases dest: fill_queue_phases)
qed

lemma setup_curl_phases:
  assumes "setup_curl env app = Some (ok, b)" "phases app"
  shows "phases b"
proof -
  let ?url = "case se_getenv env ''ALPHA_HTTP_URL'' of None \<Rightarrow> ''http://127.0.0.1:58080/'' | Some t \<Rightarrow> t"
  obtain r a where a: "run_curl env (sc_add_handle (se_curl env) (ap_curl_multi app) ?url) app = Some (r, a)"
    and b: "b = a \<or> (\<exists>c. curl_action env CURL_SOCKET_TIMEOUT 0 a = Some c \<and> b = c\<lparr>ap_context := sl_sul_schedule (se_lws env) (ap_context c)\<rparr>)"
    using assms(1) by (auto simp: setup_curl_def Let_def Option.bind_eq_Some_conv split: if_splits)
  have "phases a" using phases_run_curl [OF a assms(2)] .
  then show ?thesis using b phases_curl_action by auto
qed

lemma spike_setup_phases:
  assumes "spike_setup world env = Some (Some app)"
  shows "phases app"
proof -
  obtain l a where a: "exercise_queue env (app_zero world l (se_time env 0)) = Some a"
    and rest: "(case setup_pg env a of None \<Rightarrow> Some None
      | Some app \<Rightarrow> (case start_redis env (app\<lparr>ap_redis_generation := 1\<rparr>) of (ok, app) \<Rightarrow>
          if \<not> ok then Some None else if \<not> sw_curl_init world then Some None
          else map_option (\<lambda>(ok, app). if ok then Some app else None) (setup_curl env app))) = Some (Some app)"
    using assms by (auto simp: spike_setup_def Option.bind_eq_Some_conv split: option.splits if_splits)
  obtain b c ok where b: "setup_pg env a = Some b" and c: "start_redis env (b\<lparr>ap_redis_generation := 1\<rparr>) = (True, c)"
    and app: "setup_curl env c = Some (ok, app)"
    using rest by (auto split: option.splits prod.splits if_splits)
  have "phases a" "ap_redis_generation a = 0" using exercise_queue_phases [OF a] app_zero_phases by (simp_all add: app_zero_def)
  then have "phases b" "ap_redis_generation b = 0"
    using b by (auto simp: setup_pg_def Let_def split: option.splits prod.splits if_splits)
  then have "phases (b\<lparr>ap_redis_generation := 1\<rparr>)" by (auto simp: phases_def redis_phase_def)
  then have "phases c" using phases_start_redis [of env "b\<lparr>ap_redis_generation := 1\<rparr>"] c by simp
  then show ?thesis by (rule setup_curl_phases [OF app])
qed

text \<open>The states at the head of the loop of \<^verbatim>\<open>main\<close>.\<close>

inductive spike_reaches :: "('l, 'h, 'm) spike_world \<Rightarrow> ('l, 'q, 'h, 'm) spike_env \<Rightarrow> ('l, 'q, 'h, 'm) app_t \<Rightarrow> bool" for world env where
  ready: "spike_setup world env = Some (Some app) \<Longrightarrow> spike_reaches world env app"
| serviced: "spike_reaches world env app \<Longrightarrow> spike_service env (app\<lparr>ap_times := n\<rparr>) = Some b \<Longrightarrow> spike_reaches world env b"

lemma spike_reaches_phases: "spike_reaches world env app \<Longrightarrow> phases app"
  by (induction rule: spike_reaches.induct) (auto dest: spike_setup_phases phases_spike_service)

lemma length_curl_fds: "length (curl_fds ws n i cnt) \<le> 18 - cnt"
proof (induction ws n i cnt rule: curl_fds.induct)
  case (2 ws n i cnt)
  then show ?case by (cases "wf_curl_action (ws ! i) = 0") force+
qed simp

lemma curl_fds_in_range: "(Curl_Watch_Ref j, x) \<in> set (curl_fds ws n i cnt) \<Longrightarrow> j < i + n"
  by (induction ws n i cnt rule: curl_fds.induct) (auto split: if_splits)

text \<open>A connection to Redis that ends before the round trip is freed by hiredis, but the program keeps its pointer: the next
  readiness probe reads freed memory.\<close>

lemma early_disconnect_dangles:
  assumes "ap_redis app = Some c" "\<not> ap_redis_roundtrip app" "\<not> sr_alive (se_hiredis env) (ap_hiredis app) c"
  shows "service_tick env (redis_disconnect_callback env app) = None"
  using assms by (auto simp: service_tick_def redis_disconnect_callback_def poll_set_def split: option.splits)

definition success_report :: string where
  "success_report =
     ''{\"schema_version\":1,\"loop_owner\":\"libwebsockets\",\"service_threads\":1,\"worker_threads\":0,\"queue_capacity\":4,'' @
     ''\"backpressure\":true,\"cancellation\":true,\"request_result_match\":true,'' @
     ''\"postgres\":{\"roundtrip\":true,\"pipeline_abort\":true,\"pipeline_sync\":true,\"recovered\":true},'' @
     ''\"redis\":{\"roundtrip\":true,\"disconnect\":true,\"recovered\":true},'' @
     ''\"curl_multi\":{\"roundtrip\":true,\"status\":200},\"alternate_event_loop\":false,\"clean_shutdown\":true}'' @ [CHR 0x0A]"

lemma fmt_small: "fmt_int 4 = ''4''" "fmt_int 200 = ''200''"
  by code_simp+

lemma spike_report:
  assumes "phases app" "spike_complete app" "\<not> ap_failed app" "ap_clean_shutdown app"
  shows "print_result app = success_report"
proof -
  have "ap_curl_status app = 200" using assms by (simp add: phases_def spike_complete_def)
  then show ?thesis using assms
    by (simp add: print_result_def success_report_def spike_complete_def json_bool_def QUEUE_CAPACITY_def fmt_small)
qed

section \<open>Examples\<close>

text \<open>Services that answer at once: the results of a pipeline are queued when it is sent, Redis answers the one command whose reply is
  asked for and closes the connection when told to, and the transfer is finished at the second action.\<close>

definition spike_row :: "exec_status \<Rightarrow> string \<Rightarrow> pg_result" where
  "spike_row st v = \<lparr>PQresultStatus = st, PQntuples = 1, PQgetvalue = (\<lambda>_ _. v), PQresultErrorMessage = []\<rparr>"

definition spike_answer :: "string \<Rightarrow> pg_result" where
  "spike_answer sql =
     (if sql = ''SELECT 1'' then spike_row PGRES_TUPLES_OK ''1''
      else if sql = ''SELECT 42'' then spike_row PGRES_TUPLES_OK ''42''
      else if sql = ''SELECT 2'' then spike_row PGRES_PIPELINE_ABORTED []
      else spike_row PGRES_FATAL_ERROR [])"

definition answering_libpq :: "(pg_result option list) spike_libpq" where
  "answering_libpq =
     libpq.extend ((scripted_libpq [])\<lparr>PQsendQueryParams := (\<lambda>c sql params. (1, c @ [Some (spike_answer sql)])),
                     PQpipelineSync := (\<lambda>c. (1, c @ [Some (spike_row PGRES_PIPELINE_SYNC []), None]))\<rparr>)
       \<lparr>PQsendFlushRequest = (\<lambda>c. (1, c)), PQconnectStartParams = (\<lambda>_. Some [])\<rparr>"

type_synonym redis_model = "nat \<times> bool \<times> string option"

fun answer_write :: "redis_model \<Rightarrow> nat \<Rightarrow> (redis_model, spike_redis_call, unit) lib_run" where
  "answer_write (n, up, cmd) c =
     (if up then Finish () (n, up, cmd) else Callback (Redis_Connected True) (n, True, cmd) (\<lambda>_ s. Finish () s))"

fun answer_read :: "redis_model \<Rightarrow> nat \<Rightarrow> (redis_model, spike_redis_call, unit) lib_run" where
  "answer_read (n, up, None) c = Finish () (n, up, None)"
| "answer_read (n, up, Some cmd) c =
     (if cmd = ''PING'' then Callback (Redis_Command_Reply c (Some (REDIS_REPLY_STATUS ''PONG''))) (n, up, None) (\<lambda>_ s. Finish () s)
      else Callback (Redis_Command_Reply c (Some (REDIS_REPLY_STRING ''alpha''))) (n, up, None)
             (\<lambda>_ s. Callback Redis_Disconnected s (\<lambda>_ s. Finish () s)))"

definition answering_hiredis :: "redis_model spike_hiredis" where
  "answering_hiredis = \<lparr>
     sr_connect = (\<lambda>(n, _, _) host port. (Some n, (n + 1, False, None))), sr_err = (\<lambda>_ _. 0), sr_fd = (\<lambda>_ _. 9),
     sr_alive = (\<lambda>(n, _, _) c. n = c + 1), sr_set_connect_callback = (\<lambda>s c. (True, [Hook_Add_Write], s)),
     sr_set_disconnect_callback = (\<lambda>s c. (True, [], s)),
     sr_command = (\<lambda>(n, up, cmd) c callback txt. (True, [Hook_Add_Write], (n, up, if callback then Some txt else cmd))),
     sr_disconnect = (\<lambda>s c. ([], s)), sr_handle_read = answer_read, sr_handle_write = answer_write,
     sr_handle_timeout = (\<lambda>s c. Finish () s)\<rparr>"

definition answering_curl :: "nat spike_libcurl" where
  "answering_curl = \<lparr>
     sc_assign = (\<lambda>m fd w. m),
     sc_socket_action = (\<lambda>m fd action. if m = 0 then Callback (Curl_Socket 7 1 None) 1 (\<lambda>_ m. Finish True m) else Finish True (m + 1)),
     sc_info_read = (\<lambda>m. if m = 2 then (Some (Msg_Done True 200), 3) else (None, m)),
     sc_add_handle = (\<lambda>m url. Callback (Curl_Timer 0) m (\<lambda>_ m. Finish True m))\<rparr>"

definition answering_env :: "(unit, pg_result option list, redis_model, nat) spike_env" where
  "answering_env = \<lparr>
     se_lws = \<lparr>sl_cancel_service = (\<lambda>l. l), sl_sul_schedule = (\<lambda>l. l), sl_service = (\<lambda>l. Callback Tick_Call l (\<lambda>_ l. Finish 0 l))\<rparr>,
     se_pq = answering_libpq, se_hiredis = answering_hiredis, se_curl = answering_curl,
     se_poll = (\<lambda>n fds. (1, \<lambda>i. POLLIN OR POLLOUT)), se_time = (\<lambda>n. 100), se_getenv = (\<lambda>_. None)\<rparr>"

definition answering_world :: "(unit, redis_model, nat) spike_world" where
  "answering_world = \<lparr>sw_curl_global_init = True, sw_create_context = Some (), sw_create_vhost = True, sw_hiredis = (0, False, None),
     sw_multi = 0, sw_curl_init = True\<rparr>"

declare pg_results.simps [code] curl_messages.simps [code] spike_loop.simps [code]

lemma answering_run: "map_option fst (spike_main answering_world answering_env) = Some 0"
  by code_simp

lemma print_result_nonempty: "print_result app \<noteq> []"
  by (simp add: print_result_def)

lemma failure_report: "\<not> ap_clean_shutdown app \<Longrightarrow> print_result app \<noteq> success_report"
proof
  assume "\<not> ap_clean_shutdown app" "print_result app = success_report"
  then have "rev (take 4 (rev (print_result app))) = ''se}'' @ [CHR 0x0A]" "rev (take 4 (rev success_report)) = ''ue}'' @ [CHR 0x0A]"
    "print_result app = success_report"
    by (simp_all add: print_result_def json_bool_def success_report_def)
  then show False by simp
qed

section \<open>Properties\<close>

text \<open>
  C16. The exchange with each service goes through its phases in their order, whatever the four libraries do, their callbacks in
  the middle of other calls included: in every state at the head of the main loop, PostgreSQL has recovered only
  after the synchronisation point of the aborted pipeline, Redis has recovered only after a round trip and a
  disconnection, on the second connection and on no other, an HTTP round trip has the status 200, the table of watches is not
  overrun, and a readiness probe fits its array of 18 descriptors.
\<close>

theorem spike_phases:
  assumes "spike_reaches world env app"
  shows "ap_pg_state app \<in> {0, 2, 3} \<and> (ap_pg_recovered app \<longrightarrow> ap_pg_state app = 3 \<and> ap_pg_sync_seen app)
    \<and> (ap_redis_disconnect app \<longleftrightarrow> ap_redis_generation app = 2)
    \<and> (ap_redis_recovered app \<longrightarrow> ap_redis_disconnect app \<and> ap_redis_roundtrip app)
    \<and> (ap_curl_roundtrip app \<longrightarrow> ap_curl_status app = 200)
    \<and> ap_curl_watch_count app \<le> length (ap_curl_watches app)
    \<and> (case poll_set env app of None \<Rightarrow> True | Some fds \<Rightarrow> length fds \<le> 18)"
proof -
  have p: "phases app" using spike_reaches_phases [OF assms] .
  have "case poll_set env app of None \<Rightarrow> True | Some fds \<Rightarrow> length fds \<le> 18"
    using length_curl_fds [of "ap_curl_watches app" "ap_curl_watch_count app" 0 1]
      length_curl_fds [of "ap_curl_watches app" "ap_curl_watch_count app" 0 2]
    by (auto simp: poll_set_def Let_def split: option.splits)
  then show ?thesis using p by (auto simp: phases_def pg_phase_def redis_phase_def)
qed

lemma answering_setup: "map_option (map_option (\<lambda>app. ap_redis_generation app)) (spike_setup answering_world answering_env) = Some (Some 1)"
  by code_simp

theorem spike_phases_witness:
  "\<exists>app. spike_setup answering_world answering_env = Some (Some app) \<and> \<not> ap_redis_disconnect app \<and> \<not> ap_redis_recovered app"
proof -
  obtain app where app: "spike_setup answering_world answering_env = Some (Some app)" "ap_redis_generation app = 1"
    using answering_setup by auto
  from spike_phases [OF spike_reaches.ready [OF app(1)]] show ?thesis using app by auto
qed

text \<open>
  C39. The exit code and the report of the spike agree, whatever the libraries do: it exits with 0 exactly when it prints the
  report in which every exchange with every service is confirmed, the HTTP status is 200 and the shutdown is clean, and with 1
  otherwise.
\<close>

theorem spike_exit_code:
  assumes "spike_main world env = Some (rc, out)"
  shows "rc \<in> {0, 1} \<and> (rc = 0 \<longleftrightarrow> out = success_report)"
proof (cases "out = []")
  case True
  then have "rc = 1" using assms
    by (auto simp: print_result_nonempty spike_main_def Option.bind_eq_Some_conv Let_def split: if_splits option.splits)
  then show ?thesis using True by (simp add: success_report_def)
next
  case False
  then obtain app b where st: "spike_setup world env = Some (Some app)" and loop: "spike_loop env app = Some b"
    and out: "rc = (if ap_failed (spike_finish b) then 1 else 0)" "out = print_result (spike_finish b)"
    using assms by (auto simp: spike_main_def Option.bind_eq_Some_conv Let_def split: if_splits option.splits)
  have "phases (spike_finish b)" using spike_loop_result [OF loop spike_setup_phases [OF st]] by (simp add: spike_finish_def Let_def)
  moreover have "ap_clean_shutdown (spike_finish b) = (\<not> ap_failed (spike_finish b))" by (simp add: spike_finish_def Let_def)
  moreover have "spike_complete (spike_finish b)" if "\<not> ap_failed (spike_finish b)"
    using that by (auto simp: spike_finish_def Let_def spike_complete_def split: if_splits)
  ultimately show ?thesis using out spike_report [of "spike_finish b"] failure_report [of "spike_finish b"]
    by (cases "ap_failed (spike_finish b)") simp_all
qed

theorem spike_exit_code_witness: "spike_main answering_world answering_env = Some (0, success_report)"
proof -
  obtain out where out: "spike_main answering_world answering_env = Some (0, out)" using answering_run by auto
  from spike_exit_code [OF this] show ?thesis using out by simp
qed

end
