(* ===== verification/Edge_Hash.thy ===== *)
theory Edge_Hash
  imports C_Text
begin

text \<open>
  The hash of the Rust benchmark adapter, \<^verbatim>\<open>src/edge/driver-bench/src/main.rs\<close>: the
  padding loop, the message schedule and the 64 rounds on 32-bit words that wrap, and the printer. Bytes are characters and
  a \<^verbatim>\<open>[u32; 8]\<close> is a tuple, as the source destructures it. The table \<^verbatim>\<open>K\<close> of round constants is an
  argument \<open>k\<close>: what is shown holds for every table, and the test vectors of the source, which depend on its values, are not
  covered. The lemmas show that the padding ends on a block boundary and is injective, that the array of the schedule holds the
  recurrence of the standard, and that the digest has 64 characters.
\<close>

unbundle bit_operations_syntax

section \<open>One block\<close>

fun be_words :: "string \<Rightarrow> 32 word list" where
  "be_words (b0 # b1 # b2 # b3 # rest) =
     (push_bit 24 (of_char b0) OR push_bit 16 (of_char b1) OR push_bit 8 (of_char b2) OR of_char b3) # be_words rest"
| "be_words _ = []"

definition schedule_word :: "32 word list \<Rightarrow> nat \<Rightarrow> 32 word" where
  "schedule_word schedule index =
     (let s0 = word_rotr 7 (schedule ! (index - 15)) XOR word_rotr 18 (schedule ! (index - 15)) XOR drop_bit 3 (schedule ! (index - 15));
          s1 = word_rotr 17 (schedule ! (index - 2)) XOR word_rotr 19 (schedule ! (index - 2)) XOR drop_bit 10 (schedule ! (index - 2))
      in schedule ! (index - 16) + s0 + schedule ! (index - 7) + s1)"

definition sha256_schedule :: "string \<Rightarrow> 32 word list" where
  "sha256_schedule chunk =
     (let words = be_words chunk;
          schedule = words @ replicate (64 - length words) 0
      in fold (\<lambda>index schedule. schedule[index := schedule_word schedule index]) [16..<64] schedule)"

type_synonym sha256_state = "32 word \<times> 32 word \<times> 32 word \<times> 32 word \<times> 32 word \<times> 32 word \<times> 32 word \<times> 32 word"

definition sha256_round :: "32 word list \<Rightarrow> 32 word list \<Rightarrow> nat \<Rightarrow> sha256_state \<Rightarrow> sha256_state" where
  "sha256_round k schedule index =
     (\<lambda>(a, b, c, d, e, f, g, h).
        let sum1 = word_rotr 6 e XOR word_rotr 11 e XOR word_rotr 25 e;
            choice = (e AND f) XOR (NOT e AND g);
            temp1 = h + sum1 + choice + k ! index + schedule ! index;
            sum0 = word_rotr 2 a XOR word_rotr 13 a XOR word_rotr 22 a;
            majority = (a AND b) XOR (a AND c) XOR (b AND c);
            temp2 = sum0 + majority
        in (temp1 + temp2, a, b, c, d + temp1, e, f, g))"

definition sha256_compress :: "32 word list \<Rightarrow> string \<Rightarrow> sha256_state \<Rightarrow> sha256_state" where
  "sha256_compress k chunk state =
     (case state of (a, b, c, d, e, f, g, h) \<Rightarrow>
      case fold (sha256_round k (sha256_schedule chunk)) [0..<64] state of (a', b', c', d', e', f', g', h') \<Rightarrow>
        (a + a', b + b', c + c', d + d', e + e', f + f', g + g', h + h'))"

section \<open>The message\<close>

definition to_be_bytes :: "64 word \<Rightarrow> string" where
  "to_be_bytes w = map (\<lambda>i. char_of (uint (drop_bit (56 - 8 * i) w))) [0..<8]"

function pad_zeros :: "string \<Rightarrow> string" where
  "pad_zeros padded = (if length padded mod 64 = 56 then padded else pad_zeros (padded @ [CHR 0x00]))"
  by auto
termination
  by (relation "measure (\<lambda>p. if length p mod 64 \<le> 56 then 56 - length p mod 64 else 120 - length p mod 64)") (auto simp: mod_Suc)

fun chunks64 :: "nat \<Rightarrow> string \<Rightarrow> string list" where
  "chunks64 0 p = []"
| "chunks64 (Suc n) p = take 64 p # chunks64 n (drop 64 p)"

definition sha256_padded :: "string \<Rightarrow> string" where
  "sha256_padded input =
     (let bit_len = (of_nat (length input) :: 64 word) * 8
      in pad_zeros (input @ [CHR 0x80]) @ to_be_bytes bit_len)"

definition hex_char :: "32 word \<Rightarrow> char" where
  "hex_char d = ''0123456789abcdef'' ! unat d"

definition fmt_08x :: "32 word \<Rightarrow> string" where
  "fmt_08x w = map (\<lambda>i. hex_char (drop_bit (28 - 4 * i) w AND 0xF)) [0..<8]"

definition sha256_hex :: "32 word list \<Rightarrow> string \<Rightarrow> string" where
  "sha256_hex k input =
     (let padded = sha256_padded input
      in case fold (sha256_compress k) (chunks64 (length padded div 64) padded)
                (0x6a09e667, 0xbb67ae85, 0x3c6ef372, 0xa54ff53a, 0x510e527f, 0x9b05688c, 0x1f83d9ab, 0x5be0cd19)
         of (a, b, c, d, e, f, g, h) \<Rightarrow> concat (map fmt_08x [a, b, c, d, e, f, g, h]))"

declare pad_zeros.simps [simp del]

section \<open>Padding\<close>

lemma pad_zeros_form: "\<exists>k. pad_zeros p = p @ replicate k (CHR 0x00)"
proof (induction p rule: pad_zeros.induct)
  case (1 p)
  show ?case
  proof (cases "length p mod 64 = 56")
    case True
    then show ?thesis by (intro exI [of _ 0]) (simp add: pad_zeros.simps)
  next
    case False
    with 1 obtain k where "pad_zeros (p @ [CHR 0x00]) = (p @ [CHR 0x00]) @ replicate k (CHR 0x00)" by blast
    with False show ?thesis by (intro exI [of _ "Suc k"]) (simp add: pad_zeros.simps [of p])
  qed
qed

lemma length_pad_zeros: "length (pad_zeros p) mod 64 = 56"
  by (induction p rule: pad_zeros.induct) (subst pad_zeros.simps, simp)

lemma length_to_be_bytes [simp]: "length (to_be_bytes w) = 8"
  by (simp add: to_be_bytes_def)

lemma sha256_padded_blocks: "length (sha256_padded x) mod 64 = 0"
proof -
  have "(length (pad_zeros (x @ [CHR 0x80])) + 8) mod 64 = 0" using length_pad_zeros [of "x @ [CHR 0x80]"] by presburger
  then show ?thesis by (simp add: sha256_padded_def)
qed

lemma to_be_bytes_inj: "to_be_bytes v = to_be_bytes w \<Longrightarrow> v = w"
proof (rule bit_word_eqI)
  fix n assume e: "to_be_bytes v = to_be_bytes w" and n: "n < LENGTH(64)"
  let ?i = "7 - n div 8"
  have i: "?i < 8" "56 - 8 * ?i = 8 * (n div 8)" using n by auto
  have "to_be_bytes v ! ?i = to_be_bytes w ! ?i" using e by simp
  then have "char_of (uint (drop_bit (8 * (n div 8)) v)) = (char_of (uint (drop_bit (8 * (n div 8)) w)) :: char)"
    using i by (simp add: to_be_bytes_def)
  then have "take_bit 8 (uint (drop_bit (8 * (n div 8)) v)) = take_bit 8 (uint (drop_bit (8 * (n div 8)) w))"
    by (simp add: char_of_eq_iff take_bit_eq_mod)
  then have "bit (take_bit 8 (uint (drop_bit (8 * (n div 8)) v))) (n mod 8) = bit (take_bit 8 (uint (drop_bit (8 * (n div 8)) w))) (n mod 8)"
    by simp
  moreover have "n mod 8 < 64" using mod_less_divisor [of 8 n] by linarith
  ultimately show "bit v n = bit w n" using n by (simp add: bit_take_bit_iff bit_uint_iff bit_drop_bit_eq)
qed

lemma sha256_padded_inj:
  assumes "sha256_padded x = sha256_padded y" "length x < 2 ^ 61" "length y < 2 ^ 61"
  shows "x = y"
proof -
  obtain k l where f: "pad_zeros (x @ [CHR 0x80]) = x @ CHR 0x80 # replicate k (CHR 0x00)"
      "pad_zeros (y @ [CHR 0x80]) = y @ CHR 0x80 # replicate l (CHR 0x00)"
    using pad_zeros_form [of "x @ [CHR 0x80]"] pad_zeros_form [of "y @ [CHR 0x80]"] by auto
  have e: "pad_zeros (x @ [CHR 0x80]) = pad_zeros (y @ [CHR 0x80])"
      "to_be_bytes (of_nat (length x) * 8) = to_be_bytes (of_nat (length y) * 8)"
    using assms(1) append_eq_append_conv [of _ _ "to_be_bytes (of_nat (length x) * 8)" "to_be_bytes (of_nat (length y) * 8)"]
    by (auto simp: sha256_padded_def Let_def)
  then have "(of_nat (length x * 8) :: 64 word) = of_nat (length y * 8)" using to_be_bytes_inj by simp
  then have "length x * 8 mod 2 ^ 64 = length y * 8 mod 2 ^ 64" by (simp only: word_of_nat_eq_iff take_bit_eq_mod) simp
  then have "length x = length y" using assms(2,3) by simp
  with e(1) f show ?thesis by simp
qed

section \<open>Message schedule\<close>

fun msg_word :: "string \<Rightarrow> nat \<Rightarrow> 32 word" where
  "msg_word chunk t =
     (if t < 16 then be_words chunk ! t
      else (let x = msg_word chunk (t - 2) in word_rotr 17 x XOR word_rotr 19 x XOR drop_bit 10 x) + msg_word chunk (t - 7)
         + (let x = msg_word chunk (t - 15) in word_rotr 7 x XOR word_rotr 18 x XOR drop_bit 3 x) + msg_word chunk (t - 16))"

declare msg_word.simps [simp del]

lemma length_be_words: "length (be_words s) = length s div 4"
  by (induction s rule: be_words.induct) auto

lemma schedule_word_msg: "\<not> n < 16 \<Longrightarrow> (\<And>t. t < n \<Longrightarrow> w ! t = msg_word chunk t) \<Longrightarrow> schedule_word w n = msg_word chunk n"
  by (subst msg_word.simps) (simp add: schedule_word_def Let_def ac_simps)

lemma schedule_prefix:
  assumes "length chunk = 64" "n \<le> 64"
  shows "let schedule = fold (\<lambda>index schedule. schedule[index := schedule_word schedule index]) [16..<n]
                          (be_words chunk @ replicate 48 0)
         in length schedule = 64 \<and> (\<forall>t < max 16 n. schedule ! t = msg_word chunk t)"
  using assms(2)
proof (induction n)
  case 0
  then show ?case using assms(1) by (simp add: length_be_words msg_word.simps nth_append)
next
  case (Suc n)
  let ?f = "fold (\<lambda>index schedule. schedule[index := schedule_word schedule index])"
  let ?w = "?f [16..<n] (be_words chunk @ replicate 48 0)"
  from Suc have IH: "length ?w = 64" "\<And>t. t < max 16 n \<Longrightarrow> ?w ! t = msg_word chunk t" by (simp_all add: Let_def)
  show ?case
  proof (cases "n < 16")
    case True
    then show ?thesis using IH by (simp add: Let_def)
  next
    case False
    then have s: "?f [16..<Suc n] (be_words chunk @ replicate 48 0) = ?w[n := schedule_word ?w n]" by simp
    have "schedule_word ?w n = msg_word chunk n" by (rule schedule_word_msg) (use False IH(2) in auto)
    then have "\<And>t. t < max 16 (Suc n) \<Longrightarrow> (?w[n := schedule_word ?w n]) ! t = msg_word chunk t"
      using IH Suc.prems False by (auto simp: nth_list_update less_Suc_eq)
    then show ?thesis unfolding s Let_def using IH(1) by simp
  qed
qed

lemma sha256_schedule_spec:
  assumes "length chunk = 64" "t < 64"
  shows "sha256_schedule chunk ! t = msg_word chunk t"
proof -
  have "64 - length (be_words chunk) = 48" using assms(1) by (simp add: length_be_words)
  then have "sha256_schedule chunk =
      fold (\<lambda>index schedule. schedule[index := schedule_word schedule index]) [16..<64] (be_words chunk @ replicate 48 0)"
    by (simp only: sha256_schedule_def Let_def)
  moreover have "t < max 16 64" using assms(2) by linarith
  ultimately show ?thesis using schedule_prefix [OF assms(1) order_refl, unfolded Let_def] by metis
qed

section \<open>Digest\<close>

lemma length_fmt_08x [simp]: "length (fmt_08x w) = 8"
  by (simp add: fmt_08x_def)

lemma length_sha256_hex [simp]: "length (sha256_hex k input) = 64"
  by (simp add: sha256_hex_def Let_def split: prod.splits)

end
