(* ===== verification/Edge_Schedule.thy ===== *)
theory Edge_Schedule
  imports Edge_Driver
begin

text \<open>
  The schedules of the Rust benchmark adapter (\<open>Edge_Driver\<close>): a schedule in which every task is polled often enough
  ends the run, whatever the order, and operations that do not disturb each other fail in no schedule. The second part is an
  interface for workloads, which those of the two cases provide.
\<close>

section \<open>Every fair schedule ends the run\<close>

text \<open>An upper bound of the polls that a task still needs, and the tasks that a poll leaves as they are.\<close>

definition iteration_work :: "Operation list \<Rightarrow> nat" where
  "iteration_work operations = 4 * length operations + 1"

definition work :: "Operation list \<Rightarrow> task \<Rightarrow> nat" where
  "work operations t =
     (let iteration = iteration_work operations; left = tk_end t - tk_iteration t
      in case tk_phase t of
           Spawned \<Rightarrow> left * iteration + 2
         | At_Barrier \<Rightarrow> left * iteration + 1
         | Iterating ops \<Rightarrow> (left - 1) * iteration + 4 * length ops + 1
         | Acquiring _ ops \<Rightarrow> (left - 1) * iteration + 4 * length ops
         | Calling _ ops \<Rightarrow> (left - 1) * iteration + 4 * length ops - 1
         | Answered _ ops _ \<Rightarrow> (left - 1) * iteration + 4 * length ops - 2
         | Finished \<Rightarrow> 0)"

definition blocked :: "nat \<Rightarrow> 's executor \<Rightarrow> task \<Rightarrow> bool" where
  "blocked concurrency ex t \<longleftrightarrow>
     (case tk_phase t of
        At_Barrier \<Rightarrow> ex_arrived ex < concurrency
      | Acquiring _ _ \<Rightarrow> ex_permits ex = Some 0
      | Finished \<Rightarrow> True
      | _ \<Rightarrow> False)"

lemma poll_blocked: "blocked n ex t \<Longrightarrow> poll_task now perform operations n t ex = (t, ex)"
  by (auto simp: blocked_def poll_task_def split: phase.splits)

lemma work_phase:
  "tk_phase t = Spawned \<Longrightarrow> work operations t = (tk_end t - tk_iteration t) * iteration_work operations + 2"
  "tk_phase t = At_Barrier \<Longrightarrow> work operations t = (tk_end t - tk_iteration t) * iteration_work operations + 1"
  "tk_phase t = Iterating ops \<Longrightarrow> work operations t = (tk_end t - tk_iteration t - 1) * iteration_work operations + 4 * length ops + 1"
  "tk_phase t = Acquiring k ops \<Longrightarrow> work operations t = (tk_end t - tk_iteration t - 1) * iteration_work operations + 4 * length ops"
  "tk_phase t = Calling k ops \<Longrightarrow> work operations t = (tk_end t - tk_iteration t - 1) * iteration_work operations + 4 * length ops - 1"
  "tk_phase t = Answered k ops r \<Longrightarrow> work operations t = (tk_end t - tk_iteration t - 1) * iteration_work operations + 4 * length ops - 2"
  "tk_phase t = Finished \<Longrightarrow> work operations t = 0"
  by (simp_all add: work_def Let_def)

lemma work_begin:
  assumes "tk_iteration t \<le> tk_end t"
  shows "work operations (begin_iteration operations t) = (tk_end t - tk_iteration t) * iteration_work operations"
proof (cases "tk_end t - tk_iteration t")
  case 0
  then show ?thesis using work_phase(7) [of "begin_iteration operations t" operations] by (simp add: begin_iteration_def)
next
  case (Suc k)
  then have "tk_iteration t < tk_end t" by simp
  then have "work operations (begin_iteration operations t) = (tk_end t - tk_iteration t - 1) * iteration_work operations + 4 * length operations + 1"
    by (subst work_phase(3)) (simp_all add: begin_iteration_def)
  then show ?thesis using Suc by (simp add: iteration_work_def)
qed

lemma poll_works:
  assumes s: "task_sound operations a g t" and b: "\<not> blocked n ex t" and p: "poll_task now perform operations n t ex = (t', ex')"
  shows "work operations t' < work operations t"
proof -
  have le: "tk_iteration t \<le> tk_end t" using s by (simp add: task_sound_def)
  have less: "tk_iteration t < tk_end t" "in_operation (tk_phase t) \<Longrightarrow> 0 < length rest" if "phase_ops (tk_phase t) = Some rest" for rest
    using s that by (auto simp: task_sound_def)
  have next_it: "work operations (begin_iteration operations (u\<lparr>tk_iteration := tk_iteration t + 1\<rparr>))
      = (tk_end t - tk_iteration t - 1) * iteration_work operations" if "tk_iteration t < tk_end t" "tk_end u = tk_end t" for u
    using that by (subst work_begin) simp_all
  show ?thesis
  proof (cases "tk_phase t")
    case At_Barrier
    then show ?thesis using p b work_begin [OF le, of operations] work_phase(2) [OF At_Barrier, of operations]
      by (auto simp: poll_task_def blocked_def)
  next
    case (Iterating ops)
    show ?thesis
    proof (cases ops)
      case Nil
      then show ?thesis using p Iterating less next_it [of "t\<lparr>tk_completed := tk_completed t @ tk_values t\<rparr>"] work_phase(3) [OF Iterating, of operations]
        by (auto simp: poll_task_def)
    next
      case (Cons op rest)
      then show ?thesis using p Iterating work_phase(3) [OF Iterating, of operations] work_phase(4) [of t' "now (ex_clock ex)" ops operations]
        by (auto simp: poll_task_def)
    qed
  next
    case (Acquiring started ops)
    then obtain op rest where "ops = op # rest" using less(2) by (cases ops) auto
    then show ?thesis using p b Acquiring work_phase(4) [OF Acquiring, of operations] work_phase(5) [of t' started ops operations]
      by (auto simp: poll_task_def blocked_def split: option.splits nat.splits)
  next
    case (Calling started ops)
    obtain answer server where "perform (hd ops) (ex_server ex) = (answer, server)" by force
    moreover obtain op rest where "ops = op # rest" using less(2) Calling by (cases ops) auto
    ultimately show ?thesis using p Calling work_phase(5) [OF Calling, of operations] work_phase(6) [of t' started ops answer operations]
      by (auto simp: poll_task_def)
  next
    case (Answered started ops answer)
    obtain op rest where "ops = op # rest" using less(2) Answered by (cases ops) auto
    moreover have "tk_iteration t < tk_end t" using less Answered by auto
    ultimately show ?thesis using p Answered next_it [of t] work_phase(6) [OF Answered, of operations] work_phase(3) [of t' "tl ops" operations]
      by (cases answer) (auto simp: poll_task_def Let_def)
  qed (use p b work_phase(1,2) in \<open>auto simp: poll_task_def blocked_def\<close>)
qed

text \<open>The counts the executor keeps: the tasks at the barrier or past it, and the permits with the tasks that hold one.\<close>

definition holds_permit :: "task \<Rightarrow> bool" where
  "holds_permit t \<longleftrightarrow> (case tk_phase t of Calling _ _ \<Rightarrow> True | Answered _ _ _ \<Rightarrow> True | _ \<Rightarrow> False)"

definition counted :: "nat \<Rightarrow> 's executor \<Rightarrow> bool" where
  "counted depth ex \<longleftrightarrow>
     ex_arrived ex = (\<Sum>t\<leftarrow>ex_tasks ex. of_bool (tk_phase t \<noteq> Spawned))
     \<and> (case ex_permits ex of None \<Rightarrow> True | Some p \<Rightarrow> p + (\<Sum>t\<leftarrow>ex_tasks ex. of_bool (holds_permit t)) = depth)"

lemma sum_list_map_update:
  fixes f :: "'a \<Rightarrow> nat"
  shows "i < length ts \<Longrightarrow> (\<Sum>t\<leftarrow>ts[i := u]. f t) + f (ts ! i) = (\<Sum>t\<leftarrow>ts. f t) + f u"
proof (induction ts arbitrary: i)
  case (Cons t ts)
  then show ?case by (cases i) auto
qed simp

lemma poll_task_tasks: "poll_task now perform operations n t ex = (t', ex') \<Longrightarrow> ex_tasks ex' = ex_tasks ex"
  by (auto simp: poll_task_def Let_def split: phase.splits list.splits option.splits nat.splits sum.splits prod.splits if_splits)

lemma poll_task_counted:
  assumes "poll_task now perform operations n t ex = (t', ex')"
  shows "ex_arrived ex' + of_bool (tk_phase t \<noteq> Spawned) = ex_arrived ex + of_bool (tk_phase t' \<noteq> Spawned)"
    and "case ex_permits ex of None \<Rightarrow> ex_permits ex' = None
      | Some p \<Rightarrow> \<exists>q. ex_permits ex' = Some q \<and> q + of_bool (holds_permit t') = p + of_bool (holds_permit t)"
  using assms
  by (auto simp: poll_task_def begin_iteration_def holds_permit_def Let_def
      split: phase.splits list.splits option.splits nat.splits sum.splits prod.splits if_splits)

lemma poll_counted:
  assumes c: "counted depth ex"
  shows "counted depth (poll now perform operations n i ex)"
proof (cases "i < length (ex_tasks ex)")
  case True
  obtain t' ex' where p: "poll_task now perform operations n (ex_tasks ex ! i) ex = (t', ex')" by force
  note s = sum_list_map_update [OF True, of _ t']
  have "ex_arrived ex' = (\<Sum>t\<leftarrow>(ex_tasks ex)[i := t']. of_bool (tk_phase t \<noteq> Spawned))"
    using c poll_task_counted(1) [OF p] s [of "\<lambda>t. of_bool (tk_phase t \<noteq> Spawned)"] by (simp add: counted_def)
  moreover have "case ex_permits ex' of None \<Rightarrow> True | Some q \<Rightarrow> q + (\<Sum>t\<leftarrow>(ex_tasks ex)[i := t']. of_bool (holds_permit t)) = depth"
    using c poll_task_counted(2) [OF p] s [of "\<lambda>t. of_bool (holds_permit t)"] by (auto simp: counted_def split: option.splits)
  ultimately show ?thesis using True p by (auto simp: poll_def counted_def split: option.splits)
qed (use c in \<open>simp add: poll_def\<close>)

lemma start_counted: "counted depth (start_executor server (Some depth) counts)" "counted depth (start_executor server None counts)"
proof -
  have "(\<Sum>t\<leftarrow>spawn_tasks counts k. of_bool (tk_phase t \<noteq> Spawned)) = (0 :: nat)"
    "(\<Sum>t\<leftarrow>spawn_tasks counts k. of_bool (holds_permit t)) = (0 :: nat)" for k
    using spawn_tasks_fresh [of _ counts k] by (simp_all add: sum_list_eq_0_iff holds_permit_def)
  then show "counted depth (start_executor server (Some depth) counts)" "counted depth (start_executor server None counts)"
    by (simp_all add: counted_def start_executor_def)
qed

lemma sum_list_of_bool_all: "(\<Sum>t\<leftarrow>ts. of_bool (P t)) = length ts" if "\<forall>t \<in> set ts. P t"
  using that by (induction ts) simp_all

lemma sum_list_of_bool_none: "(\<Sum>t\<leftarrow>ts. of_bool (P t)) = (0 :: nat)" if "\<forall>t \<in> set ts. \<not> P t"
  using that by (induction ts) simp_all

text \<open>No deadlock: as long as a task has not ended, one of the tasks is not blocked.\<close>

lemma unblocked_task:
  assumes c: "counted depth ex" "0 < depth" "t \<in> set (ex_tasks ex)" "tk_phase t \<noteq> Finished"
  shows "\<exists>u \<in> set (ex_tasks ex). \<not> blocked (length (ex_tasks ex)) ex u"
proof (rule ccontr)
  assume "\<not> ?thesis"
  then have b: "\<And>u. u \<in> set (ex_tasks ex) \<Longrightarrow> blocked (length (ex_tasks ex)) ex u" by blast
  have "\<forall>u \<in> set (ex_tasks ex). tk_phase u \<noteq> Spawned" using b by (auto simp: blocked_def dest!: b)
  then have "ex_arrived ex = length (ex_tasks ex)" using c(1) sum_list_of_bool_all [of "ex_tasks ex" "\<lambda>u. tk_phase u \<noteq> Spawned"] by (simp add: counted_def)
  moreover have "\<forall>u \<in> set (ex_tasks ex). \<not> holds_permit u"
    using b by (auto simp: blocked_def holds_permit_def dest!: b split: phase.splits)
  then have "(\<Sum>u\<leftarrow>ex_tasks ex. of_bool (holds_permit u)) = (0 :: nat)" by (rule sum_list_of_bool_none)
  then have "ex_permits ex \<noteq> Some 0" using c(1,2) by (auto simp: counted_def simp del: sum_list_eq_0_iff)
  ultimately show False using b [OF c(3)] c(4) by (auto simp: blocked_def split: phase.splits)
qed

text \<open>
  The executor at any time of a run of the tasks \<open>ts\<close>: what the tasks have reported, and the counts. Its work is the sum of
  that of the tasks.
\<close>

definition running :: "Operation list \<Rightarrow> task list \<Rightarrow> nat \<Rightarrow> 's executor \<Rightarrow> bool" where
  "running operations ts depth ex \<longleftrightarrow> run_sound operations ts ex \<and> counted depth ex \<and> 0 < depth"

definition total_work :: "Operation list \<Rightarrow> 's executor \<Rightarrow> nat" where
  "total_work operations ex = (\<Sum>t\<leftarrow>ex_tasks ex. work operations t)"

definition ended :: "'s executor \<Rightarrow> bool" where
  "ended ex \<longleftrightarrow> (\<forall>t \<in> set (ex_tasks ex). tk_phase t = Finished)"

lemma running_poll: "running operations ts depth ex \<Longrightarrow> running operations ts depth (poll now perform operations n i ex)"
  by (simp add: running_def poll_sound poll_counted)

lemma running_sound: "running operations ts depth ex \<Longrightarrow> i < length (ex_tasks ex) \<Longrightarrow> \<exists>a g. task_sound operations a g (ex_tasks ex ! i)"
  by (auto simp: running_def run_sound_def)

lemma poll_progress:
  assumes r: "running operations ts depth ex" and i: "i < length (ex_tasks ex)"
  shows "if blocked n ex (ex_tasks ex ! i) then poll now perform operations n i ex = ex
    else total_work operations (poll now perform operations n i ex) < total_work operations ex"
proof -
  obtain t' ex' where p: "poll_task now perform operations n (ex_tasks ex ! i) ex = (t', ex')" by force
  show ?thesis
  proof (cases "blocked n ex (ex_tasks ex ! i)")
    case True
    then show ?thesis using i poll_blocked [OF True] by (simp add: poll_def)
  next
    case False
    obtain a g where "task_sound operations a g (ex_tasks ex ! i)" using running_sound [OF r i] by blast
    then have "work operations t' < work operations (ex_tasks ex ! i)" using poll_works False p by blast
    then show ?thesis using False i p sum_list_map_update [OF i, of "work operations" t'] by (simp add: poll_def total_work_def)
  qed
qed

lemma run_progress:
  assumes "running operations ts depth ex"
  shows "running operations ts depth (run_tasks now perform operations n schedule ex)
    \<and> (total_work operations (run_tasks now perform operations n schedule ex) < total_work operations ex
       \<or> run_tasks now perform operations n schedule ex = ex
         \<and> (\<forall>i \<in> set schedule. i < length (ex_tasks ex) \<longrightarrow> blocked n ex (ex_tasks ex ! i)))"
  using assms
proof (induction schedule arbitrary: ex)
  case (Cons i schedule)
  let ?ex = "poll now perform operations n i ex"
  have IH: "running operations ts depth (run_tasks now perform operations n schedule ?ex)"
    "total_work operations (run_tasks now perform operations n schedule ?ex) \<le> total_work operations ?ex"
    "total_work operations (run_tasks now perform operations n schedule ?ex) < total_work operations ?ex
     \<or> run_tasks now perform operations n schedule ?ex = ?ex
       \<and> (\<forall>i \<in> set schedule. i < length (ex_tasks ?ex) \<longrightarrow> blocked n ?ex (ex_tasks ?ex ! i))"
    using Cons.IH [OF running_poll [OF Cons.prems, of now perform n i]] by (auto simp: less_imp_le)
  have c: "run_tasks now perform operations n (i # schedule) ex = run_tasks now perform operations n schedule ?ex"
    by (simp add: run_tasks_def)
  show ?case
  proof (cases "i < length (ex_tasks ex) \<and> \<not> blocked n ex (ex_tasks ex ! i)")
    case True
    then have "total_work operations ?ex < total_work operations ex" using poll_progress [OF Cons.prems, of i n now perform] by simp
    then show ?thesis using IH(1,2) unfolding c by auto
  next
    case False
    then have "?ex = ex" using poll_progress [OF Cons.prems, of i n now perform] by (cases "i < length (ex_tasks ex)") (simp_all add: poll_def)
    then show ?thesis using IH(1,3) False unfolding c by auto
  qed
qed (simp add: run_tasks_def)

lemma ended_stays: "ended ex \<Longrightarrow> run_tasks now perform operations n schedule ex = ex"
proof (induction schedule)
  case (Cons i schedule)
  have "poll now perform operations n i ex = ex"
  proof (cases "i < length (ex_tasks ex)")
    case True
    then have "blocked n ex (ex_tasks ex ! i)" using Cons.prems by (auto simp: ended_def blocked_def)
    then show ?thesis using True by (simp add: poll_def poll_blocked)
  qed (simp add: poll_def)
  then show ?case using Cons by (simp add: run_tasks_def)
qed (simp add: run_tasks_def)

text \<open>A round polls every task at least once; the rounds that are needed are bounded by the work.\<close>

lemma rounds_end:
  assumes "running operations ts depth ex" "n = length (ex_tasks ex)" "total_work operations ex \<le> length rounds"
    and "\<forall>r \<in> set rounds. {..<n} \<subseteq> set r"
  shows "ended (run_tasks now perform operations n (concat rounds) ex)"
  using assms
proof (induction rounds arbitrary: ex)
  case Nil
  have "work operations t > 0" if "t \<in> set (ex_tasks ex)" "tk_phase t \<noteq> Finished" for t
  proof -
    obtain i where "i < length (ex_tasks ex)" "ex_tasks ex ! i = t" using \<open>t \<in> set (ex_tasks ex)\<close> by (auto simp: in_set_conv_nth)
    then obtain a g where "task_sound operations a g t" using running_sound [OF Nil.prems(1)] by blast
    then show ?thesis using \<open>tk_phase t \<noteq> Finished\<close> by (auto simp: task_sound_def work_def Let_def neq_Nil_conv split: phase.splits)
  qed
  then show ?case using Nil.prems(3) by (fastforce simp: ended_def run_tasks_def total_work_def)
next
  case (Cons r rounds)
  let ?ex = "run_tasks now perform operations n r ex"
  have c: "run_tasks now perform operations n (concat (r # rounds)) ex = run_tasks now perform operations n (concat rounds) ?ex"
    by (simp add: run_tasks_def)
  note p = run_progress [OF Cons.prems(1), of now perform n r]
  have len: "length (ex_tasks ?ex) = length (ex_tasks ex)" using p Cons.prems(1) by (simp add: running_def run_sound_def)
  show ?case
  proof (cases "ended ex")
    case True
    then show ?thesis using ended_stays by metis
  next
    case False
    then obtain t where "t \<in> set (ex_tasks ex)" "tk_phase t \<noteq> Finished" by (auto simp: ended_def)
    then obtain u where "u \<in> set (ex_tasks ex)" "\<not> blocked n ex u"
      using unblocked_task [of depth ex t] Cons.prems(1,2) by (auto simp: running_def)
    then obtain i where "i < n" "\<not> blocked n ex (ex_tasks ex ! i)" using Cons.prems(2) by (auto simp: in_set_conv_nth)
    moreover have "i \<in> set r" using Cons.prems(4) \<open>i < n\<close> by auto
    ultimately have "total_work operations ?ex < total_work operations ex" using p Cons.prems(2) by auto
    then show ?thesis unfolding c using Cons.IH [of ?ex] Cons.prems p len by auto
  qed
qed

lemma start_running: "0 < depth \<Longrightarrow> running operations (spawn_tasks counts 0) depth (start_executor server (Some depth) counts)"
  "running operations (spawn_tasks counts 0) 1 (start_executor server None counts)"
  by (simp_all add: running_def start_sound start_counted)

lemma start_work: "total_work operations (start_executor server permits counts) = 2 * length counts + sum_list counts * iteration_work operations"
proof -
  have "(\<Sum>t\<leftarrow>spawn_tasks counts k. work operations t) = 2 * length counts + sum_list counts * iteration_work operations" for k
    by (induction counts arbitrary: k) (simp_all add: work_phase(1) algebra_simps)
  then show ?thesis by (simp add: total_work_def start_executor_def)
qed

lemma fair_schedule_ends:
  assumes d: "distribute repeat n = Some counts" and p: "permits \<noteq> Some 0"
    and r: "\<forall>r \<in> set rounds. {..<n} \<subseteq> set r" "2 * n + repeat * iteration_work operations \<le> length rounds"
  shows "\<exists>completed. join_tasks (run_tasks now perform operations n (concat rounds) (start_executor server permits counts)) = Some completed"
proof -
  let ?ex = "start_executor server permits counts"
  have "\<exists>depth. running operations (spawn_tasks counts 0) depth ?ex"
  proof (cases permits)
    case None
    then show ?thesis using start_running(2) [of operations counts server] by auto
  next
    case (Some depth)
    then show ?thesis using p start_running(1) [of depth operations counts server] by auto
  qed
  then obtain depth where "running operations (spawn_tasks counts 0) depth ?ex" by blast
  moreover have "n = length (ex_tasks ?ex)" using distribute_sound(1) [OF d] by (simp add: start_executor_def)
  moreover have "total_work operations ?ex \<le> length rounds" using r(2) distribute_sound(1,2) [OF d] by (simp add: start_work)
  ultimately have "ended (run_tasks now perform operations n (concat rounds) ?ex)" using r(1) by (rule rounds_end)
  then show ?thesis by (simp add: join_tasks_def ended_def list_all_iff)
qed

lemma fair_schedule_reports:
  assumes d: "distribute repeat n = Some counts" and p: "permits \<noteq> Some 0" and l: "repeat < 2 ^ 64"
    and r: "\<forall>r \<in> set rounds. {..<n} \<subseteq> set r" "2 * n + repeat * iteration_work operations \<le> length rounds"
  shows "\<exists>completed its. join_tasks (run_tasks now perform operations n (concat rounds) (start_executor server permits counts)) = Some completed
    \<and> subseq its [0..<repeat] \<and> map fst completed = concat (map (\<lambda>iteration. map (op_token iteration) operations) its)
    \<and> ex_errors (run_tasks now perform operations n (concat rounds) (start_executor server permits counts)) = repeat - length its"
proof -
  let ?ex = "run_tasks now perform operations n (concat rounds) (start_executor server permits counts)"
  obtain completed where c: "join_tasks ?ex = Some completed" using fair_schedule_ends [OF d p r, of now perform server] by blast
  have "concat (map (\<lambda>t. [tk_iteration t..<tk_end t]) (spawn_tasks counts 0)) = [0..<repeat]"
    using spawn_tasks_ranges [of counts 0] distribute_sound(2) [OF d] by simp
  from join_tasks_sound [OF run_tasks_sound [OF start_sound] c this l] c show ?thesis unfolding iteration_tokens_def by blast
qed

section \<open>Workloads that no schedule disturbs\<close>

text \<open>
  The interface of a workload: \<open>ready k\<close> is what its \<open>k\<close>-th operation relies on. An operation that finds it succeeds, provides
  what the next one relies on, and takes away nothing that another task relies on.
\<close>

locale workload =
  fixes perform :: "Operation \<Rightarrow> 's \<Rightarrow> (AdapterError + unit) \<times> 's" and operations :: "Operation list" and ready :: "nat \<Rightarrow> 's \<Rightarrow> bool"
  assumes ready_start: "ready k s \<Longrightarrow> ready 0 s"
    and ready_perform: "ready k s \<Longrightarrow> k < length operations \<Longrightarrow>
      \<exists>s'. perform (operations ! k) s = (Inr (), s') \<and> ready (Suc k) s' \<and> (\<forall>j. ready j s \<longrightarrow> ready j s')"

definition task_ready :: "Operation list \<Rightarrow> (nat \<Rightarrow> 's \<Rightarrow> bool) \<Rightarrow> 's \<Rightarrow> task \<Rightarrow> bool" where
  "task_ready operations ready s t \<longleftrightarrow>
     (case tk_phase t of
        Answered _ ops answer \<Rightarrow> answer = Inr () \<and> ready (Suc (length operations - length ops)) s
      | ph \<Rightarrow> (case phase_ops ph of None \<Rightarrow> True | Some ops \<Rightarrow> ready (length operations - length ops) s))"

definition undisturbed :: "Operation list \<Rightarrow> (nat \<Rightarrow> 's \<Rightarrow> bool) \<Rightarrow> 's executor \<Rightarrow> bool" where
  "undisturbed operations ready ex \<longleftrightarrow>
     ex_errors ex = 0 \<and> ready 0 (ex_server ex) \<and> (\<forall>t \<in> set (ex_tasks ex). task_ready operations ready (ex_server ex) t)"

lemma task_ready_mono: "task_ready operations ready s t \<Longrightarrow> (\<forall>j. ready j s \<longrightarrow> ready j s') \<Longrightarrow> task_ready operations ready s' t"
  by (auto simp: task_ready_def split: phase.splits)

lemma task_ready_begin: "ready 0 s \<Longrightarrow> task_ready operations ready s (begin_iteration operations t)"
  by (simp add: task_ready_def begin_iteration_def)

context workload
begin

lemma poll_task_ready:
  assumes s: "task_sound operations a g t" and t: "task_ready operations ready (ex_server ex) t"
    and z: "ready 0 (ex_server ex)" "ex_errors ex = 0" and p: "poll_task now perform operations n t ex = (t', ex')"
  shows "task_ready operations ready (ex_server ex') t' \<and> ex_errors ex' = 0 \<and> (\<forall>j. ready j (ex_server ex) \<longrightarrow> ready j (ex_server ex'))"
proof (cases "tk_phase t")
  case (Calling started ops)
  then obtain past where o: "operations = past @ ops" "ops \<noteq> []" using s by (auto simp: task_sound_def)
  then have k: "length operations - length ops = length past" "length past < length operations" "operations ! length past = hd ops"
    by (auto simp: hd_conv_nth nth_append)
  then have "ready (length past) (ex_server ex)" using t Calling by (simp add: task_ready_def)
  from ready_perform [OF this k(2)] k obtain s' where "perform (hd ops) (ex_server ex) = (Inr (), s')" "ready (Suc (length past)) s'"
    "\<forall>j. ready j (ex_server ex) \<longrightarrow> ready j s'" by auto
  then show ?thesis using p Calling z k(1) by (auto simp: poll_task_def task_ready_def)
next
  case (Answered started ops answer)
  then obtain past where o: "operations = past @ ops" "ops \<noteq> []" using s by (auto simp: task_sound_def)
  then have "length operations - length (tl ops) = Suc (length operations - length ops)" by (cases ops) auto
  then show ?thesis using p t z Answered by (auto simp: poll_task_def task_ready_def Let_def)
next
  case (Iterating ops)
  show ?thesis
  proof (cases ops)
    case Nil
    then show ?thesis using p z Iterating task_ready_begin [where ready = ready and s = "ex_server ex"] by (auto simp: poll_task_def)
  next
    case (Cons op rest)
    then show ?thesis using p t z Iterating by (auto simp: poll_task_def task_ready_def)
  qed
next
  case At_Barrier
  then show ?thesis using p t z task_ready_begin [where ready = ready and s = "ex_server ex"] by (auto simp: poll_task_def split: if_splits)
qed (use p t z in \<open>auto simp: poll_task_def task_ready_def split: option.splits nat.splits\<close>)

lemma poll_undisturbed:
  assumes "run_sound operations ts ex" "undisturbed operations ready ex"
  shows "undisturbed operations ready (poll now perform operations n i ex)"
proof (cases "i < length (ex_tasks ex)")
  case True
  obtain t' ex' where p: "poll_task now perform operations n (ex_tasks ex ! i) ex = (t', ex')" by force
  obtain a g where "task_sound operations a g (ex_tasks ex ! i)" using assms(1) True by (auto simp: run_sound_def)
  from poll_task_ready [OF this _ _ _ p] assms(2) True
  have q: "task_ready operations ready (ex_server ex') t'" "ex_errors ex' = 0" "\<forall>j. ready j (ex_server ex) \<longrightarrow> ready j (ex_server ex')"
    by (auto simp: undisturbed_def)
  have "task_ready operations ready (ex_server ex') u" if "u \<in> set ((ex_tasks ex)[i := t'])" for u
    using set_update_subset_insert [of "ex_tasks ex" i t'] that q assms(2)
      task_ready_mono [where ready = ready and s = "ex_server ex" and s' = "ex_server ex'" and operations = operations]
    by (auto simp: undisturbed_def)
  then show ?thesis using q assms(2) True p by (auto simp: poll_def undisturbed_def)
qed (use assms(2) in \<open>simp add: poll_def\<close>)

lemma run_undisturbed:
  "run_sound operations ts ex \<Longrightarrow> undisturbed operations ready ex \<Longrightarrow> undisturbed operations ready (run_tasks now perform operations n schedule ex)"
  unfolding run_tasks_def by (induction schedule arbitrary: ex) (simp_all add: poll_sound poll_undisturbed)

lemma start_undisturbed: "ready 0 server \<Longrightarrow> undisturbed operations ready (start_executor server permits counts)"
  using spawn_tasks_fresh [of _ counts 0] by (auto simp: undisturbed_def start_executor_def task_ready_def)

lemma fair_schedule_completes:
  assumes d: "distribute repeat n = Some counts" and p: "permits \<noteq> Some 0" and s: "ready 0 server" and l: "repeat < 2 ^ 64"
    and r: "\<forall>r \<in> set rounds. {..<n} \<subseteq> set r" "2 * n + repeat * iteration_work operations \<le> length rounds"
  shows "\<exists>completed. join_tasks (run_tasks now perform operations n (concat rounds) (start_executor server permits counts)) = Some completed
    \<and> map fst completed = concat (map (\<lambda>iteration. map (op_token iteration) operations) [0..<repeat])
    \<and> ex_errors (run_tasks now perform operations n (concat rounds) (start_executor server permits counts)) = 0"
proof -
  let ?ex = "run_tasks now perform operations n (concat rounds) (start_executor server permits counts)"
  have e: "ex_errors ?ex = 0" using run_undisturbed [OF start_sound start_undisturbed [OF s]] by (simp add: undisturbed_def)
  with fair_schedule_reports [OF d p l r, of now perform server] obtain completed its where c: "join_tasks ?ex = Some completed"
    and its: "subseq its [0..<repeat]" "map fst completed = concat (map (\<lambda>iteration. map (op_token iteration) operations) its)"
      "repeat \<le> length its" by auto
  then have "its = [0..<repeat]" using subseq_same_length [OF its(1)] list_emb_length [OF its(1)] by simp
  with its(2) c e show ?thesis by auto
qed

end

section \<open>The workloads of the adapter\<close>

text \<open>A workload against Redis, for a library that keeps a tick once it is set and knows of no lock: \<open>fresh\<close> and
  \<open>stored\<close> are the states of the server before and after the tick is set.\<close>

definition keeps_tick :: "('g, 's) fred \<Rightarrow> string \<Rightarrow> string \<Rightarrow> string \<Rightarrow> ('s \<Rightarrow> bool) \<Rightarrow> ('s \<Rightarrow> bool) \<Rightarrow> bool" where
  "keeps_tick lib tick_key breaker_key v fresh stored \<longleftrightarrow>
     (\<forall>s. fresh s \<longrightarrow> (\<exists>s'. fr_set_ex lib tick_key v 60 s = (Inr (), s') \<and> stored s'))
     \<and> (\<forall>s. stored s \<longrightarrow> fresh s
        \<and> (\<exists>s'. fr_get lib tick_key s = (Inr (Some v), s') \<and> stored s')
        \<and> (\<exists>s'. fr_exists lib breaker_key s = (Inr 0, s') \<and> stored s'))"

lemma redis_workload_ready:
  assumes "keeps_tick lib tick_key breaker_key v fresh stored"
  shows "workload (redis_operation lib tick_key breaker_key) (redis_workload v) (\<lambda>k. if k = 0 then fresh else stored)"
proof
  note keep = assms [unfolded keeps_tick_def]
  have laws: "\<And>s. fresh s \<Longrightarrow> \<exists>s'. fr_set_ex lib tick_key v 60 s = (Inr (), s') \<and> stored s'" "\<And>s. stored s \<Longrightarrow> fresh s"
    "\<And>s. stored s \<Longrightarrow> \<exists>s'. fr_get lib tick_key s = (Inr (Some v), s') \<and> stored s'"
    "\<And>s. stored s \<Longrightarrow> \<exists>s'. fr_exists lib breaker_key s = (Inr 0, s') \<and> stored s'"
    using keep by blast+
  fix k s
  assume r: "(if k = 0 then fresh else stored) s" and k: "k < length (redis_workload v)"
  then consider "k = 0" "fresh s" | "k = 1" "stored s" | "k = 2" "stored s" by (auto simp: redis_workload_def less_Suc_eq split: if_splits)
  then show "\<exists>s'. redis_operation lib tick_key breaker_key (redis_workload v ! k) s = (Inr (), s')
      \<and> (if Suc k = 0 then fresh else stored) s' \<and> (\<forall>j. (if j = 0 then fresh else stored) s \<longrightarrow> (if j = 0 then fresh else stored) s')"
  proof cases
    case 1
    then show ?thesis using laws(1) [of s] laws(2) by (auto simp: redis_operation_def redis_workload_def required_def)
  next
    case 2
    then show ?thesis using laws(3) [of s] laws(2) by (auto simp: redis_operation_def redis_workload_def as_str_def)
  next
    case 3
    then show ?thesis using laws(4) [of s] laws(2) by (auto simp: redis_operation_def redis_workload_def as_bool_def unwrap_or_def)
  qed
qed (use assms in \<open>auto simp: keeps_tick_def split: if_splits\<close>)

interpretation redis_load: workload "redis_operation memory_fred ''tick'' ''lock''" "redis_workload v"
    "\<lambda>k. if k = 0 then (\<lambda>s. map_of s ''lock'' = None) else (\<lambda>s. map_of s ''lock'' = None \<and> map_of s ''tick'' = Some v)" for v
  by (rule redis_workload_ready) (simp add: keeps_tick_def memory_fred_def)

text \<open>
  The workload against PostgreSQL on a table that holds nothing else for its ticker: each row is written with the same values
  by every task, so that the exposure is the expected one from the first time both rows are there.
\<close>

definition paper_row :: "string \<Rightarrow> string \<Rightarrow> int \<Rightarrow> int \<Rightarrow> upsert_bind" where
  "paper_row ticker strategy quantity price =
     \<lparr>ub_ticker = ticker, ub_name = ''MVP-2 fixture'', ub_quantity = quantity, ub_current_price = price, ub_account_scope = ''paper'',
      ub_strategy_id = strategy\<rparr>"

definition db_ready :: "nat \<Rightarrow> upsert_bind list \<Rightarrow> bool" where
  "db_ready k rows \<longleftrightarrow>
     (let a = paper_row ''M2'' ''strategy-a'' 10 1000; b = paper_row ''M2'' ''strategy-b'' 20 1200
      in rows \<in> {[], [a], [a, b], [b, a]} \<and> (1 \<le> k \<longrightarrow> a \<in> set rows) \<and> (2 \<le> k \<longrightarrow> b \<in> set rows))"

interpretation db_load: workload "db_operation memory_sqlx ''M2''" db_workload db_ready
proof
  fix k s
  assume r: "db_ready k s" and "k < length db_workload"
  then consider "k = 0" | "k = 1" | "k = 2" by (auto simp: db_workload_def less_Suc_eq)
  then show "\<exists>s'. db_operation memory_sqlx ''M2'' (db_workload ! k) s = (Inr (), s') \<and> db_ready (Suc k) s' \<and> (\<forall>j. db_ready j s \<longrightarrow> db_ready j s')"
    using r
    by cases (auto simp: db_ready_def paper_row_def db_workload_def upsert_operation_def db_operation_def memory_sqlx_def same_position_def
        required_def required_i64_def table_exposure_def value_index_def as_i64_def unwrap_or_def Let_def)
qed (auto simp: db_ready_def Let_def)

text \<open>
  C15. With any number of concurrent tasks and any number of permits, every schedule that polls each task in each of enough rounds
  ends a Redis run, in whatever order it polls within a round and whatever the server answers, errors included, as long as it
  answers: no task waits for ever at the barrier or for a permit. The run then reports all operations of some of the
  iterations, in order, and counts every other iteration as an error. And no order of the tasks makes an operation fail on a server
  that has no lock and, for the length of the run, keeps the tick once it is set: then every operation of every iteration is
  reported, and no error.
\<close>

theorem edge_redis_fair:
  assumes "distribute repeat n = Some counts" "repeat < 2 ^ 64" "0 < depth"
    and "\<forall>r \<in> set rounds. {..<n} \<subseteq> set r" "2 * n + repeat * (4 * length operations + 1) \<le> length rounds"
    and "ex = run_tasks now (redis_operation lib tick_key breaker_key) operations n (concat rounds)
           (start_executor client (Some depth) counts)"
  shows "\<exists>completed its. join_tasks ex = Some completed \<and> subseq its [0..<repeat]
    \<and> map fst completed = concat (map (\<lambda>iteration. map (op_token iteration) operations) its)
    \<and> ex_errors ex = repeat - length its
    \<and> (operations = redis_workload v \<and> keeps_tick lib tick_key breaker_key v fresh stored \<and> fresh client \<longrightarrow>
        its = [0..<repeat] \<and> ex_errors ex = 0)"
proof -
  have p: "Some depth \<noteq> Some 0" using assms(3) by simp
  have r: "2 * n + repeat * iteration_work operations \<le> length rounds" using assms(5) by (simp add: iteration_work_def)
  obtain completed its where c: "join_tasks ex = Some completed" "subseq its [0..<repeat]" "ex_errors ex = repeat - length its"
    "map fst completed = concat (map (\<lambda>iteration. map (op_token iteration) operations) its)"
    using fair_schedule_reports [OF assms(1) p assms(2,4) r, of now "redis_operation lib tick_key breaker_key" client, folded assms(6)] by blast
  have "ex_errors ex = 0" if "operations = redis_workload v" "keeps_tick lib tick_key breaker_key v fresh stored" "fresh client"
    using workload.fair_schedule_completes [OF redis_workload_ready [OF that(2)] assms(1) p, where server = client and rounds = rounds
        and now = now] that(1,3) assms(2,4) r unfolding assms(6) that(1) by clarsimp
  moreover have "its = [0..<repeat]" if "ex_errors ex = 0"
    using that c(2,3) subseq_same_length [OF c(2)] list_emb_length [OF c(2)] by simp
  ultimately show ?thesis using c by blast
qed

text \<open>The witness: the workload on a server that keeps the tick, and on one with a lock, where the runs end although every
  iteration fails.\<close>

theorem edge_redis_fair_witness:
  "(\<exists>completed. join_tasks (run_tasks (\<lambda>k. k) (redis_operation memory_fred ''tick'' ''lock'') (redis_workload ''7'') 8
        (concat (replicate 146 [3, 1, 7, 0, 2, 6, 5, 4])) (start_executor [] (Some 1) [2, 2, 1, 1, 1, 1, 1, 1])) = Some completed
     \<and> length completed = 30)
   \<and> (\<exists>completed. join_tasks (run_tasks (\<lambda>k. k) (redis_operation memory_fred ''tick'' ''lock'') (redis_workload ''7'') 8
        (concat (replicate 146 [3, 1, 7, 0, 2, 6, 5, 4])) (start_executor [(''lock'', ''1'')] (Some 1) [2, 2, 1, 1, 1, 1, 1, 1])) = Some completed)"
proof -
  define ex where "ex client = run_tasks (\<lambda>k. k) (redis_operation memory_fred ''tick'' ''lock'') (redis_workload ''7'') 8
    (concat (replicate 146 [3, 1, 7, 0, 2, 6, 5, 4])) (start_executor client (Some 1) [2, 2, 1, 1, 1, 1, 1, 1])" for client
  have d: "distribute 10 8 = Some [2, 2, 1, 1, 1, 1, 1, 1]" by code_simp
  have r: "\<forall>r \<in> set (replicate 146 [3, 1, 7, 0, 2, 6, 5, 4]). {..<8 :: nat} \<subseteq> set r" by auto
  have l: "2 * 8 + 10 * (4 * length (redis_workload ''7'') + 1) \<le> length (replicate 146 [3, 1, 7, 0, 2, 6, 5, 4 :: nat])"
    by (simp add: redis_workload_def)
  have b: "10 < (2 :: nat) ^ 64" "0 < (1 :: nat)" by simp_all
  note fair = edge_redis_fair [OF d b r l ex_def, where v = "''7''" and fresh = "\<lambda>s. map_of s ''lock'' = None"
      and stored = "\<lambda>s. map_of s ''lock'' = None \<and> map_of s ''tick'' = Some ''7''"]
  have k: "keeps_tick memory_fred ''tick'' ''lock'' ''7'' (\<lambda>s. map_of s ''lock'' = None) (\<lambda>s. map_of s ''lock'' = None \<and> map_of s ''tick'' = Some ''7'')"
    by (simp add: keeps_tick_def memory_fred_def)
  obtain completed where c: "join_tasks (ex []) = Some completed"
    "map fst completed = concat (map (\<lambda>iteration. map (op_token iteration) (redis_workload ''7'')) [0..<10])"
    using fair [of "[]"] k by fastforce
  have "length completed = length (map fst completed)" by simp
  also have "\<dots> = 30" unfolding c(2) by (simp add: redis_workload_def length_concat comp_def upt_rec)
  finally show ?thesis using c(1) fair [of "[(''lock'', ''1'')]"] unfolding ex_def by blast
qed

end
